(* ===== verification/Prelude.thy ===== *)
theory Prelude
  imports Main "HOL-Library.Word" "HOL-Library.Multiset"
begin

text \<open>
  Shared vocabulary of the development: results as sums, the string and integer operations of the
  Rust standard library that the code uses, and the generic lemmas the components share.

  Strings are ASCII byte strings (Isabelle's \<^typ>\<open>string\<close>): on them the Unicode-aware
  \<open>to_lowercase\<close>, \<open>to_uppercase\<close> and \<open>trim\<close> of Rust coincide with the ASCII
  versions below.  Bounded integers are \<^typ>\<open>nat\<close> or \<^typ>\<open>int\<close> with
  saturation, range checks or wrap-around written out where the code depends on them.
\<close>

named_theorems string_simps \<open>unfoldings of the string operations\<close>
named_theorems port_simps \<open>unfoldings of port calls\<close>

section \<open>Results\<close>

abbreviation Err :: "'e \<Rightarrow> 'e + 'a" where "Err \<equiv> Inl"
abbreviation Ok :: "'a \<Rightarrow> 'e + 'a" where "Ok \<equiv> Inr"

fun is_ok :: "'e + 'a \<Rightarrow> bool" where
  "is_ok (Inl e) = False"
| "is_ok (Inr a) = True"

fun map_ok :: "('a \<Rightarrow> 'b) \<Rightarrow> 'e + 'a \<Rightarrow> 'e + 'b" where
  "map_ok f (Inl e) = Inl e"
| "map_ok f (Inr a) = Inr (f a)"

fun map_err :: "('e \<Rightarrow> 'f) \<Rightarrow> 'e + 'a \<Rightarrow> 'f + 'a" where
  "map_err f (Inl e) = Inl (f e)"
| "map_err f (Inr a) = Inr a"

fun ok_or :: "'e \<Rightarrow> 'a option \<Rightarrow> 'e + 'a" where
  "ok_or e None = Inl e"
| "ok_or e (Some a) = Inr a"

fun result_ok :: "'e + 'a \<Rightarrow> 'a option" where
  "result_ok (Inl e) = None"
| "result_ok (Inr a) = Some a"

text \<open>\<open>iter().map(f).collect::<Result<Vec<_>, _>>()\<close>: left to right, stops at the first error.\<close>

fun collect_results :: "('a \<Rightarrow> 'e + 'b) \<Rightarrow> 'a list \<Rightarrow> 'e + 'b list" where
  "collect_results f [] = Inr []"
| "collect_results f (x # xs) =
     (case f x of
        Inl e \<Rightarrow> Inl e
      | Inr y \<Rightarrow> (case collect_results f xs of Inl e \<Rightarrow> Inl e | Inr ys \<Rightarrow> Inr (y # ys)))"

text \<open>\<open>Option<Result<T, E>>::transpose\<close> applied after \<open>map(f)\<close>.\<close>

fun map_transpose :: "('a \<Rightarrow> 'e + 'b) \<Rightarrow> 'a option \<Rightarrow> 'e + 'b option" where
  "map_transpose f None = Inr None"
| "map_transpose f (Some a) = map_ok Some (f a)"

lemma is_ok_iff: "is_ok r \<longleftrightarrow> (\<exists>a. r = Inr a)"
  by (cases r) auto

lemma map_ok_eq_Inr: "map_ok f r = Inr b \<longleftrightarrow> (\<exists>a. r = Inr a \<and> b = f a)"
  by (cases r) auto

lemma map_ok_eq_Inl [simp]: "map_ok f r = Inl e \<longleftrightarrow> r = Inl e"
  by (cases r) auto

lemma map_err_eq_Inr [simp]: "map_err f r = Inr b \<longleftrightarrow> r = Inr b"
  by (cases r) auto

lemma map_err_eq_Inl: "map_err f r = Inl e \<longleftrightarrow> (\<exists>x. r = Inl x \<and> e = f x)"
  by (cases r) auto

lemma ok_or_eq_Inr [simp]: "ok_or e x = Inr a \<longleftrightarrow> x = Some a"
  by (cases x) auto

lemma collect_results_Inr:
  "collect_results f xs = Inr ys \<longleftrightarrow> list_all2 (\<lambda>x y. f x = Inr y) xs ys"
proof (induction xs arbitrary: ys)
  case Nil
  then show ?case by (cases ys) auto
next
  case (Cons x xs)
  show ?case
  proof (cases "f x")
    case (Inl e)
    then show ?thesis by (auto simp: list_all2_Cons1)
  next
    case (Inr y)
    then show ?thesis
      by (cases "collect_results f xs") (auto simp: list_all2_Cons1 Cons.IH [symmetric])
  qed
qed

lemma collect_results_length: "collect_results f xs = Inr ys \<Longrightarrow> length ys = length xs"
  by (auto simp: collect_results_Inr dest: list_all2_lengthD)

lemma collect_results_Inl:
  "collect_results f xs = Inl e \<longleftrightarrow>
     (\<exists>pre x post. xs = pre @ x # post \<and> f x = Inl e \<and> (\<forall>p\<in>set pre. is_ok (f p)))"
proof (induction xs)
  case Nil
  then show ?case by simp
next
  case (Cons y ys)
  show ?case
  proof (cases "f y")
    case (Inl e')
    have "y # ys = [] @ y # ys \<and> f y = Inl e' \<and> (\<forall>p\<in>set []. is_ok (f p))"
      by (simp add: Inl)
    then have "\<exists>pre x post. y # ys = pre @ x # post \<and> f x = Inl e' \<and> (\<forall>p\<in>set pre. is_ok (f p))"
      by blast
    moreover have "e' = e" if "y # ys = pre @ x # post" "f x = Inl e" "\<forall>p\<in>set pre. is_ok (f p)" for pre x post
      using that Inl by (cases pre) auto
    ultimately show ?thesis by (auto simp: Inl)
  next
    case (Inr b)
    have "collect_results f (y # ys) = Inl e \<longleftrightarrow> collect_results f ys = Inl e"
      using Inr by (auto split: sum.splits)
    also have "\<dots> \<longleftrightarrow> (\<exists>pre x post. ys = pre @ x # post \<and> f x = Inl e \<and> (\<forall>p\<in>set pre. is_ok (f p)))"
      by (rule Cons.IH)
    also have "\<dots> \<longleftrightarrow> (\<exists>pre x post. y # ys = pre @ x # post \<and> f x = Inl e \<and> (\<forall>p\<in>set pre. is_ok (f p)))"
      (is "?L \<longleftrightarrow> ?R")
    proof
      assume ?L
      then obtain pre x post
        where "ys = pre @ x # post" "f x = Inl e" "\<forall>p\<in>set pre. is_ok (f p)" by blast
      then have "y # ys = (y # pre) @ x # post \<and> f x = Inl e \<and> (\<forall>p\<in>set (y # pre). is_ok (f p))"
        using Inr by simp
      then show ?R by blast
    next
      assume ?R
      then obtain pre x post
        where *: "y # ys = pre @ x # post" "f x = Inl e" "\<forall>p\<in>set pre. is_ok (f p)" by blast
      then obtain pre' where "pre = y # pre'" using Inr by (cases pre) auto
      with * show ?L by auto
    qed
    finally show ?thesis .
  qed
qed

lemma collect_results_ok: "(\<And>x. x \<in> set xs \<Longrightarrow> f x = Inr (g x)) \<Longrightarrow> collect_results f xs = Inr (map g xs)"
  by (induction xs) auto

text \<open>The \<open>?\<close> operator on results.\<close>

definition bind_sum :: "'e + 'a \<Rightarrow> ('a \<Rightarrow> 'e + 'b) \<Rightarrow> 'e + 'b" where
  "bind_sum r f = (case r of Inl e \<Rightarrow> Inl e | Inr a \<Rightarrow> f a)"

lemma bind_sum_simps [simp]: "bind_sum (Inl e) f = Inl e" "bind_sum (Inr a) f = f a"
  by (simp_all add: bind_sum_def)

lemma bind_sum_Inr: "bind_sum r f = Inr b \<longleftrightarrow> (\<exists>a. r = Inr a \<and> f a = Inr b)"
  by (cases r) auto

lemma bind_sum_Inl: "bind_sum r f = Inl e \<longleftrightarrow> r = Inl e \<or> (\<exists>a. r = Inr a \<and> f a = Inl e)"
  by (cases r) auto

text \<open>The \<open>?\<close> operator on code that threads a world: stop at the first error, keep the world reached.\<close>

definition and_then ::
    "('w \<Rightarrow> ('e + 'a) \<times> 'w) \<Rightarrow> ('a \<Rightarrow> 'w \<Rightarrow> ('e + 'b) \<times> 'w) \<Rightarrow> 'w \<Rightarrow> ('e + 'b) \<times> 'w" where
  "and_then m k w = (case m w of (Inl e, w') \<Rightarrow> (Inl e, w') | (Inr a, w') \<Rightarrow> k a w')"

definition done_with :: "'a \<Rightarrow> 'w \<Rightarrow> ('e + 'a) \<times> 'w" where
  "done_with a w = (Inr a, w)"

definition fail_with :: "'e \<Rightarrow> 'w \<Rightarrow> ('e + 'a) \<times> 'w" where
  "fail_with e w = (Inl e, w)"

definition map_err_st :: "('e \<Rightarrow> 'f) \<Rightarrow> ('w \<Rightarrow> ('e + 'a) \<times> 'w) \<Rightarrow> 'w \<Rightarrow> ('f + 'a) \<times> 'w" where
  "map_err_st f m w = (map_err f (fst (m w)), snd (m w))"

text \<open>\<open>keeps_st Q f\<close>: the call \<open>f\<close> keeps \<open>Q\<close>, whatever it returns.\<close>

definition keeps_st :: "('w \<Rightarrow> bool) \<Rightarrow> ('w \<Rightarrow> 'r \<times> 'w) \<Rightarrow> bool" where
  "keeps_st Q f \<longleftrightarrow> (\<forall>w. Q w \<longrightarrow> Q (snd (f w)))"

lemma keeps_stD: "keeps_st Q f \<Longrightarrow> Q w \<Longrightarrow> Q (snd (f w))"
  by (simp add: keeps_st_def)

lemma keeps_done [intro]: "keeps_st Q (done_with a)" "keeps_st Q (fail_with e)"
  by (simp_all add: keeps_st_def done_with_def fail_with_def)

lemma keeps_map_err [intro]: "keeps_st Q f \<Longrightarrow> keeps_st Q (map_err_st g f)"
  by (simp add: keeps_st_def map_err_st_def)

lemma keeps_and_then [intro]: "keeps_st Q f \<Longrightarrow> (\<And>a. keeps_st Q (k a)) \<Longrightarrow> keeps_st Q (and_then f k)"
proof (unfold keeps_st_def, intro allI impI)
  fix w assume f: "\<forall>w. Q w \<longrightarrow> Q (snd (f w))" and k: "\<And>a. \<forall>w. Q w \<longrightarrow> Q (snd (k a w))" and w: "Q w"
  obtain x w' where x: "f w = (x, w')" by fastforce
  with f w have "Q w'" by (metis snd_conv)
  with k x show "Q (snd (and_then f k w))" by (cases x) (simp_all add: and_then_def)
qed

lemma keeps_cases [intro]:
  "(c \<Longrightarrow> keeps_st Q f) \<Longrightarrow> (\<not> c \<Longrightarrow> keeps_st Q g) \<Longrightarrow> keeps_st Q (if c then f else g)"
  "(x = None \<Longrightarrow> keeps_st Q f) \<Longrightarrow> (\<And>a. x = Some a \<Longrightarrow> keeps_st Q (h a)) \<Longrightarrow> keeps_st Q (case x of None \<Rightarrow> f | Some a \<Rightarrow> h a)"
  "(\<And>a b. p = (a, b) \<Longrightarrow> keeps_st Q (k a b)) \<Longrightarrow> keeps_st Q (case p of (a, b) \<Rightarrow> k a b)"
  by (auto split: option.splits prod.splits)

lemma and_then_Inr: "and_then m k w = (Inr b, w'') \<longleftrightarrow> (\<exists>a w'. m w = (Inr a, w') \<and> k a w' = (Inr b, w''))"
  by (auto simp: and_then_def split: prod.splits sum.splits)

lemma and_then_Inl: "and_then m k w = (Inl e, w'') \<longleftrightarrow>
    m w = (Inl e, w'') \<or> (\<exists>a w'. m w = (Inr a, w') \<and> k a w' = (Inl e, w''))"
  by (auto simp: and_then_def split: prod.splits sum.splits)

lemma map_err_st_Inr: "map_err_st f m w = (Inr a, w') \<longleftrightarrow> m w = (Inr a, w')"
  by (cases "m w") (auto simp: map_err_st_def)

lemma map_err_st_Inl: "map_err_st f m w = (Inl e', w') \<longleftrightarrow> (\<exists>e. m w = (Inl e, w') \<and> e' = f e)"
proof -
  obtain r d where "m w = (r, d)" by fastforce
  then show ?thesis by (cases r) (auto simp: map_err_st_def)
qed

lemma done_with_Inr [simp]: "done_with a w = (Inr b, w') \<longleftrightarrow> a = b \<and> w = w'"
  by (auto simp: done_with_def)

lemma done_with_Inl [simp]: "done_with a w \<noteq> (Inl e, w')"
  by (simp add: done_with_def)

lemma fail_with_Inl [simp]: "fail_with e w = (Inl e', w') \<longleftrightarrow> e = e' \<and> w = w'"
  by (auto simp: fail_with_def)

lemma fail_with_Inr [simp]: "fail_with e w \<noteq> (Inr a, w')"
  by (simp add: fail_with_def)

lemmas st_results = and_then_Inr and_then_Inl map_err_st_Inr map_err_st_Inl

section \<open>Runs that come to rest\<close>

lemma run_reaches:
  fixes r :: "nat \<Rightarrow> 's" and m :: "'s \<Rightarrow> nat"
  assumes "I (r 0)" "\<And>n. I (r n) \<Longrightarrow> I (r (Suc n))"
    and "\<And>n. I (r n) \<Longrightarrow> \<not> D (r n) \<Longrightarrow> m (r (Suc n)) < m (r n)"
  shows "\<exists>n \<le> m (r 0). D (r n)"
  using assms
proof (induction "m (r 0)" arbitrary: r rule: less_induct)
  case less
  show ?case
  proof (cases "D (r 0)")
    case False
    with less.prems have lt: "m (r (Suc 0)) < m (r 0)" by blast
    then obtain n where "n \<le> m (r (Suc 0))" "D (r (Suc n))"
      using less.hyps [of "\<lambda>n. r (Suc n)"] less.prems by blast
    with lt show ?thesis by (meson Suc_leI le_less_trans)
  qed blast
qed

lemma run_rests:
  assumes "\<And>n. D (r n) \<Longrightarrow> r (Suc n) = r n" "D (r k)" "k \<le> n"
  shows "r n = r k"
  using assms(3)
proof (induction n rule: dec_induct)
  case (step n)
  with assms(1,2) show ?case by metis
qed simp

section \<open>Strings\<close>

definition ascii_lower :: "char \<Rightarrow> char" where
  "ascii_lower c =
     (if 65 \<le> (of_char c :: nat) \<and> (of_char c :: nat) \<le> 90 then char_of ((of_char c :: nat) + 32) else c)"

definition ascii_upper :: "char \<Rightarrow> char" where
  "ascii_upper c =
     (if 97 \<le> (of_char c :: nat) \<and> (of_char c :: nat) \<le> 122 then char_of ((of_char c :: nat) - 32) else c)"

definition to_ascii_lowercase :: "string \<Rightarrow> string" where
  "to_ascii_lowercase = map ascii_lower"

definition to_ascii_uppercase :: "string \<Rightarrow> string" where
  "to_ascii_uppercase = map ascii_upper"

definition eq_ignore_ascii_case :: "string \<Rightarrow> string \<Rightarrow> bool" where
  "eq_ignore_ascii_case a b \<longleftrightarrow> to_ascii_lowercase a = to_ascii_lowercase b"

definition is_ws :: "char \<Rightarrow> bool" where
  "is_ws c \<longleftrightarrow> (of_char c :: nat) \<in> set [9, 10, 11, 12, 13, 32]"

definition trim :: "string \<Rightarrow> string" where
  "trim s = rev (dropWhile is_ws (rev (dropWhile is_ws s)))"

definition trim_end_matches :: "char \<Rightarrow> string \<Rightarrow> string" where
  "trim_end_matches c s = rev (dropWhile (\<lambda>x. x = c) (rev s))"

text \<open>\<open>str::split(c)\<close>: always at least one piece.\<close>

fun split_on :: "char \<Rightarrow> string \<Rightarrow> string list" where
  "split_on c [] = [[]]"
| "split_on c (x # xs) =
     (if x = c then [] # split_on c xs
      else (case split_on c xs of [] \<Rightarrow> [[x]] | h # t \<Rightarrow> (x # h) # t))"

text \<open>\<open>str::rsplit_once(c)\<close>: around the last occurrence.\<close>

definition rsplit_once :: "char \<Rightarrow> string \<Rightarrow> (string \<times> string) option" where
  "rsplit_once c s =
     (case dropWhile (\<lambda>x. x \<noteq> c) (rev s) of
        [] \<Rightarrow> None
      | _ # r \<Rightarrow> Some (rev r, rev (takeWhile (\<lambda>x. x \<noteq> c) (rev s))))"

fun strip_prefix :: "string \<Rightarrow> string \<Rightarrow> string option" where
  "strip_prefix [] s = Some s"
| "strip_prefix (p # ps) [] = None"
| "strip_prefix (p # ps) (c # cs) = (if p = c then strip_prefix ps cs else None)"

text \<open>\<open>v.split(',').map(str::trim).filter(|s| !s.is_empty())\<close>, the idiom of every list-valued
  environment variable.\<close>

definition comma_list :: "string \<Rightarrow> string list" where
  "comma_list v = filter (\<lambda>s. s \<noteq> []) (map trim (split_on CHR '','' v))"

fun join :: "string \<Rightarrow> string list \<Rightarrow> string" where
  "join sep [] = []"
| "join sep [x] = x"
| "join sep (x # y # zs) = x @ sep @ join sep (y # zs)"

text \<open>Debug formatting of a string, as \<open>{:?}\<close> prints it: quoted, with quotes, backslashes and line breaks escaped.\<close>

definition escape_debug :: "char \<Rightarrow> string" where
  "escape_debug c =
     (if c = CHR ''\"'' then [CHR 0x5C, CHR 0x22]
      else if c = CHR 0x5C then [CHR 0x5C, CHR 0x5C]
      else if c = CHR 0x0A then [CHR 0x5C, CHR ''n'']
      else if c = CHR 0x0D then [CHR 0x5C, CHR ''r'']
      else if c = CHR 0x09 then [CHR 0x5C, CHR ''t''] else [c])"

definition debug_str :: "string \<Rightarrow> string" where
  "debug_str s = [CHR 0x22] @ concat (map escape_debug s) @ [CHR 0x22]"

text \<open>\<open>std::env::var\<close>: absent, not Unicode, or a string.\<close>

datatype env_var = NotPresent | NotUnicode | Present string

lemma ascii_lower_idem [simp]: "ascii_lower (ascii_lower c) = ascii_lower c"
proof (cases "65 \<le> (of_char c :: nat) \<and> (of_char c :: nat) \<le> 90")
  case True
  then have "(of_char c :: nat) + 32 < 256" by simp
  then have "(of_char (char_of ((of_char c :: nat) + 32) :: char) :: nat) = of_char c + 32"
    by (simp add: of_char_of)
  with True show ?thesis by (simp add: ascii_lower_def)
next
  case False
  then have "ascii_lower c = c" by (auto simp: ascii_lower_def)
  then show ?thesis by simp
qed

lemma to_ascii_lowercase_idem [simp]: "to_ascii_lowercase (to_ascii_lowercase s) = to_ascii_lowercase s"
  by (simp add: to_ascii_lowercase_def)

lemma split_on_not_Nil [simp]: "split_on c s \<noteq> []"
  by (induction s) (auto split: list.splits)

lemma join_split_on: "join [c] (split_on c s) = s"
proof (induction s)
  case Nil
  then show ?case by simp
next
  case (Cons x xs)
  obtain h t where ht: "split_on c xs = h # t" by (cases "split_on c xs") auto
  with Cons show ?case by (cases t) auto
qed

lemma split_on_no_sep: "p \<in> set (split_on c s) \<Longrightarrow> c \<notin> set p"
proof (induction s arbitrary: p)
  case Nil
  then show ?case by simp
next
  case (Cons x xs)
  then show ?case by (auto split: if_splits list.splits)
qed

lemma rsplit_once_Some:
  assumes "rsplit_once c s = Some (a, b)"
  shows "s = a @ c # b" and "c \<notin> set b"
proof -
  let ?q = "\<lambda>x. x \<noteq> c"
  obtain d r where dr: "dropWhile ?q (rev s) = d # r" "a = rev r" "b = rev (takeWhile ?q (rev s))"
    using assms by (auto simp: rsplit_once_def split: list.splits)
  have "\<not> ?q d"
    using hd_dropWhile [of ?q "rev s"] dr(1) by simp
  then have d: "d = c" by simp
  have "rev s = takeWhile ?q (rev s) @ c # r"
    using takeWhile_dropWhile_id [of ?q "rev s"] dr(1) d by simp
  then have "s = rev (takeWhile ?q (rev s) @ c # r)" by (metis rev_rev_ident)
  then show "s = a @ c # b" by (simp add: dr)
  show "c \<notin> set b" using dr(3) set_takeWhileD [of c ?q "rev s"] by auto
qed

lemma rsplit_once_None: "rsplit_once c s = None \<longleftrightarrow> c \<notin> set s"
proof -
  have "rsplit_once c s = None \<longleftrightarrow> dropWhile (\<lambda>x. x \<noteq> c) (rev s) = []"
    by (cases "dropWhile (\<lambda>x. x \<noteq> c) (rev s)") (simp_all add: rsplit_once_def del: dropWhile_eq_Nil_conv)
  also have "\<dots> \<longleftrightarrow> c \<notin> set s" unfolding dropWhile_eq_Nil_conv by auto
  finally show ?thesis .
qed

lemma trim_end_matches_idem [simp]:
  "trim_end_matches c (trim_end_matches c s) = trim_end_matches c s"
  by (simp add: trim_end_matches_def)

lemma trim_end_matches_last: "trim_end_matches c s \<noteq> [] \<Longrightarrow> last (trim_end_matches c s) \<noteq> c"
  using hd_dropWhile [of "\<lambda>x. x = c" "rev s"] by (simp add: trim_end_matches_def last_rev)

lemma strip_prefix_Some: "strip_prefix p s = Some r \<longleftrightarrow> s = p @ r"
  by (induction p s rule: strip_prefix.induct) auto

lemma comma_list_nonempty: "x \<in> set (comma_list v) \<Longrightarrow> x \<noteq> []"
  by (simp add: comma_list_def)

section \<open>Integers\<close>

definition u32_max :: nat where "u32_max = 4294967295"
definition u64_max :: nat where "u64_max = 18446744073709551615"
definition i64_max :: int where "i64_max = 9223372036854775807"
definition i64_min :: int where "i64_min = -9223372036854775808"

definition sat_i64 :: "int \<Rightarrow> int" where
  "sat_i64 x = max i64_min (min i64_max x)"

lemmas int_limits = u32_max_def u64_max_def i64_max_def i64_min_def

lemma sat_i64_range: "i64_min \<le> sat_i64 x \<and> sat_i64 x \<le> i64_max"
  by (auto simp: sat_i64_def int_limits)

lemma sat_i64_id: "i64_min \<le> x \<Longrightarrow> x \<le> i64_max \<Longrightarrow> sat_i64 x = x"
  by (auto simp: sat_i64_def)

text \<open>\<open>str::parse\<close> for unsigned integers: an optional plus sign, at least one digit, only
  digits, no overflow of the type's maximum.\<close>

definition digit_val :: "char \<Rightarrow> nat option" where
  "digit_val c =
     (if 48 \<le> (of_char c :: nat) \<and> (of_char c :: nat) \<le> 57 then Some (of_char c - 48) else None)"

fun digits_val :: "nat \<Rightarrow> string \<Rightarrow> nat option" where
  "digits_val acc [] = Some acc"
| "digits_val acc (c # cs) =
     (case digit_val c of None \<Rightarrow> None | Some d \<Rightarrow> digits_val (10 * acc + d) cs)"

definition parse_uint :: "nat \<Rightarrow> string \<Rightarrow> nat option" where
  "parse_uint limit s =
     (let ds = (case s of c # cs \<Rightarrow> if c = CHR ''+'' then cs else s | [] \<Rightarrow> s)
      in if ds = [] then None
         else case digits_val 0 ds of
                None \<Rightarrow> None
              | Some n \<Rightarrow> if n \<le> limit then Some n else None)"

definition parse_i64 :: "string \<Rightarrow> int option" where
  "parse_i64 s =
     (case s of
        [] \<Rightarrow> None
      | c # cs \<Rightarrow>
          if c = CHR ''-'' then
            (if cs = [] then None
             else case digits_val 0 cs of
                    None \<Rightarrow> None
                  | Some n \<Rightarrow> if i64_min \<le> - int n then Some (- int n) else None)
          else map_option int (parse_uint (nat i64_max) s))"

lemma parse_uint_le: "parse_uint limit s = Some n \<Longrightarrow> n \<le> limit"
  by (auto simp: parse_uint_def Let_def split: if_splits option.splits)

lemma digit_val_lt: "digit_val c = Some d \<Longrightarrow> d < 10"
  by (auto simp: digit_val_def split: if_splits)

lemma digits_val_bound: "digits_val acc s = Some n \<Longrightarrow> n < (acc + 1) * 10 ^ length s"
proof (induction acc s rule: digits_val.induct)
  case (1 acc)
  then show ?case by simp
next
  case (2 acc c cs)
  then obtain d where d: "digit_val c = Some d" and n: "digits_val (10 * acc + d) cs = Some n"
    by (auto split: option.splits)
  have "n < (10 * acc + d + 1) * 10 ^ length cs" using "2.IH" [OF d n] .
  also have "\<dots> \<le> (10 * acc + 10) * 10 ^ length cs"
    using digit_val_lt [OF d] by (intro mult_right_mono) auto
  finally show ?case by (simp add: algebra_simps)
qed

lemma parse_uint_bound:
  assumes "parse_uint limit s = Some n" shows "n < 10 ^ length s"
proof -
  obtain ds where ds: "digits_val 0 ds = Some n" "length ds \<le> length s"
    using assms by (auto simp: parse_uint_def Let_def split: if_splits option.splits list.splits)
  have "n < 10 ^ length ds" using digits_val_bound [OF ds(1)] by simp
  also have "(10::nat) ^ length ds \<le> 10 ^ length s" using ds(2) by simp
  finally show ?thesis .
qed

text \<open>\<open>std::env::var(key).ok()\<close>, and the same trimmed and without empty values.\<close>

definition env_ok_var :: "(string \<Rightarrow> env_var) \<Rightarrow> string \<Rightarrow> string option" where
  "env_ok_var env key = (case env key of Present v \<Rightarrow> Some v | _ \<Rightarrow> None)"

definition env_trimmed :: "(string \<Rightarrow> env_var) \<Rightarrow> string \<Rightarrow> string option" where
  "env_trimmed env key =
     (case env_ok_var env key of None \<Rightarrow> None | Some v \<Rightarrow> if trim v = [] then None else Some (trim v))"

lemma env_trimmed_nonempty: "env_trimmed env key = Some v \<Longrightarrow> v \<noteq> []"
  by (auto simp: env_trimmed_def split: option.splits if_splits)

definition env_u64_or :: "(string \<Rightarrow> env_var) \<Rightarrow> string \<Rightarrow> nat \<Rightarrow> string + nat" where
  "env_u64_or env key dflt =
     (case env_ok_var env key of
        Some v \<Rightarrow> ok_or (''invalid '' @ key) (parse_uint u64_max v)
      | None \<Rightarrow> Ok dflt)"

definition require_env :: "(string \<Rightarrow> env_var) \<Rightarrow> string \<Rightarrow> string + string" where
  "require_env env key = (case env key of Present v \<Rightarrow> Ok v | _ \<Rightarrow> Err (''missing env var '' @ key))"

text \<open>The way the configurations read an optional unsigned number: a default when the variable is not set, an error when it is
  not Unicode or does not parse.\<close>

definition env_uint :: "(string \<Rightarrow> env_var) \<Rightarrow> string \<Rightarrow> nat \<Rightarrow> nat \<Rightarrow> string + nat" where
  "env_uint env key dflt limit =
     (case env key of
        NotPresent \<Rightarrow> Ok dflt
      | NotUnicode \<Rightarrow> Err (''reading '' @ key)
      | Present v \<Rightarrow> ok_or (''invalid '' @ key @ '': '' @ debug_str v) (parse_uint limit v))"

lemma env_uint_le: "env_uint env key d limit = Inr n \<Longrightarrow> d \<le> limit \<Longrightarrow> n \<le> limit"
  by (auto simp: env_uint_def split: env_var.splits dest: parse_uint_le)

text \<open>\<open>to_le_bytes\<close>, \<open>from_le_bytes\<close> and their big-endian counterparts, for integers of \<open>k\<close> bytes.\<close>

fun le_bytes :: "nat \<Rightarrow> nat \<Rightarrow> 8 word list" where
  "le_bytes 0 n = []"
| "le_bytes (Suc k) n = word_of_nat n # le_bytes k (n div 256)"

fun le_value :: "8 word list \<Rightarrow> nat" where
  "le_value [] = 0"
| "le_value (b # bs) = unat b + 256 * le_value bs"

definition be_bytes :: "nat \<Rightarrow> nat \<Rightarrow> 8 word list" where
  "be_bytes k n = rev (le_bytes k n)"

definition be_value :: "8 word list \<Rightarrow> nat" where
  "be_value bs = le_value (rev bs)"

lemma length_le_bytes [simp]: "length (le_bytes k n) = k"
  by (induction k arbitrary: n) auto

lemma length_be_bytes [simp]: "length (be_bytes k n) = k"
  by (simp add: be_bytes_def)

lemma le_value_bytes: "n < 256 ^ k \<Longrightarrow> le_value (le_bytes k n) = n"
proof (induction k arbitrary: n)
  case (Suc k)
  have "n div 256 < 256 ^ k" using Suc.prems by (simp add: less_mult_imp_div_less mult.commute)
  with Suc.IH have "le_value (le_bytes k (n div 256)) = n div 256" .
  then show ?case by (simp add: unat_of_nat)
qed simp

lemma le_bytes_value: "le_bytes (length bs) (le_value bs) = bs"
proof (induction bs)
  case (Cons b bs)
  have b: "unat b < 256" using unsigned_less [where w = b, where 'a = nat] by simp
  then have "(unat b + 256 * le_value bs) div 256 = le_value bs" by simp
  moreover have "256 * w = (0 :: 8 word)" for w :: "8 word"
  proof -
    have "(256 :: 8 word) = 0" by transfer simp
    then show ?thesis by (simp only: mult_zero_left)
  qed
  ultimately show ?case using Cons by simp
qed simp

lemma le_value_bound: "le_value bs < 256 ^ length bs"
proof (induction bs)
  case (Cons b bs)
  have "unat b < 256" using unsigned_less [where w = b, where 'a = nat] by simp
  with Cons have "unat b + 256 * le_value bs < 256 * (le_value bs + 1)" by simp
  also have "\<dots> \<le> 256 * 256 ^ length bs" using Cons by simp
  finally show ?case by simp
qed simp

lemma be_value_bytes: "n < 256 ^ k \<Longrightarrow> be_value (be_bytes k n) = n"
  by (simp add: be_value_def be_bytes_def le_value_bytes)

lemma be_bytes_value: "be_bytes (length bs) (be_value bs) = bs"
  using le_bytes_value [of "rev bs"] by (simp add: be_value_def be_bytes_def)

lemma be_bytes_inj: "m < 256 ^ k \<Longrightarrow> n < 256 ^ k \<Longrightarrow> be_bytes k m = be_bytes k n \<longleftrightarrow> m = n"
  by (metis be_value_bytes)

section \<open>Maps without some keys\<close>

definition without :: "'k set \<Rightarrow> ('k \<rightharpoonup> 'v) \<Rightarrow> ('k \<rightharpoonup> 'v)" where
  "without D m = (\<lambda>k. if k \<in> D then None else m k)"

lemma without_empty [simp]: "without {} m = m"
  by (simp add: without_def)

lemma without_without [simp]: "without A (without B m) = without (A \<union> B) m"
  by (auto simp: without_def)

lemma without_apply: "without D m k = (if k \<in> D then None else m k)"
  by (simp add: without_def)

lemma upd_None_without: "m(k := None) = without {k} m"
  by (auto simp: without_def)

lemma dom_without [simp]: "dom (without D m) = dom m - D"
  by (auto simp: without_def dom_def split: if_splits)

lemma without_map_add: "dom new = D \<Longrightarrow> D \<inter> dom m = {} \<Longrightarrow> without D (m ++ new) = m"
proof
  fix k
  assume "dom new = D" "D \<inter> dom m = {}"
  then show "without D (m ++ new) k = m k"
    by (cases "k \<in> D") (auto simp: without_apply map_add_dom_app_simps disjoint_iff domIff)
qed

lemma map_le_SomeD: "m \<subseteq>\<^sub>m m' \<Longrightarrow> m k = Some v \<Longrightarrow> m' k = Some v"
  by (metis domI map_le_def)

lemma map_le_add_disjoint: "dom m \<inter> dom new = {} \<Longrightarrow> m \<subseteq>\<^sub>m m ++ new"
  by (metis map_add_comm map_le_map_add)

end
