(* ===== verification/Entities.thy ===== *)
theory Entities
  imports Prelude
begin

text \<open>
  The entities of the domain crate (\<open>domain/src/entity/*.rs\<close>, \<open>domain/src/macros.rs\<close>): ids,
  bodies, envelopes, attachment references, error classes, senders with their quota windows, and
  lifecycle events with their public wire contract.

  A UUID is a 128-bit value that the code only compares, orders and prints; it is a natural number
  here.  Where the code generates one, the generated value is an argument of the model.  A parsed
  URL (crate \<open>url\<close>) is a record of the components the code reads.  Attachment bytes are bytes.
\<close>

section \<open>Ids\<close>

type_synonym uuid = nat

text \<open>\<open>Uuid::as_bytes\<close> and \<open>Uuid::from_slice\<close>.\<close>

definition uuid_bytes :: "uuid \<Rightarrow> 8 word list" where
  "uuid_bytes u = be_bytes 16 u"

definition uuid_from_slice :: "8 word list \<Rightarrow> uuid option" where
  "uuid_from_slice bs = (if length bs = 16 then Some (be_value bs) else None)"

definition uuid_ok :: "uuid \<Rightarrow> bool" where
  "uuid_ok u \<longleftrightarrow> u < 256 ^ 16"

lemma uuid_from_slice_bytes [simp]: "uuid_ok u \<Longrightarrow> uuid_from_slice (uuid_bytes u) = Some u"
  by (simp add: uuid_from_slice_def uuid_bytes_def uuid_ok_def be_value_bytes)

lemma uuid_bytes_inj: "uuid_ok u \<Longrightarrow> uuid_ok v \<Longrightarrow> uuid_bytes u = uuid_bytes v \<longleftrightarrow> u = v"
  by (simp add: uuid_bytes_def uuid_ok_def be_bytes_inj)

lemma uuid_from_slice_Some: "uuid_from_slice bs = Some u \<Longrightarrow> uuid_bytes u = bs"
  by (auto simp: uuid_from_slice_def uuid_bytes_def split: if_splits) (metis be_bytes_value)

datatype email_id = EmailId (as_uuid: uuid)

text \<open>\<open>#[derive(PartialOrd, Ord)]\<close> on the id newtype is the order of the wrapped UUID.\<close>

instantiation email_id :: linorder
begin
definition less_eq_email_id :: "email_id \<Rightarrow> email_id \<Rightarrow> bool" where
  "less_eq_email_id a b \<longleftrightarrow> as_uuid a \<le> as_uuid b"
definition less_email_id :: "email_id \<Rightarrow> email_id \<Rightarrow> bool" where
  "less_email_id a b \<longleftrightarrow> as_uuid a < as_uuid b"
instance
  by standard (auto simp: less_eq_email_id_def less_email_id_def intro: email_id.expand)
end

section \<open>Printed ids\<close>

definition hex_char :: "nat \<Rightarrow> char" where
  "hex_char d = ''0123456789abcdef'' ! d"

fun le_hex :: "nat \<Rightarrow> nat \<Rightarrow> string" where
  "le_hex 0 n = []"
| "le_hex (Suc k) n = hex_char (n mod 16) # le_hex k (n div 16)"

definition uuid_simple :: "uuid \<Rightarrow> string" where
  "uuid_simple u = rev (le_hex 32 u)"

lemma hex_char_inj: "a < 16 \<Longrightarrow> b < 16 \<Longrightarrow> hex_char a = hex_char b \<longleftrightarrow> a = b"
proof -
  have "distinct ''0123456789abcdef''" "length ''0123456789abcdef'' = 16" by simp_all
  then show "a < 16 \<Longrightarrow> b < 16 \<Longrightarrow> hex_char a = hex_char b \<longleftrightarrow> a = b"
    unfolding hex_char_def by (metis nth_eq_iff_index_eq)
qed

lemma hex_char_plain: "d < 16 \<Longrightarrow> hex_char d \<in> set ''0123456789abcdef''"
proof -
  have "length ''0123456789abcdef'' = 16" by simp
  then show "d < 16 \<Longrightarrow> hex_char d \<in> set ''0123456789abcdef''" unfolding hex_char_def by (metis nth_mem)
qed

lemma le_hex_inj: "m < 16 ^ k \<Longrightarrow> n < 16 ^ k \<Longrightarrow> le_hex k m = le_hex k n \<Longrightarrow> m = n"
proof (induction k arbitrary: m n)
  case (Suc k)
  have "m div 16 < 16 ^ k" "n div 16 < 16 ^ k" using Suc.prems(1,2) by (simp_all add: less_mult_imp_div_less mult.commute)
  moreover have "m mod 16 = n mod 16" using Suc.prems(3) hex_char_inj [of "m mod 16" "n mod 16"] by simp
  ultimately show ?case using Suc.IH [of "m div 16" "n div 16"] Suc.prems(3) by (metis div_mult_mod_eq le_hex.simps(2) list.inject)
qed simp

lemma uuid_simple_inj: "uuid_ok m \<Longrightarrow> uuid_ok n \<Longrightarrow> uuid_simple m = uuid_simple n \<longleftrightarrow> m = n"
proof -
  have "(256::nat) ^ 16 = 16 ^ 32" by simp
  then show "uuid_ok m \<Longrightarrow> uuid_ok n \<Longrightarrow> uuid_simple m = uuid_simple n \<longleftrightarrow> m = n"
    using le_hex_inj [of m 32 n] by (auto simp: uuid_ok_def uuid_simple_def)
qed

lemma set_le_hex: "set (le_hex k n) \<subseteq> set ''0123456789abcdef''"
proof -
  define S where "S = set ''0123456789abcdef''"
  have "hex_char (m mod 16) \<in> S" for m unfolding S_def by (rule hex_char_plain) simp
  then have "set (le_hex k n) \<subseteq> S" by (induction k arbitrary: n) auto
  then show ?thesis by (simp only: S_def)
qed

lemma length_le_hex [simp]: "length (le_hex k n) = k"
  by (induction k arbitrary: n) auto

text \<open>\<open>Uuid::to_string\<close>: the hyphenated form.\<close>

definition uuid_hyphenated :: "uuid \<Rightarrow> string" where
  "uuid_hyphenated u =
     (let s = uuid_simple u in
      take 8 s @ ''-'' @ take 4 (drop 8 s) @ ''-'' @ take 4 (drop 12 s) @ ''-'' @ take 4 (drop 16 s) @ ''-'' @ drop 20 s)"

lemma uuid_hyphenated_inj: "uuid_ok u \<Longrightarrow> uuid_ok v \<Longrightarrow> uuid_hyphenated u = uuid_hyphenated v \<longleftrightarrow> u = v"
proof -
  have len: "length (uuid_simple u) = 32" for u by (simp add: uuid_simple_def)
  have cut: "take 8 t @ take 4 (drop 8 t) @ take 4 (drop 12 t) @ take 4 (drop 16 t) @ drop 20 t = t" for t :: string
    by (simp add: append_assoc [symmetric] take_add [symmetric] del: append_assoc)
  have "uuid_simple u = uuid_simple v" if "uuid_hyphenated u = uuid_hyphenated v"
    using that len by (subst (1 2) cut [symmetric]) (simp add: uuid_hyphenated_def Let_def)
  then show "uuid_ok u \<Longrightarrow> uuid_ok v \<Longrightarrow> uuid_hyphenated u = uuid_hyphenated v \<longleftrightarrow> u = v"
    using uuid_simple_inj by blast
qed

section \<open>JSON values, byte streams\<close>

text \<open>Numbers are integers: a number with a fraction is not represented, since \<open>serde_json\<close> as configured here does not promise
  to read such a number back exactly.\<close>

datatype json =
    JNull
  | JBool bool
  | JNum int
  | JStr string
  | JArr "json list"
  | JObj "(string \<times> json) list"

definition json_opt_str :: "string option \<Rightarrow> json" where
  "json_opt_str x = (case x of None \<Rightarrow> JNull | Some s \<Rightarrow> JStr s)"

definition json_field :: "string \<Rightarrow> json \<Rightarrow> json option" where
  "json_field k j = (case j of JObj kvs \<Rightarrow> map_of kvs k | _ \<Rightarrow> None)"

type_synonym variables = "(string \<times> json) list"

type_synonym byte = "8 word"

record url =
  url_str :: string
  url_scheme :: string
  url_host :: "string option"

section \<open>Recipients, attachments, bodies\<close>

datatype recipient_kind = To | Cc | Bcc

record blob_ref =
  blob_backend :: string
  blob_key :: string

record attachment_ref =
  ar_filename :: string
  ar_content_type :: string
  ar_size_bytes :: nat
  ar_blob :: blob_ref

record resolved_attachment =
  ra_filename :: string
  ra_content_type :: string
  ra_bytes :: "byte list"

record plain =
  plain_text :: "string option"
  plain_html :: "string option"

datatype invalid_plain_body = EmptyPlain

definition plain_try_new :: "string option \<Rightarrow> string option \<Rightarrow> invalid_plain_body + plain" where
  "plain_try_new t h =
     (if t = None \<and> h = None then Err EmptyPlain else Ok \<lparr>plain_text = t, plain_html = h\<rparr>)"

definition plain_into_parts :: "plain \<Rightarrow> string option \<times> string option" where
  "plain_into_parts p = (plain_text p, plain_html p)"

text \<open>The invariant of the private struct \<open>Plain\<close>, whose only constructor is \<open>try_new\<close>.\<close>

definition plain_ok :: "plain \<Rightarrow> bool" where
  "plain_ok p \<longleftrightarrow> \<not> (plain_text p = None \<and> plain_html p = None)"

lemma plain_try_new_Ok:
  "plain_try_new t h = Inr p \<longleftrightarrow> plain_text p = t \<and> plain_html p = h \<and> plain_ok p"
  by (cases p) (auto simp: plain_try_new_def plain_ok_def)

datatype mjml_source = MjmlInline string | MjmlNamed string | MjmlRemote url

datatype body_source = BodyPlain plain | BodyMjml mjml_source
datatype resolved_body = ResolvedPlain plain | ResolvedMjml string
datatype interpolated_body = InterpolatedPlain plain | InterpolatedMjml string
datatype rendered_body = RenderedBody (into_plain: plain)

definition rendered_text :: "rendered_body \<Rightarrow> string option" where
  "rendered_text b = plain_text (into_plain b)"

definition rendered_html :: "rendered_body \<Rightarrow> string option" where
  "rendered_html b = plain_html (into_plain b)"

fun body_ok :: "body_source \<Rightarrow> bool" where
  "body_ok (BodyPlain p) = plain_ok p"
| "body_ok (BodyMjml m) = True"

record envelope =
  env_idempotency_key :: "string option"
  env_correlation_id :: "string option"
  env_subject :: "string option"
  env_sender :: string
  env_recipients :: "(recipient_kind \<times> string) list"
  env_body :: body_source
  env_variables :: variables
  env_attachments :: "attachment_ref list"

section \<open>Error classes\<close>

datatype error_class =
  TemplateResolve | TemplateInterpolate | TemplateRender | AttachmentClass | Delivery | Routing

fun error_class_as_str :: "error_class \<Rightarrow> string" where
  "error_class_as_str TemplateResolve = ''template_resolve''"
| "error_class_as_str TemplateInterpolate = ''template_interpolate''"
| "error_class_as_str TemplateRender = ''template_render''"
| "error_class_as_str AttachmentClass = ''attachment''"
| "error_class_as_str Delivery = ''delivery''"
| "error_class_as_str Routing = ''routing''"

datatype unknown_error_class = UnknownErrorClass string

definition error_class_from_str :: "string \<Rightarrow> unknown_error_class + error_class" where
  "error_class_from_str s =
     (if s = ''template_resolve'' then Ok TemplateResolve
      else if s = ''template_interpolate'' then Ok TemplateInterpolate
      else if s = ''template_render'' then Ok TemplateRender
      else if s = ''attachment'' then Ok AttachmentClass
      else if s = ''delivery'' then Ok Delivery
      else if s = ''routing'' then Ok Routing
      else Err (UnknownErrorClass s))"

lemma error_class_from_str_Ok: "error_class_from_str s = Inr c \<longleftrightarrow> s = error_class_as_str c"
  by (cases c) (auto simp: error_class_from_str_def)

lemma error_class_as_str_inj: "error_class_as_str a = error_class_as_str b \<Longrightarrow> a = b"
  by (cases a; cases b) auto

section \<open>Senders and quota windows\<close>

datatype sender_name = SenderName (sender_str: string)

datatype quota_range = Hourly | Daily | Weekly | Monthly

fun quota_range_display :: "quota_range \<Rightarrow> string" where
  "quota_range_display Hourly = ''hourly''"
| "quota_range_display Daily = ''daily''"
| "quota_range_display Weekly = ''weekly''"
| "quota_range_display Monthly = ''monthly''"

fun range_offset_ms :: "quota_range \<Rightarrow> int" where
  "range_offset_ms Hourly = 3600000"
| "range_offset_ms Daily = 86400000"
| "range_offset_ms Weekly = 604800000"
| "range_offset_ms Monthly = 2592000000"

definition since_ms :: "quota_range \<Rightarrow> int \<Rightarrow> int" where
  "since_ms r now_ms = max (sat_i64 (now_ms - range_offset_ms r)) 0"

record sender_quota =
  quota_count :: nat
  quota_window :: quota_range

record sender_config =
  sc_name :: sender_name
  sc_quota :: "sender_quota option"
  sc_match_sender_domain :: "string option"

lemma since_ms_nonneg [simp]: "0 \<le> since_ms r now"
  by (simp add: since_ms_def)

lemma since_ms_eq:
  assumes "i64_min + range_offset_ms r \<le> now" "now \<le> i64_max"
  shows "since_ms r now = max (now - range_offset_ms r) 0"
  using assms by (cases r) (auto simp: since_ms_def sat_i64_def int_limits)

lemma since_ms_mono: "a \<le> b \<Longrightarrow> since_ms r a \<le> since_ms r b"
  by (auto simp: since_ms_def sat_i64_def)

section \<open>Lifecycle events\<close>

datatype lifecycle_event =
    Queued email_id "string option"
  | Sending email_id nat "string option"
  | Sent email_id sender_name "string option"
  | Retrying email_id nat string error_class "sender_name option" "string option"
  | Failed email_id nat string error_class "sender_name option" "string option"

fun event_type :: "lifecycle_event \<Rightarrow> string" where
  "event_type (Queued i c) = ''queued''"
| "event_type (Sending i a c) = ''sending''"
| "event_type (Sent i s c) = ''delivery.succeeded''"
| "event_type (Retrying i a r e s c) = ''retrying''"
| "event_type (Failed i a r e s c) = ''delivery.failed''"

fun event_email_id :: "lifecycle_event \<Rightarrow> email_id" where
  "event_email_id (Queued i c) = i"
| "event_email_id (Sending i a c) = i"
| "event_email_id (Sent i s c) = i"
| "event_email_id (Retrying i a r e s c) = i"
| "event_email_id (Failed i a r e s c) = i"

fun event_sender_name :: "lifecycle_event \<Rightarrow> sender_name option" where
  "event_sender_name (Queued i c) = None"
| "event_sender_name (Sending i a c) = None"
| "event_sender_name (Sent i s c) = Some s"
| "event_sender_name (Retrying i a r e s c) = s"
| "event_sender_name (Failed i a r e s c) = s"

fun event_error_class :: "lifecycle_event \<Rightarrow> error_class option" where
  "event_error_class (Retrying i a r e s c) = Some e"
| "event_error_class (Failed i a r e s c) = Some e"
| "event_error_class _ = None"

definition failure_payload ::
    "nat \<Rightarrow> string \<Rightarrow> error_class \<Rightarrow> sender_name option \<Rightarrow> string option \<Rightarrow> json" where
  "failure_payload a r e s c =
     JObj [(''attempt'', JNum (int a)), (''reason'', JStr r),
           (''error_class'', JStr (error_class_as_str e)),
           (''sender_name'', json_opt_str (map_option sender_str s)),
           (''correlation_id'', json_opt_str c)]"

fun event_payload :: "lifecycle_event \<Rightarrow> json" where
  "event_payload (Queued i c) = JObj [(''correlation_id'', json_opt_str c)]"
| "event_payload (Sending i a c) =
     JObj [(''attempt'', JNum (int a)), (''correlation_id'', json_opt_str c)]"
| "event_payload (Sent i s c) =
     JObj [(''sender_name'', JStr (sender_str s)), (''correlation_id'', json_opt_str c)]"
| "event_payload (Retrying i a r e s c) = failure_payload a r e s c"
| "event_payload (Failed i a r e s c) = failure_payload a r e s c"

fun event_correlation_id :: "lifecycle_event \<Rightarrow> string option" where
  "event_correlation_id (Queued i c) = c"
| "event_correlation_id (Sending i a c) = c"
| "event_correlation_id (Sent i s c) = c"
| "event_correlation_id (Retrying i a r e s c) = c"
| "event_correlation_id (Failed i a r e s c) = c"

lemma json_opt_str_inj [simp]: "json_opt_str a = json_opt_str b \<longleftrightarrow> a = b"
  by (auto simp: json_opt_str_def split: option.splits)

text \<open>A subscriber can rebuild the event from what is pushed: the type, the id and the payload
  together determine it.\<close>

lemma event_wire_inj:
  assumes "event_type a = event_type b" "event_email_id a = event_email_id b"
    "event_payload a = event_payload b"
  shows "a = b"
proof -
  have inj: "map_option sender_str s = map_option sender_str t \<longleftrightarrow> s = t" for s t
    by (cases s; cases t) (auto intro: sender_name.expand)
  show ?thesis
    using assms
    by (cases a; cases b)
      (auto simp: failure_payload_def inj error_class_as_str_inj intro: sender_name.expand)
qed

end
