(* ===== verification/Ports.thy ===== *)
theory Ports
  imports Entities
begin

text \<open>
  The vocabulary of the domain's ports (\<open>domain/src/port/*.rs\<close>): the error enums, the parameter and
  result structs, and the two pure methods of \<open>SendError\<close>.  An \<open>anyhow::Error\<close> is the message of
  its outermost context.  An \<open>AttachmentReader\<close> (a boxed \<open>AsyncRead\<close>) is the bytes it yields and
  the I/O error, if any, with which it ends; \<open>read_to_end\<close> of Rust's standard traits drains it.

  A port method is a function of an explicit world: it takes the world and returns the result and
  the new world.  Which world it is depends on the adapter (see the adapter theories and the root).
\<close>

type_synonym anyhow = string

datatype reader = Reader (reader_bytes: "byte list") (reader_error: "anyhow option")

definition read_to_end :: "reader \<Rightarrow> anyhow + byte list" where
  "read_to_end r = (case reader_error r of None \<Rightarrow> Ok (reader_bytes r) | Some e \<Rightarrow> Err e)"

definition cursor :: "byte list \<Rightarrow> reader" where
  "cursor bs = Reader bs None"

lemma read_to_end_cursor [simp]: "read_to_end (cursor bs) = Inr bs"
  by (simp add: read_to_end_def cursor_def)

section \<open>Errors\<close>

datatype attachment_fetch_error =
    SchemeNotAllowed string
  | FetchDomainNotAllowed string
  | TooLarge
  | FetchFailed anyhow

datatype attachment_store_error = StoreIo anyhow | StoreNotFound

datatype email_queue_error = QueueStorage anyhow
datatype email_repository_error = RepoStorage anyhow
datatype event_publisher_error = PublishError anyhow
datatype event_repository_error = EventStorage anyhow
datatype sender_usage_error = UsageStorage anyhow
datatype health_check_error = Unavailable anyhow

datatype resolve_error =
    TemplateNotFound string
  | TemplateDomainNotAllowed string
  | TemplateFetch string anyhow

datatype interpolate_error = InterpolateEngine anyhow
datatype render_error = RenderMjml anyhow

datatype send_error = SendFailed sender_name anyhow | NoMatchingRoute string

fun send_error_sender_name :: "send_error \<Rightarrow> sender_name option" where
  "send_error_sender_name (SendFailed n e) = Some n"
| "send_error_sender_name (NoMatchingRoute d) = None"

fun send_error_is_transient :: "send_error \<Rightarrow> bool" where
  "send_error_is_transient (SendFailed n e) = True"
| "send_error_is_transient (NoMatchingRoute d) = False"

section \<open>Parameters and results\<close>

record put_result =
  pr_blob :: blob_ref
  pr_size_bytes :: nat

datatype save_result = Created email_id | Duplicate email_id

datatype email_status = StatusQueued | StatusSent | StatusFailed

record list_emails_params =
  le_status :: "email_status option"
  le_after_ms :: "int option"
  le_before_ms :: "int option"
  le_recipient :: "string option"
  le_template :: "string option"
  le_id :: "email_id option"
  le_limit :: nat
  le_offset :: nat

record email_record =
  rec_id :: email_id
  rec_idempotency_key :: "string option"
  rec_subject :: "string option"
  rec_sender :: string
  rec_recipients :: "(recipient_kind \<times> string) list"
  rec_created_at_ms :: int
  rec_status :: email_status

record list_events_params =
  lv_email_id :: "email_id option"
  lv_event_type :: "string option"
  lv_sender_name :: "string option"
  lv_error_class :: "error_class option"
  lv_after_ms :: "int option"
  lv_before_ms :: "int option"
  lv_limit :: nat
  lv_offset :: nat

record event_record =
  evr_id :: uuid
  evr_email_id :: email_id
  evr_event_type :: string
  evr_payload :: "json option"
  evr_sender_name :: "sender_name option"
  evr_error_class :: "string option"
  evr_created_at_ms :: int

record sender_stats =
  ss_name :: sender_name
  ss_sent_in_range :: nat
  ss_failed_in_range :: nat

record outbound_email =
  oe_sender :: string
  oe_subject :: "string option"
  oe_recipients :: "(recipient_kind \<times> string) list"
  oe_body :: rendered_body
  oe_attachments :: "resolved_attachment list"

section \<open>Queue items\<close>

datatype ack_token = AckToken (token_bytes: "byte list")

definition ack_token_new :: "byte list \<Rightarrow> ack_token" where
  "ack_token_new bs = AckToken bs"

definition ack_token_into_bytes :: "ack_token \<Rightarrow> byte list" where
  "ack_token_into_bytes t = token_bytes t"

datatype trace_carrier = TraceCarrier (as_pairs: "(string \<times> string) list")

definition trace_carrier_new :: "(string \<times> string) list \<Rightarrow> trace_carrier" where
  "trace_carrier_new ps = TraceCarrier ps"

definition trace_carrier_default :: trace_carrier where
  "trace_carrier_default = TraceCarrier []"

record dequeued_email =
  dq_id :: email_id
  dq_envelope :: envelope
  dq_attempt :: nat
  dq_token :: ack_token
  dq_trace :: trace_carrier

end
