(* ===== verification/RoutedSender.thy ===== *)
theory RoutedSender
  imports Ports
begin

text \<open>
  The routing service (\<open>domain/src/service/routed_email_sender.rs\<close>): construction of the route
  table, choice of the candidate routes, quota bookkeeping over the usage port, and the two delivery
  passes.  The usage port and the transports act on an explicit world \<open>'w\<close>.  The iteration order of
  the \<open>HashMap\<close> of quota windows is the argument \<open>order\<close>.

  The lemmas show which transports are tried, in which order, what is returned, that the
  \<open>unreachable!\<close> is not reached, and how quotas act under the laws of the usage port (locale
  \<open>sender_usage\<close>, interpreted here on \<open>NoopSenderUsage\<close> and on the SQL adapters in their theories).
\<close>

section \<open>Route table\<close>

definition normalize_domain :: "string \<Rightarrow> string" where
  "normalize_domain s = to_ascii_lowercase (trim_end_matches CHR ''.'' s)"

record 't sender_route =
  rt_name :: sender_name
  rt_priority :: nat
  rt_quota :: "sender_quota option"
  rt_match_sender_domain :: "string option"
  rt_transport :: 't

datatype routed_email_sender_error = EmptyRoutes

definition normalize_route :: "'t sender_route \<Rightarrow> 't sender_route" where
  "normalize_route r = r\<lparr>rt_match_sender_domain := map_option normalize_domain (rt_match_sender_domain r)\<rparr>"

definition routed_new :: "'t sender_route list \<Rightarrow> routed_email_sender_error + 't sender_route list" where
  "routed_new routes =
     (if routes = [] then Err EmptyRoutes
      else Ok (sort_key rt_priority (map normalize_route routes)))"

definition noop_get_stats ::
    "sender_name list \<Rightarrow> int \<Rightarrow> 'w \<Rightarrow> (sender_usage_error + sender_stats list) \<times> 'w" where
  "noop_get_stats names since w =
     (Ok (map (\<lambda>n. \<lparr>ss_name = n, ss_sent_in_range = 0, ss_failed_in_range = 0\<rparr>) names), w)"

section \<open>Sending\<close>

definition sender_domain :: "string \<Rightarrow> string" where
  "sender_domain sender =
     (case rsplit_once CHR ''@'' sender of None \<Rightarrow> [] | Some (_, d) \<Rightarrow> normalize_domain d)"

definition candidates :: "'t sender_route list \<Rightarrow> string \<Rightarrow> 't sender_route list" where
  "candidates routes d =
     filter (\<lambda>r. rt_match_sender_domain r = Some d) routes @
     filter (\<lambda>r. rt_match_sender_domain r = None) routes"

text \<open>\<open>entry(since_ms).or_default().push(name)\<close> on an association list in insertion order.\<close>

fun push_group :: "int \<Rightarrow> sender_name \<Rightarrow> (int \<times> sender_name list) list \<Rightarrow> (int \<times> sender_name list) list" where
  "push_group k n [] = [(k, [n])]"
| "push_group k n ((k', ns) # gs) = (if k' = k then (k', ns @ [n]) # gs else (k', ns) # push_group k n gs)"

fun quota_groups ::
    "int \<Rightarrow> 't sender_route list \<Rightarrow> (int \<times> sender_name list) list \<Rightarrow> (int \<times> sender_name list) list" where
  "quota_groups now [] gs = gs"
| "quota_groups now (r # rs) gs =
     quota_groups now rs
       (case rt_quota r of
          None \<Rightarrow> gs
        | Some q \<Rightarrow> push_group (since_ms (quota_window q) now) (rt_name r) gs)"

fun insert_stats :: "sender_stats list \<Rightarrow> (sender_name \<rightharpoonup> nat) \<Rightarrow> (sender_name \<rightharpoonup> nat)" where
  "insert_stats [] m = m"
| "insert_stats (s # ss) m = insert_stats ss (m(ss_name s \<mapsto> ss_sent_in_range s))"

fun load_usage ::
    "(sender_name list \<Rightarrow> int \<Rightarrow> 'w \<Rightarrow> (sender_usage_error + sender_stats list) \<times> 'w) \<Rightarrow>
     (int \<times> sender_name list) list \<Rightarrow> (sender_name \<rightharpoonup> nat) \<Rightarrow> 'w \<Rightarrow> (sender_name \<rightharpoonup> nat) \<times> 'w" where
  "load_usage gstats [] m w = (m, w)"
| "load_usage gstats ((since, names) # gs) m w =
     (case gstats names since w of
        (Inr stats, w') \<Rightarrow> load_usage gstats gs (insert_stats stats m) w'
      | (Inl e, w') \<Rightarrow> load_usage gstats gs m w')"

definition over_quota :: "(sender_name \<rightharpoonup> nat) \<Rightarrow> 't sender_route \<Rightarrow> bool" where
  "over_quota m r =
     (case rt_quota r of
        None \<Rightarrow> False
      | Some q \<Rightarrow> quota_count q \<le> (case m (rt_name r) of None \<Rightarrow> 0 | Some n \<Rightarrow> n))"

datatype pass_result = Delivered sender_name | NotDelivered "send_error option"

fun delivery_pass ::
    "('t \<Rightarrow> outbound_email \<Rightarrow> 'w \<Rightarrow> (anyhow + unit) \<times> 'w) \<Rightarrow> ('t sender_route \<Rightarrow> bool) \<Rightarrow> outbound_email \<Rightarrow>
     't sender_route list \<Rightarrow> send_error option \<Rightarrow> 'w \<Rightarrow> pass_result \<times> 'w" where
  "delivery_pass deliver skip email [] last_err w = (NotDelivered last_err, w)"
| "delivery_pass deliver skip email (r # rs) last_err w =
     (if skip r then delivery_pass deliver skip email rs last_err w
      else case deliver (rt_transport r) email w of
             (Inr _, w') \<Rightarrow> (Delivered (rt_name r), w')
           | (Inl e, w') \<Rightarrow> delivery_pass deliver skip email rs (Some (SendFailed (rt_name r) e)) w')"

definition second_pass ::
    "('t \<Rightarrow> outbound_email \<Rightarrow> 'w \<Rightarrow> (anyhow + unit) \<times> 'w) \<Rightarrow> outbound_email \<Rightarrow>
     't sender_route list \<Rightarrow> send_error option \<Rightarrow> 'w \<Rightarrow> pass_result \<times> 'w" where
  "second_pass deliver email rs last_err w = delivery_pass deliver (\<lambda>_. False) email rs last_err w"

text \<open>\<open>None\<close> is the panic of the \<open>unreachable!\<close> at the end of \<open>send\<close>.\<close>

definition routed_send ::
    "'t sender_route list \<Rightarrow>
     (sender_name list \<Rightarrow> int \<Rightarrow> 'w \<Rightarrow> (sender_usage_error + sender_stats list) \<times> 'w) \<Rightarrow>
     ((int \<times> sender_name list) list \<Rightarrow> (int \<times> sender_name list) list) \<Rightarrow>
     ('t \<Rightarrow> outbound_email \<Rightarrow> 'w \<Rightarrow> (anyhow + unit) \<times> 'w) \<Rightarrow>
     int \<Rightarrow> outbound_email \<Rightarrow> 'w \<Rightarrow> (send_error + sender_name) option \<times> 'w" where
  "routed_send routes gstats order deliver now email w =
     (let d = sender_domain (oe_sender email); cs = candidates routes d in
      if cs = [] then (Some (Err (NoMatchingRoute d)), w)
      else
        let (sent, w1) = load_usage gstats (order (quota_groups now cs [])) Map.empty w in
        case delivery_pass deliver (over_quota sent) email cs None w1 of
          (Delivered n, w2) \<Rightarrow> (Some (Ok n), w2)
        | (NotDelivered (Some e), w2) \<Rightarrow> (Some (Err e), w2)
        | (NotDelivered None, w2) \<Rightarrow>
            (case second_pass deliver email cs None w2 of
               (Delivered n, w3) \<Rightarrow> (Some (Ok n), w3)
             | (NotDelivered (Some e), w3) \<Rightarrow> (Some (Err e), w3)
             | (NotDelivered None, w3) \<Rightarrow> (None, w3)))"

section \<open>Facts on the passes\<close>

lemma normalize_domain_lower: "to_ascii_lowercase (normalize_domain s) = normalize_domain s"
  by (simp add: normalize_domain_def)

lemma candidates_set:
  "r \<in> set (candidates routes d) \<longleftrightarrow>
     r \<in> set routes \<and> (rt_match_sender_domain r = Some d \<or> rt_match_sender_domain r = None)"
  by (auto simp: candidates_def)

lemma delivery_pass_last_err:
  "delivery_pass deliver skip email rs (Some e) w \<noteq> (NotDelivered None, w')"
  by (induction rs arbitrary: e w)
    (auto split: sum.splits prod.splits)

text \<open>A pass ends empty-handed, without an error, exactly when it skipped every route.\<close>

lemma delivery_pass_None:
  "delivery_pass deliver skip email rs None w = (NotDelivered None, w') \<longleftrightarrow>
     (\<forall>r\<in>set rs. skip r) \<and> w' = w"
proof (induction rs arbitrary: w)
  case Nil
  then show ?case by auto
next
  case (Cons r rs)
  then show ?case
    by (auto split: sum.splits prod.splits simp: delivery_pass_last_err)
qed

lemma delivery_pass_Delivered:
  "delivery_pass deliver skip email rs le w = (Delivered n, w') \<Longrightarrow>
     \<exists>r\<in>set rs. rt_name r = n \<and> \<not> skip r"
  by (induction rs arbitrary: le w) (auto split: sum.splits prod.splits if_splits)

lemma delivery_pass_error:
  "delivery_pass deliver skip email rs None w = (NotDelivered (Some e), w') \<Longrightarrow>
     \<exists>r\<in>set rs. \<exists>a. e = SendFailed (rt_name r) a \<and> \<not> skip r"
proof -
  have "delivery_pass deliver skip email rs le w = (NotDelivered (Some e), w') \<Longrightarrow>
      le = Some e \<or> (\<exists>r\<in>set rs. \<exists>a. e = SendFailed (rt_name r) a \<and> \<not> skip r)" for le
    by (induction rs arbitrary: le w) (fastforce split: sum.splits prod.splits if_splits)+
  from this [of None] show "delivery_pass deliver skip email rs None w = (NotDelivered (Some e), w') \<Longrightarrow>
     \<exists>r\<in>set rs. \<exists>a. e = SendFailed (rt_name r) a \<and> \<not> skip r" by simp
qed

text \<open>The case split of \<open>send\<close> on the results of the two passes, as one rule.\<close>

lemma routed_send_cases:
  assumes "routed_send routes gstats order deliver now email w = (res, w')"
  obtains (no_route) "candidates routes (sender_domain (oe_sender email)) = []"
      "res = Some (Err (NoMatchingRoute (sender_domain (oe_sender email))))" "w' = w"
    | (first) sent w1 p where
      "candidates routes (sender_domain (oe_sender email)) \<noteq> []"
      "load_usage gstats (order (quota_groups now (candidates routes (sender_domain (oe_sender email))) [])) Map.empty w
         = (sent, w1)"
      "delivery_pass deliver (over_quota sent) email (candidates routes (sender_domain (oe_sender email))) None w1
         = (p, w')"
      "(\<exists>n. p = Delivered n \<and> res = Some (Ok n)) \<or> (\<exists>e. p = NotDelivered (Some e) \<and> res = Some (Err e))"
    | (second) sent w1 p where
      "candidates routes (sender_domain (oe_sender email)) \<noteq> []"
      "load_usage gstats (order (quota_groups now (candidates routes (sender_domain (oe_sender email))) [])) Map.empty w
         = (sent, w1)"
      "\<forall>r\<in>set (candidates routes (sender_domain (oe_sender email))). over_quota sent r"
      "delivery_pass deliver (\<lambda>_. False) email (candidates routes (sender_domain (oe_sender email))) None w1
         = (p, w')"
      "(\<exists>n. p = Delivered n \<and> res = Some (Ok n)) \<or> (\<exists>e. p = NotDelivered (Some e) \<and> res = Some (Err e))"
proof (cases "candidates routes (sender_domain (oe_sender email)) = []")
  case True
  with assms no_route show ?thesis by (simp add: routed_send_def Let_def)
next
  case False
  let ?cs = "candidates routes (sender_domain (oe_sender email))"
  obtain sent w1 where l: "load_usage gstats (order (quota_groups now ?cs [])) Map.empty w = (sent, w1)"
    by fastforce
  obtain p w2 where p: "delivery_pass deliver (over_quota sent) email ?cs None w1 = (p, w2)"
    by fastforce
  show ?thesis
  proof (cases "p = NotDelivered None")
    case True
    with p have sk: "\<forall>r\<in>set ?cs. over_quota sent r" and w2: "w2 = w1"
      by (simp_all add: delivery_pass_None)
    obtain q w3 where q: "delivery_pass deliver (\<lambda>_. False) email ?cs None w1 = (q, w3)" by fastforce
    then have "q \<noteq> NotDelivered None" using False by (auto simp: delivery_pass_None)
    with assms False l p q True w2 sk second show ?thesis
      by (auto simp: routed_send_def Let_def second_pass_def split: pass_result.splits option.splits)
  next
    case F: False
    with assms False l p first show ?thesis
      by (auto simp: routed_send_def Let_def split: pass_result.splits option.splits)
  qed
qed

section \<open>Construction\<close>

lemma routed_new_sorted:
  "routed_new rs = Inr routes \<Longrightarrow> sorted (map rt_priority routes) \<and> mset routes = mset (map normalize_route rs)"
  by (auto simp: routed_new_def split: if_splits)

lemma routed_new_normalized:
  "routed_new rs = Inr routes \<Longrightarrow> r \<in> set routes \<Longrightarrow> rt_match_sender_domain r = Some d \<Longrightarrow>
     \<exists>d'. d = normalize_domain d'"
  by (fastforce simp: routed_new_def normalize_route_def split: if_splits)

text \<open>Stability: routes of equal priority keep their configured order.\<close>

lemma routed_new_stable:
  "routed_new rs = Inr routes \<Longrightarrow>
     filter (\<lambda>r. rt_priority r = p) routes = filter (\<lambda>r. rt_priority r = p) (map normalize_route rs)"
  by (auto simp: routed_new_def sort_key_stable split: if_splits)

section \<open>Laws of the usage port\<close>

locale sender_usage =
  fixes gstats :: "sender_name list \<Rightarrow> int \<Rightarrow> 'w \<Rightarrow> (sender_usage_error + sender_stats list) \<times> 'w"
  assumes stats_names: "gstats names since w = (Inr stats, w') \<Longrightarrow> map ss_name stats = names"
begin

lemma insert_stats_dom:
  "gstats names since w = (Inr stats, w') \<Longrightarrow> dom (insert_stats stats m) = dom m \<union> set names"
proof -
  have "dom (insert_stats ss m) = dom m \<union> set (map ss_name ss)" for ss
    by (induction ss arbitrary: m) auto
  then show "gstats names since w = (Inr stats, w') \<Longrightarrow> dom (insert_stats stats m) = dom m \<union> set names"
    using stats_names by blast
qed

text \<open>Usage is only ever recorded for the senders that were asked about.\<close>

lemma load_usage_dom:
  "load_usage gstats gs m w = (m', w') \<Longrightarrow> dom m' \<subseteq> dom m \<union> (\<Union>(k, ns)\<in>set gs. set ns)"
proof (induction gs arbitrary: m w)
  case Nil
  then show ?case by simp
next
  case (Cons g gs)
  obtain k ns where g: "g = (k, ns)" by fastforce
  obtain r w1 where r: "gstats ns k w = (r, w1)" by fastforce
  show ?case
  proof (cases r)
    case (Inl e)
    with Cons g r show ?thesis by fastforce
  next
    case (Inr stats)
    with Cons.prems g r have "load_usage gstats gs (insert_stats stats m) w1 = (m', w')" by simp
    from Cons.IH [OF this] insert_stats_dom [OF r [unfolded Inr]] g show ?thesis by auto
  qed
qed

end

interpretation noop_usage: sender_usage noop_get_stats
  by unfold_locales (auto simp: noop_get_stats_def comp_def)

section \<open>Reference behaviour\<close>

text \<open>
  The order in which transports are tried and the result, for usage counts and transports that do
  not depend on the world: the eligible candidates, or all of them when none is eligible, up to
  the first that delivers.
\<close>

definition fails :: "('t \<Rightarrow> anyhow + unit) \<Rightarrow> 't sender_route \<Rightarrow> bool" where
  "fails out r \<longleftrightarrow> \<not> is_ok (out (rt_transport r))"

definition to_try :: "(sender_name \<rightharpoonup> nat) \<Rightarrow> 't sender_route list \<Rightarrow> 't sender_route list" where
  "to_try m cs =
     (let el = filter (\<lambda>r. \<not> over_quota m r) cs in if el = [] then cs else el)"

definition attempts :: "('t \<Rightarrow> anyhow + unit) \<Rightarrow> 't sender_route list \<Rightarrow> 't sender_route list" where
  "attempts out rs = takeWhile (fails out) rs @ take 1 (dropWhile (fails out) rs)"

definition send_outcome :: "('t \<Rightarrow> anyhow + unit) \<Rightarrow> 't sender_route list \<Rightarrow> send_error + sender_name" where
  "send_outcome out rs =
     (let r = last (attempts out rs) in
      case out (rt_transport r) of
        Inr _ \<Rightarrow> Ok (rt_name r)
      | Inl e \<Rightarrow> Err (SendFailed (rt_name r) e))"

definition spy_deliver :: "('t \<Rightarrow> anyhow + unit) \<Rightarrow> 't \<Rightarrow> outbound_email \<Rightarrow> 't list \<Rightarrow> (anyhow + unit) \<times> 't list" where
  "spy_deliver out t e log = (out t, log @ [t])"

definition pure_usage ::
    "(sender_name list \<Rightarrow> int \<Rightarrow> sender_usage_error + sender_stats list) \<Rightarrow>
     sender_name list \<Rightarrow> int \<Rightarrow> 'w \<Rightarrow> (sender_usage_error + sender_stats list) \<times> 'w" where
  "pure_usage u names since w = (u names since, w)"

definition usage_counts ::
    "(sender_name list \<Rightarrow> int \<Rightarrow> sender_usage_error + sender_stats list) \<Rightarrow>
     (int \<times> sender_name list) list \<Rightarrow> (sender_name \<rightharpoonup> nat)" where
  "usage_counts u gs = fst (load_usage (pure_usage u) gs Map.empty ())"

lemma load_usage_pure:
  "load_usage (pure_usage u) gs m w = (fst (load_usage (pure_usage u) gs m ()), w)"
  by (induction gs arbitrary: m) (auto simp: pure_usage_def split: sum.splits)

definition pass_of :: "send_error + sender_name \<Rightarrow> pass_result" where
  "pass_of x = (case x of Inr n \<Rightarrow> Delivered n | Inl e \<Rightarrow> NotDelivered (Some e))"

lemma attempts_Cons:
  "attempts out (r # rs) = (if fails out r then r # attempts out rs else [r])"
  by (simp add: attempts_def)

lemma attempts_not_Nil: "rs \<noteq> [] \<Longrightarrow> attempts out rs \<noteq> []"
  by (cases rs) (auto simp: attempts_Cons)

lemma delivery_pass_spy:
  "filter (\<lambda>r. \<not> skip r) rs \<noteq> [] \<Longrightarrow>
   delivery_pass (spy_deliver out) skip email rs le log =
     (pass_of (send_outcome out (filter (\<lambda>r. \<not> skip r) rs)),
      log @ map rt_transport (attempts out (filter (\<lambda>r. \<not> skip r) rs)))"
proof (induction rs arbitrary: le log)
  case Nil
  then show ?case by simp
next
  case (Cons r rs)
  let ?f = "filter (\<lambda>r. \<not> skip r)"
  show ?case
  proof (cases "skip r")
    case True
    with Cons show ?thesis by simp
  next
    case False
    show ?thesis
    proof (cases "out (rt_transport r)")
      case (Inr u)
      with False show ?thesis
        by (simp add: spy_deliver_def send_outcome_def attempts_Cons fails_def pass_of_def)
    next
      case (Inl e)
      have all_skipped: "delivery_pass d skip email rs le' w = (NotDelivered le', w)" if "?f rs = []" for d le' and w :: "'a list"
        using that by (induction rs) (auto split: if_splits)
      show ?thesis
      proof (cases "?f rs = []")
        case True
        with Inl False show ?thesis
          by (simp add: spy_deliver_def send_outcome_def attempts_def fails_def pass_of_def all_skipped)
      next
        case nonempty: False
        with Inl False Cons.IH [OF nonempty] show ?thesis
          by (simp add: spy_deliver_def send_outcome_def attempts_Cons attempts_not_Nil fails_def)
      qed
    qed
  qed
qed

section \<open>Properties\<close>

text \<open>C11: \<open>send\<close> behaves as its documentation says, for every table with a matching route: the
  candidates are the domain-matched routes and then the catch-alls; the ones within quota are tried in
  that order up to the first that delivers; when every candidate is over quota all of them are tried;
  the result is that sender, or the error of the last transport tried.  The log is the exact list
  of transports used.\<close>

theorem routed_send_reference:
  assumes "cs = candidates routes (sender_domain (oe_sender email))" "cs \<noteq> []"
    and "m = usage_counts u (order (quota_groups now cs []))"
  shows "routed_send routes (pure_usage u) order (spy_deliver out) now email [] =
    (Some (send_outcome out (to_try m cs)), map rt_transport (attempts out (to_try m cs)))"
proof -
  have l: "load_usage (pure_usage u) (order (quota_groups now cs [])) Map.empty ([] :: 'a list) = (m, [])"
    using load_usage_pure [of u _ _ "[] :: 'a list"] assms(3) by (simp add: usage_counts_def)
  show ?thesis
  proof (cases "filter (\<lambda>r. \<not> over_quota m r) cs = []")
    case False
    with assms(1,2) l delivery_pass_spy [OF False, of out email None "[]"] show ?thesis
      by (auto simp: routed_send_def Let_def to_try_def pass_of_def split: sum.splits)
  next
    case True
    then have all: "\<forall>r\<in>set cs. over_quota m r" by (auto simp: filter_empty_conv)
    then have p1: "delivery_pass (spy_deliver out) (over_quota m) email cs None [] = (NotDelivered None, [])"
      by (simp add: delivery_pass_None)
    have "filter (\<lambda>r. \<not> False) cs \<noteq> []" using assms(2) by simp
    from delivery_pass_spy [OF this, of out email None "[]"] assms(1,2) l p1 True show ?thesis
      by (auto simp: routed_send_def Let_def to_try_def pass_of_def second_pass_def split: sum.splits)
  qed
qed

theorem routed_send_reference_witness:
  "routed_send
     [\<lparr>rt_name = SenderName ''a'', rt_priority = 0, rt_quota = Some \<lparr>quota_count = 1, quota_window = Daily\<rparr>,
       rt_match_sender_domain = None, rt_transport = (0::nat)\<rparr>,
      \<lparr>rt_name = SenderName ''b'', rt_priority = 1, rt_quota = None,
       rt_match_sender_domain = None, rt_transport = 1\<rparr>]
     (pure_usage (\<lambda>ns s. Ok (map (\<lambda>n. \<lparr>ss_name = n, ss_sent_in_range = 1, ss_failed_in_range = 0\<rparr>) ns)))
     id (spy_deliver (\<lambda>t. Ok ())) 0
     \<lparr>oe_sender = ''x@y'', oe_subject = None, oe_recipients = [],
      oe_body = RenderedBody \<lparr>plain_text = Some [], plain_html = None\<rparr>, oe_attachments = []\<rparr> []
   = (Some (Ok (SenderName ''b'')), [1])"
  by (subst routed_send_reference [OF refl _ refl])
    (simp_all add: candidates_def sender_domain_def rsplit_once_def to_try_def usage_counts_def
      pure_usage_def over_quota_def send_outcome_def attempts_def fails_def)

text \<open>Whatever the usage port and the transports do, \<open>send\<close> does not reach its \<open>unreachable!\<close>,
  and mail only ever leaves through a route that is a catch-all or whose domain is the normalised
  sender domain; an error is \<open>NoMatchingRoute\<close> exactly when there is no such route, and otherwise names
  one of those routes.\<close>

theorem routed_send_safe:
  "\<exists>res. fst (routed_send routes gstats order deliver now email w) = Some res \<and>
     (case res of
        Inr n \<Rightarrow> \<exists>r\<in>set routes. rt_name r = n \<and>
                  rt_match_sender_domain r \<in> {None, Some (sender_domain (oe_sender email))}
      | Inl (NoMatchingRoute d) \<Rightarrow> d = sender_domain (oe_sender email) \<and>
                  (\<forall>r\<in>set routes. rt_match_sender_domain r \<notin> {None, Some d})
      | Inl (SendFailed n a) \<Rightarrow> \<exists>r\<in>set routes. rt_name r = n \<and>
                  rt_match_sender_domain r \<in> {None, Some (sender_domain (oe_sender email))})"
proof -
  obtain res w' where eq: "routed_send routes gstats order deliver now email w = (res, w')" by fastforce
  from eq show ?thesis
  proof (cases rule: routed_send_cases)
    case no_route
    then show ?thesis using eq by (auto simp: candidates_def filter_empty_conv)
  next
    case first
    then show ?thesis using eq
      by (auto dest!: delivery_pass_Delivered delivery_pass_error simp: candidates_set; blast)
  next
    case second
    then show ?thesis using eq
      by (auto dest!: delivery_pass_Delivered delivery_pass_error simp: candidates_set)
  qed
qed

text \<open>Quotas are enforced while there is an alternative: if some candidate route is within its
  quota, according to the usage counts that \<open>send\<close> loaded, then the sender that delivers is one that is
  within its quota.\<close>

theorem routed_send_quota:
  assumes "load_usage gstats (order (quota_groups now cs [])) Map.empty w = (m, w1)"
    and "cs = candidates routes (sender_domain (oe_sender email))"
    and "\<exists>r\<in>set cs. \<not> over_quota m r"
    and "routed_send routes gstats order deliver now email w = (Some (Ok n), w')"
  shows "\<exists>r\<in>set cs. rt_name r = n \<and> \<not> over_quota m r"
  using assms(4)
proof (cases rule: routed_send_cases)
  case no_route
  then show ?thesis using assms(2,3) by simp
next
  case (first sent w1 p)
  with assms(1,2) show ?thesis by (auto dest!: delivery_pass_Delivered)
next
  case (second sent w1 p)
  with assms(1,2,3) show ?thesis by auto
qed

definition one_route :: "nat sender_route list" where
  "one_route = [\<lparr>rt_name = SenderName ''a'', rt_priority = 0, rt_quota = None, rt_match_sender_domain = Some ''z'', rt_transport = 0\<rparr>]"

definition sample_outbound :: outbound_email where
  "sample_outbound = \<lparr>oe_sender = ''x@Y'', oe_subject = None, oe_recipients = [],
     oe_body = RenderedBody \<lparr>plain_text = Some [], plain_html = None\<rparr>, oe_attachments = []\<rparr>"

theorem routed_send_safe_witness:
  "fst (routed_send one_route noop_get_stats id (\<lambda>t e w. (Ok (), w)) 0 sample_outbound ()) = Some (Inl (NoMatchingRoute ''y''))"
proof -
  have dom: "sender_domain (oe_sender sample_outbound) = ''y''" by code_simp
  obtain res where res: "fst (routed_send one_route noop_get_stats id (\<lambda>t e w. (Ok (), w)) 0 sample_outbound ()) = Some res"
    "case res of Inr n \<Rightarrow> \<exists>r\<in>set one_route. rt_name r = n \<and>
                  rt_match_sender_domain r \<in> {None, Some (sender_domain (oe_sender sample_outbound))}
      | Inl (NoMatchingRoute d) \<Rightarrow> d = sender_domain (oe_sender sample_outbound) \<and>
                  (\<forall>r\<in>set one_route. rt_match_sender_domain r \<notin> {None, Some d})
      | Inl (SendFailed n a) \<Rightarrow> \<exists>r\<in>set one_route. rt_name r = n \<and>
                  rt_match_sender_domain r \<in> {None, Some (sender_domain (oe_sender sample_outbound))}"
    using routed_send_safe [of one_route noop_get_stats id "\<lambda>t e w. (Ok (), w)" 0 sample_outbound "()"] by blast
  then have "res = Inl (NoMatchingRoute ''y'')"
    unfolding dom by (auto simp: one_route_def split: sum.splits send_error.splits)
  with res(1) show ?thesis by simp
qed

theorem routed_send_quota_witness:
  "\<exists>r\<in>set [\<lparr>rt_name = SenderName ''a'', rt_priority = 0, rt_quota = Some \<lparr>quota_count = 1, quota_window = Daily\<rparr>,
       rt_match_sender_domain = None, rt_transport = (0::nat)\<rparr>].
     rt_name r = SenderName ''a'' \<and> \<not> over_quota (Map.empty(SenderName ''a'' \<mapsto> 0)) r"
  by (rule routed_send_quota [where gstats = "noop_get_stats" and order = id and now = 0 and w = "()"
        and ?w1.0 = "()" and w' = "()" and deliver = "\<lambda>t e w. (Ok (), w)"
        and routes = "[\<lparr>rt_name = SenderName ''a'', rt_priority = 0,
           rt_quota = Some \<lparr>quota_count = 1, quota_window = Daily\<rparr>,
           rt_match_sender_domain = None, rt_transport = (0::nat)\<rparr>]"
        and email = "\<lparr>oe_sender = ''x@y'', oe_subject = None, oe_recipients = [],
           oe_body = RenderedBody \<lparr>plain_text = Some [], plain_html = None\<rparr>, oe_attachments = []\<rparr>"])
    (simp_all add: candidates_def sender_domain_def rsplit_once_def noop_get_stats_def over_quota_def
      routed_send_def)

end
