(* ===== verification/SubmitEmail.thy ===== *)
theory SubmitEmail
  imports Ports
begin

text \<open>
  The submission use case (\<open>domain/src/use_case/submit_email.rs\<close>): reserve the row, fetch and store
  the attachments, record their references, enqueue, publish the \<open>queued\<close> event, and compensate on
  every error path.  The five ports are the fields of a record of world-passing functions; the id that
  \<open>EmailId::default()\<close> generates is an argument.

  The locale \<open>submit_laws\<close> states what the ports promise over an abstract view of the world (rows, blobs,
  queued jobs, events) and derives what a submission does to that view on success, on an idempotent
  resubmission and on every error path.  It is interpreted on the SQLite and filesystem adapters in the theory \<open>System\<close>.
\<close>

section \<open>Input, errors, ports\<close>

datatype attachment_input =
    InlineInput string string "byte list"
  | StreamInput string string reader
  | RemoteInput string string url

record submit_email_input =
  si_idempotency_key :: "string option"
  si_correlation_id :: "string option"
  si_subject :: "string option"
  si_sender :: string
  si_recipients :: "(recipient_kind \<times> string) list"
  si_body :: body_source
  si_variables :: variables
  si_attachments :: "attachment_input list"

datatype submit_email_error =
    Persist email_repository_error
  | Enqueue email_queue_error
  | SubmitAttachmentStore attachment_store_error
  | SubmitAttachmentFetch attachment_fetch_error

fun submit_error_is_transient :: "submit_email_error \<Rightarrow> bool" where
  "submit_error_is_transient (Persist e) = True"
| "submit_error_is_transient (Enqueue e) = True"
| "submit_error_is_transient (SubmitAttachmentStore e) = True"
| "submit_error_is_transient (SubmitAttachmentFetch e) = False"

record 'w submit_ports =
  sp_save :: "email_id \<Rightarrow> envelope \<Rightarrow> 'w \<Rightarrow> (email_repository_error + save_result) \<times> 'w"
  sp_set_attachments :: "email_id \<Rightarrow> attachment_ref list \<Rightarrow> 'w \<Rightarrow> (email_repository_error + unit) \<times> 'w"
  sp_delete_email :: "email_id \<Rightarrow> 'w \<Rightarrow> (email_repository_error + unit) \<times> 'w"
  sp_enqueue :: "email_id \<Rightarrow> envelope \<Rightarrow> 'w \<Rightarrow> (email_queue_error + unit) \<times> 'w"
  sp_publish :: "lifecycle_event \<Rightarrow> 'w \<Rightarrow> (event_publisher_error + unit) \<times> 'w"
  sp_put :: "reader \<Rightarrow> 'w \<Rightarrow> (attachment_store_error + put_result) \<times> 'w"
  sp_delete_blob :: "blob_ref \<Rightarrow> 'w \<Rightarrow> (attachment_store_error + unit) \<times> 'w"
  sp_fetch :: "url \<Rightarrow> 'w \<Rightarrow> (attachment_fetch_error + reader) \<times> 'w"

definition envelope_of_input :: "submit_email_input \<Rightarrow> attachment_ref list \<Rightarrow> envelope" where
  "envelope_of_input input refs =
     \<lparr>env_idempotency_key = si_idempotency_key input, env_correlation_id = si_correlation_id input,
      env_subject = si_subject input, env_sender = si_sender input,
      env_recipients = si_recipients input, env_body = si_body input,
      env_variables = si_variables input, env_attachments = refs\<rparr>"

section \<open>The use case\<close>

fun delete_blobs :: "('w, 'x) submit_ports_scheme \<Rightarrow> attachment_ref list \<Rightarrow> 'w \<Rightarrow> 'w" where
  "delete_blobs P [] w = w"
| "delete_blobs P (r # rs) w = delete_blobs P rs (snd (sp_delete_blob P (ar_blob r) w))"

definition compensate :: "('w, 'x) submit_ports_scheme \<Rightarrow> email_id \<Rightarrow> attachment_ref list \<Rightarrow> 'w \<Rightarrow> 'w" where
  "compensate P i refs w = snd (sp_delete_email P i (delete_blobs P refs w))"

definition open_input ::
    "('w, 'x) submit_ports_scheme \<Rightarrow> attachment_input \<Rightarrow> 'w \<Rightarrow>
     (attachment_fetch_error + string \<times> string \<times> reader) \<times> 'w" where
  "open_input P att w =
     (case att of
        InlineInput fn ct bytes \<Rightarrow> (Ok (fn, ct, cursor bytes), w)
      | StreamInput fn ct rd \<Rightarrow> (Ok (fn, ct, rd), w)
      | RemoteInput fn ct u \<Rightarrow>
          (case sp_fetch P u w of
             (Inr rd, w') \<Rightarrow> (Ok (fn, ct, rd), w')
           | (Inl e, w') \<Rightarrow> (Err e, w')))"

fun write_attachments ::
    "('w, 'x) submit_ports_scheme \<Rightarrow> email_id \<Rightarrow> attachment_input list \<Rightarrow> attachment_ref list \<Rightarrow> 'w \<Rightarrow>
     (submit_email_error + attachment_ref list) \<times> 'w" where
  "write_attachments P i [] refs w = (Ok refs, w)"
| "write_attachments P i (att # atts) refs w =
     (case open_input P att w of
        (Inl fetch_err, w1) \<Rightarrow> (Err (SubmitAttachmentFetch fetch_err), compensate P i refs w1)
      | (Inr (fn, ct, rd), w1) \<Rightarrow>
          (case sp_put P rd w1 of
             (Inl store_err, w2) \<Rightarrow> (Err (SubmitAttachmentStore store_err), compensate P i refs w2)
           | (Inr r, w2) \<Rightarrow>
               write_attachments P i atts
                 (refs @ [\<lparr>ar_filename = fn, ar_content_type = ct,
                           ar_size_bytes = pr_size_bytes r, ar_blob = pr_blob r\<rparr>]) w2))"

definition record_refs ::
    "('w, 'x) submit_ports_scheme \<Rightarrow> email_id \<Rightarrow> attachment_ref list \<Rightarrow> 'w \<Rightarrow>
     (email_repository_error + unit) \<times> 'w" where
  "record_refs P i refs w = (if refs = [] then (Ok (), w) else sp_set_attachments P i refs w)"

definition submit_execute ::
    "('w, 'x) submit_ports_scheme \<Rightarrow> email_id \<Rightarrow> submit_email_input \<Rightarrow> 'w \<Rightarrow>
     (submit_email_error + email_id) \<times> 'w" where
  "submit_execute P i input w =
     (case sp_save P i (envelope_of_input input []) w of
        (Inl e, w1) \<Rightarrow> (Err (Persist e), w1)
      | (Inr (Duplicate existing), w1) \<Rightarrow> (Ok existing, w1)
      | (Inr (Created _), w1) \<Rightarrow>
          (case write_attachments P i (si_attachments input) [] w1 of
             (Inl e, w2) \<Rightarrow> (Err e, w2)
           | (Inr refs, w2) \<Rightarrow>
               (case record_refs P i refs w2 of
                  (Inl e, w3) \<Rightarrow> (Err (Persist e), compensate P i refs w3)
                | (Inr _, w3) \<Rightarrow>
                    (case sp_enqueue P i (envelope_of_input input refs) w3 of
                       (Inl e, w4) \<Rightarrow> (Err (Enqueue e), compensate P i refs w4)
                     | (Inr _, w4) \<Rightarrow>
                         (Ok i, snd (sp_publish P (Queued i (si_correlation_id input)) w4))))))"

section \<open>The abstract view\<close>

text \<open>Rows map an id to its idempotency key and its recorded references.\<close>

record store_view =
  v_rows :: "email_id \<rightharpoonup> string option \<times> attachment_ref list"
  v_blobs :: "blob_ref \<rightharpoonup> byte list"
  v_jobs :: "email_id list"
  v_events :: "(email_id \<times> string \<times> json) list"

text \<open>An event is known by what its row holds (see \<open>event_wire_inj\<close>).\<close>

definition event_mark :: "lifecycle_event \<Rightarrow> email_id \<times> string \<times> json" where
  "event_mark ev = (event_email_id ev, event_type ev, event_payload ev)"

definition key_free :: "string option \<Rightarrow> store_view \<Rightarrow> bool" where
  "key_free k v \<longleftrightarrow> (k = None \<or> (\<forall>i refs. v_rows v i \<noteq> Some (k, refs)))"

text \<open>Every recorded reference points to a stored blob of the recorded size.\<close>

definition refs_stored :: "attachment_ref list \<Rightarrow> store_view \<Rightarrow> bool" where
  "refs_stored refs v \<longleftrightarrow>
     (\<forall>r\<in>set refs. \<exists>bs. v_blobs v (ar_blob r) = Some bs \<and> ar_size_bytes r = length bs)"

text \<open>A written reference carries the input's name and type, and its blob the input's bytes.\<close>

definition ref_matches :: "store_view \<Rightarrow> attachment_input \<Rightarrow> attachment_ref \<Rightarrow> bool" where
  "ref_matches v att r \<longleftrightarrow>
     (case att of
        InlineInput fn ct bs \<Rightarrow> ar_filename r = fn \<and> ar_content_type r = ct \<and> v_blobs v (ar_blob r) = Some bs
      | StreamInput fn ct rd \<Rightarrow> ar_filename r = fn \<and> ar_content_type r = ct \<and>
          reader_error rd = None \<and> v_blobs v (ar_blob r) = Some (reader_bytes rd)
      | RemoteInput fn ct u \<Rightarrow> ar_filename r = fn \<and> ar_content_type r = ct \<and> v_blobs v (ar_blob r) \<noteq> None)"

lemma ref_matches_mono: "ref_matches v att r \<Longrightarrow> v_blobs v \<subseteq>\<^sub>m v_blobs v' \<Longrightarrow> ref_matches v' att r"
  by (cases att) (auto simp: ref_matches_def dest: map_le_SomeD)

definition view_after_submit ::
    "email_id \<Rightarrow> submit_email_input \<Rightarrow> attachment_ref list \<Rightarrow> (blob_ref \<rightharpoonup> byte list) \<Rightarrow> store_view \<Rightarrow> store_view" where
  "view_after_submit i input refs new v =
     v\<lparr>v_rows := (v_rows v)(i \<mapsto> (si_idempotency_key input, refs)),
       v_blobs := v_blobs v ++ new,
       v_jobs := v_jobs v @ [i]\<rparr>"

locale submit_laws =
  fixes P :: "'w submit_ports" and view :: "'w \<Rightarrow> store_view" and inv :: "'w \<Rightarrow> bool"
    and own :: "blob_ref \<Rightarrow> bool"
  assumes save_created: "inv w \<Longrightarrow> env_attachments env = [] \<Longrightarrow> body_ok (env_body env) \<Longrightarrow>
      sp_save P i env w = (Inr (Created j), w') \<Longrightarrow>
      inv w' \<and> j = i \<and> v_rows (view w) i = None \<and> key_free (env_idempotency_key env) (view w) \<and>
      view w' = (view w)\<lparr>v_rows := (v_rows (view w))(i \<mapsto> (env_idempotency_key env, []))\<rparr>"
    and save_duplicate: "inv w \<Longrightarrow> env_attachments env = [] \<Longrightarrow> body_ok (env_body env) \<Longrightarrow> sp_save P i env w = (Inr (Duplicate j), w') \<Longrightarrow>
      inv w' \<and> view w' = view w \<and> env_idempotency_key env \<noteq> None \<and>
      (\<exists>refs. v_rows (view w) j = Some (env_idempotency_key env, refs))"
    and save_error: "inv w \<Longrightarrow> env_attachments env = [] \<Longrightarrow> body_ok (env_body env) \<Longrightarrow> sp_save P i env w = (Inl e, w') \<Longrightarrow> inv w' \<and> view w' = view w"
    and set_ok: "inv w \<Longrightarrow> \<forall>r\<in>set refs. ar_size_bytes r \<le> u64_max \<Longrightarrow> sp_set_attachments P i refs w = (Inr u, w') \<Longrightarrow>
      inv w' \<and> (\<exists>k old. v_rows (view w) i = Some (k, old) \<and>
        view w' = (view w)\<lparr>v_rows := (v_rows (view w))(i \<mapsto> (k, refs))\<rparr>)"
    and set_error: "inv w \<Longrightarrow> \<forall>r\<in>set refs. ar_size_bytes r \<le> u64_max \<Longrightarrow> sp_set_attachments P i refs w = (Inl e, w') \<Longrightarrow> inv w' \<and> view w' = view w"
    and delete_ok: "inv w \<Longrightarrow> sp_delete_email P i w = (Inr u, w') \<Longrightarrow>
      inv w' \<and> view w' = (view w)\<lparr>v_rows := (v_rows (view w))(i := None)\<rparr>"
    and delete_error: "inv w \<Longrightarrow> sp_delete_email P i w = (Inl e, w') \<Longrightarrow> inv w' \<and> view w' = view w"
    and enqueue_ok: "inv w \<Longrightarrow> sp_enqueue P i env w = (Inr u, w') \<Longrightarrow>
      inv w' \<and> view w' = (view w)\<lparr>v_jobs := v_jobs (view w) @ [i]\<rparr>"
    and enqueue_error: "inv w \<Longrightarrow> sp_enqueue P i env w = (Inl qe, w') \<Longrightarrow> inv w' \<and> view w' = view w"
    and publish_any: "inv w \<Longrightarrow> sp_publish P ev w = (pr, w') \<Longrightarrow>
      inv w' \<and> (\<exists>evs. set evs \<subseteq> {event_mark ev} \<and> view w' = (view w)\<lparr>v_events := v_events (view w) @ evs\<rparr>)"
    and put_ok: "inv w \<Longrightarrow> sp_put P rd w = (Inr r, w') \<Longrightarrow>
      inv w' \<and> own (pr_blob r) \<and> reader_error rd = None \<and> v_blobs (view w) (pr_blob r) = None \<and>
      pr_size_bytes r = length (reader_bytes rd) \<and> pr_size_bytes r \<le> u64_max \<and>
      view w' = (view w)\<lparr>v_blobs := (v_blobs (view w))(pr_blob r \<mapsto> reader_bytes rd)\<rparr>"
    and put_error: "inv w \<Longrightarrow> sp_put P rd w = (Inl se, w') \<Longrightarrow>
      inv w' \<and> (\<exists>B. v_blobs (view w) \<subseteq>\<^sub>m B \<and> view w' = (view w)\<lparr>v_blobs := B\<rparr>)"
    and delete_blob_ok: "inv w \<Longrightarrow> own b \<Longrightarrow> sp_delete_blob P b w = (Inr u, w') \<Longrightarrow>
      inv w' \<and> view w' = (view w)\<lparr>v_blobs := (v_blobs (view w))(b := None)\<rparr>"
    and delete_blob_error: "inv w \<Longrightarrow> own b \<Longrightarrow> sp_delete_blob P b w = (Inl se, w') \<Longrightarrow> inv w' \<and> view w' = view w"
    and integrity: "inv w \<Longrightarrow> set (v_jobs (view w)) \<union> fst ` set (v_events (view w)) \<subseteq> dom (v_rows (view w))"
    and fetch_any: "inv w \<Longrightarrow> sp_fetch P ur w = (fr, w') \<Longrightarrow> inv w' \<and> view w' = view w"
begin

lemma open_input_view: "inv w \<Longrightarrow> open_input P att w = (r, w') \<Longrightarrow> inv w' \<and> view w' = view w"
  by (cases att) (auto simp: open_input_def split: prod.splits sum.splits dest: fetch_any)

text \<open>Deleting the blobs of a list removes some of them (those whose delete succeeds) and changes nothing else.\<close>

lemma delete_blobs_view:
  "inv w \<Longrightarrow> \<forall>r\<in>set refs. own (ar_blob r) \<Longrightarrow> \<exists>D \<subseteq> ar_blob ` set refs. inv (delete_blobs P refs w) \<and>
     view (delete_blobs P refs w) = (view w)\<lparr>v_blobs := without D (v_blobs (view w))\<rparr>"
proof (induction refs arbitrary: w)
  case Nil
  then show ?case by simp
next
  case (Cons r rs)
  obtain x w1 where x: "sp_delete_blob P (ar_blob r) w = (x, w1)" by fastforce
  obtain D1 where D1: "D1 \<subseteq> {ar_blob r}" "inv w1" "view w1 = (view w)\<lparr>v_blobs := without D1 (v_blobs (view w))\<rparr>"
  proof (cases x)
    case (Inl e)
    with delete_blob_error [OF Cons.prems(1) _ x [unfolded Inl]] Cons.prems(2) that [of "{}"] show thesis by simp
  next
    case (Inr u)
    with delete_blob_ok [OF Cons.prems(1) _ x [unfolded Inr]] Cons.prems(2) that [of "{ar_blob r}"] show thesis
      by (simp add: upd_None_without)
  qed
  from Cons.prems(2) have "\<forall>r\<in>set rs. own (ar_blob r)" by simp
  from Cons.IH [OF D1(2) this] obtain D2 where D2: "D2 \<subseteq> ar_blob ` set rs" "inv (delete_blobs P rs w1)"
    "view (delete_blobs P rs w1) = (view w1)\<lparr>v_blobs := without D2 (v_blobs (view w1))\<rparr>" by blast
  from D1 D2 x show ?case
    by (intro exI [of _ "D2 \<union> D1"]) auto
qed

lemma delete_blobs_all:
  assumes "inv w" "\<forall>r\<in>set refs. own (ar_blob r)" and del: "\<And>b w. inv w \<Longrightarrow> own b \<Longrightarrow> is_ok (fst (sp_delete_blob P b w))"
  shows "view (delete_blobs P refs w) = (view w)\<lparr>v_blobs := without (ar_blob ` set refs) (v_blobs (view w))\<rparr>"
  using assms(1,2)
proof (induction refs arbitrary: w)
  case Nil
  then show ?case by simp
next
  case (Cons r rs)
  obtain x w1 where x: "sp_delete_blob P (ar_blob r) w = (x, w1)" by fastforce
  with del [OF Cons.prems(1), of "ar_blob r"] Cons.prems(2) obtain u where "x = Inr u" by (cases x) auto
  with delete_blob_ok [OF Cons.prems(1)] Cons.prems(2) x
  have 1: "inv w1" "view w1 = (view w)\<lparr>v_blobs := (v_blobs (view w))(ar_blob r := None)\<rparr>" by auto
  from Cons.prems(2) have "\<forall>r\<in>set rs. own (ar_blob r)" by simp
  from Cons.IH [OF 1(1) this] 1 x show ?case by (simp add: upd_None_without insert_commute)
qed

text \<open>Compensation never touches jobs, events or the rows of other emails.\<close>

lemma compensate_view:
  assumes "inv w" "\<forall>r\<in>set refs. own (ar_blob r)"
  shows "inv (compensate P i refs w) \<and>
    v_jobs (view (compensate P i refs w)) = v_jobs (view w) \<and>
    v_events (view (compensate P i refs w)) = v_events (view w) \<and>
    (\<forall>j. j \<noteq> i \<longrightarrow> v_rows (view (compensate P i refs w)) j = v_rows (view w) j) \<and>
    (v_rows (view (compensate P i refs w)) i \<in> {None, v_rows (view w) i}) \<and>
    (\<exists>D \<subseteq> ar_blob ` set refs. v_blobs (view (compensate P i refs w)) = without D (v_blobs (view w)))"
proof -
  let ?w1 = "delete_blobs P refs w"
  obtain D where D: "D \<subseteq> ar_blob ` set refs" "inv ?w1" "view ?w1 = (view w)\<lparr>v_blobs := without D (v_blobs (view w))\<rparr>"
    using delete_blobs_view [OF assms] by blast
  obtain x w2 where x: "sp_delete_email P i ?w1 = (x, w2)" by fastforce
  have "inv w2 \<and> (view w2 = view ?w1 \<or> view w2 = (view ?w1)\<lparr>v_rows := (v_rows (view ?w1))(i := None)\<rparr>)"
    using delete_ok [OF D(2)] delete_error [OF D(2)] x by (cases x) auto
  with D x show ?thesis by (auto simp: compensate_def)
qed

text \<open>What the attachment loop has done so far: new blobs, disjoint from the old ones, exactly those of
  the references written.\<close>

definition wrote :: "store_view \<Rightarrow> attachment_ref list \<Rightarrow> store_view \<Rightarrow> bool" where
  "wrote v refs v' \<longleftrightarrow> (\<exists>new. dom new = ar_blob ` set refs \<and> dom new \<inter> dom (v_blobs v) = {} \<and>
     v' = v\<lparr>v_blobs := v_blobs v ++ new\<rparr> \<and> refs_stored refs v' \<and>
     (\<forall>r\<in>set refs. own (ar_blob r) \<and> ar_size_bytes r \<le> u64_max))"

lemma wrote_Nil: "wrote v [] v"
  by (simp add: wrote_def refs_stored_def)

lemma wrote_snoc:
  assumes "wrote v refs v'" "v_blobs v' b = None"
    "v'' = v'\<lparr>v_blobs := (v_blobs v')(b \<mapsto> bs)\<rparr>" "ar_blob r = b" "ar_size_bytes r = length bs"
    "own b" "length bs \<le> u64_max"
  shows "wrote v (refs @ [r]) v''"
proof -
  obtain new where new: "dom new = ar_blob ` set refs" "dom new \<inter> dom (v_blobs v) = {}"
      "v' = v\<lparr>v_blobs := v_blobs v ++ new\<rparr>" "refs_stored refs v'"
      "\<forall>r\<in>set refs. own (ar_blob r) \<and> ar_size_bytes r \<le> u64_max"
    using assms(1) by (auto simp: wrote_def)
  have b: "b \<notin> dom (v_blobs v)" "b \<notin> dom new" using assms(2) new(3) by auto
  have "v'' = v\<lparr>v_blobs := v_blobs v ++ new(b \<mapsto> bs)\<rparr>"
    using assms(3) new(3) by (simp add: map_add_upd)
  moreover have "refs_stored (refs @ [r]) v''"
    unfolding refs_stored_def
  proof
    fix x
    assume "x \<in> set (refs @ [r])"
    then consider "x = r" | "x \<in> set refs" "ar_blob x \<noteq> b" using new(1) b(2) by auto
    then show "\<exists>bs. v_blobs v'' (ar_blob x) = Some bs \<and> ar_size_bytes x = length bs"
      using assms(3,4,5) new(4) by cases (auto simp: refs_stored_def)
  qed
  moreover have "dom (new(b \<mapsto> bs)) = ar_blob ` set (refs @ [r])" using new(1) assms(4) by simp
  moreover have "dom (new(b \<mapsto> bs)) \<inter> dom (v_blobs v) = {}" using new(2) b by simp
  moreover have "\<forall>x\<in>set (refs @ [r]). own (ar_blob x) \<and> ar_size_bytes x \<le> u64_max"
    using new(5) assms(4-7) by auto
  ultimately show ?thesis unfolding wrote_def by blast
qed

lemma wrote_own: "wrote v refs v' \<Longrightarrow> \<forall>r\<in>set refs. own (ar_blob r)"
  by (auto simp: wrote_def)

lemma wrote_sizes: "wrote v refs v' \<Longrightarrow> \<forall>r\<in>set refs. ar_size_bytes r \<le> u64_max"
  by (auto simp: wrote_def)

lemma wrote_undo: "wrote v refs v' \<Longrightarrow> without (ar_blob ` set refs) (v_blobs v') = v_blobs v"
  by (auto simp: wrote_def without_map_add)

lemma wrote_grow: "wrote v refs v' \<Longrightarrow> v_blobs v \<subseteq>\<^sub>m v_blobs v'"
proof -
  assume "wrote v refs v'"
  then obtain new where "dom new \<inter> dom (v_blobs v) = {}" "v' = v\<lparr>v_blobs := v_blobs v ++ new\<rparr>"
    unfolding wrote_def by blast
  then show ?thesis by (simp add: map_le_add_disjoint Int_commute)
qed

lemma wrote_rows: "wrote v refs v' \<Longrightarrow>
    v_rows v' = v_rows v \<and> v_jobs v' = v_jobs v \<and> v_events v' = v_events v"
  by (auto simp: wrote_def)

section \<open>The attachment loop\<close>

lemma write_step:
  assumes "inv w" "wrote v refs (view w)" "open_input P att w = (Inr (fn, ct, rd), w1)"
    "sp_put P rd w1 = (Inr pr, w2)"
    "r = \<lparr>ar_filename = fn, ar_content_type = ct, ar_size_bytes = pr_size_bytes pr, ar_blob = pr_blob pr\<rparr>"
  shows "inv w2 \<and> wrote v (refs @ [r]) (view w2) \<and> ref_matches (view w2) att r \<and>
    v_blobs (view w) \<subseteq>\<^sub>m v_blobs (view w2)"
proof -
  have w1: "inv w1" "view w1 = view w" using open_input_view [OF assms(1,3)] by auto
  note put = put_ok [OF w1(1) assms(4)]
  have "wrote v (refs @ [r]) (view w2)"
    using wrote_snoc [of v refs "view w1" "pr_blob pr" "view w2" "reader_bytes rd" r] assms(2,5) put w1 by simp
  moreover have "ref_matches (view w2) att r"
    using assms(3,5) put
    by (cases att) (auto simp: ref_matches_def open_input_def cursor_def split: prod.splits sum.splits)
  ultimately show ?thesis using put w1 by (auto simp: map_le_def)
qed

lemma write_attachments_Ok:
  "inv w \<Longrightarrow> wrote v refs (view w) \<Longrightarrow> write_attachments P i atts refs w = (Inr refs', w') \<Longrightarrow>
     inv w' \<and> wrote v refs' (view w') \<and> v_blobs (view w) \<subseteq>\<^sub>m v_blobs (view w') \<and>
     (\<exists>new. refs' = refs @ new \<and> list_all2 (ref_matches (view w')) atts new)"
proof (induction atts arbitrary: refs w)
  case Nil
  then show ?case by simp
next
  case (Cons att atts)
  obtain fn ct rd w1 where o: "open_input P att w = (Inr (fn, ct, rd), w1)"
    using Cons.prems(3) by (auto split: prod.splits sum.splits)
  obtain pr w2 where pt: "sp_put P rd w1 = (Inr pr, w2)"
    using Cons.prems(3) o by (auto split: prod.splits sum.splits)
  let ?r = "\<lparr>ar_filename = fn, ar_content_type = ct, ar_size_bytes = pr_size_bytes pr, ar_blob = pr_blob pr\<rparr>"
  note st = write_step [OF Cons.prems(1,2) o pt refl]
  have "write_attachments P i atts (refs @ [?r]) w2 = (Inr refs', w')"
    using Cons.prems(3) o pt by simp
  with Cons.IH [of w2 "refs @ [?r]"] st obtain new where
    "inv w'" "wrote v refs' (view w')" "v_blobs (view w2) \<subseteq>\<^sub>m v_blobs (view w')"
    "refs' = (refs @ [?r]) @ new" "list_all2 (ref_matches (view w')) atts new" by blast
  moreover from this st have "ref_matches (view w') att ?r" by (blast intro: ref_matches_mono)
  ultimately show ?case using st by (auto intro: map_le_trans)
qed

text \<open>An aborted loop ends with a compensation of exactly what it had written (a failing \<open>put\<close> may leave an
  unreferenced blob behind).\<close>

definition clean_puts :: bool where
  "clean_puts \<longleftrightarrow> (\<forall>w rd se w'. inv w \<longrightarrow> sp_put P rd w = (Inl se, w') \<longrightarrow> view w' = view w)"

definition aborted :: "submit_email_error \<Rightarrow> store_view \<Rightarrow> email_id \<Rightarrow> 'w \<Rightarrow> bool" where
  "aborted e v i w' \<longleftrightarrow> (\<exists>w2 refs v2 B. w' = compensate P i refs w2 \<and> inv w2 \<and> wrote v refs v2 \<and>
     v_blobs v2 \<subseteq>\<^sub>m B \<and> view w2 = v2\<lparr>v_blobs := B\<rparr> \<and>
     ((\<forall>se. e \<noteq> SubmitAttachmentStore se) \<or> clean_puts \<longrightarrow> B = v_blobs v2))"

lemma abortedI: "inv w2 \<Longrightarrow> wrote v refs (view w2) \<Longrightarrow> aborted e v i (compensate P i refs w2)"
  unfolding aborted_def by (intro exI [of _ w2] exI [of _ refs] exI [of _ "view w2"] exI [of _ "v_blobs (view w2)"]) simp

lemma write_attachments_Err:
  "inv w \<Longrightarrow> wrote v refs (view w) \<Longrightarrow> write_attachments P i atts refs w = (Inl e, w') \<Longrightarrow> aborted e v i w'"
proof (induction atts arbitrary: refs w)
  case Nil
  then show ?case by simp
next
  case (Cons att atts)
  obtain x w1 where o: "open_input P att w = (x, w1)" by fastforce
  note w1 = open_input_view [OF Cons.prems(1) o]
  show ?case
  proof (cases x)
    case (Inl fe)
    with Cons.prems o w1 show ?thesis by (auto intro: abortedI)
  next
    case (Inr t)
    obtain fn ct rd where t: "t = (fn, ct, rd)" by (cases t)
    obtain y w2 where pt: "sp_put P rd w1 = (y, w2)" by fastforce
    show ?thesis
    proof (cases y)
      case (Inr pr)
      with Cons.IH write_step [OF Cons.prems(1,2), of att fn ct rd w1 pr w2] Cons.prems(3) o t pt \<open>x = Inr t\<close>
      show ?thesis by auto
    next
      case (Inl se)
      with put_error [of w1 rd se w2] w1 pt obtain B where
        B: "inv w2" "v_blobs (view w1) \<subseteq>\<^sub>m B" "view w2 = (view w1)\<lparr>v_blobs := B\<rparr>" by blast
      have "w' = compensate P i refs w2" "e = SubmitAttachmentStore se"
        using Cons.prems(3) o t pt \<open>x = Inr t\<close> Inl by auto
      moreover have "clean_puts \<Longrightarrow> B = v_blobs (view w1)"
        using B(3) w1 pt Inl unfolding clean_puts_def by (metis store_view.select_convs(2) store_view.surjective store_view.update_convs(2))
      ultimately show ?thesis using B w1 Cons.prems(2) unfolding aborted_def
        by (intro exI [of _ w2] exI [of _ refs] exI [of _ "view w1"] exI [of _ B]) auto
    qed
  qed
qed

section \<open>The whole submission\<close>

lemma submit_split:
  assumes "inv w" "body_ok (si_body input)" "submit_execute P i input w = (res, w')"
  obtains (unsaved) e where "res = Inl (Persist e)" "inv w'" "view w' = view w"
    | (duplicate) j refs where "res = Inr j" "inv w'" "view w' = view w" "si_idempotency_key input \<noteq> None"
        "v_rows (view w) j = Some (si_idempotency_key input, refs)"
    | (aborted) e v where "res = Inl e" "aborted e v i w'" "v_rows (view w) i = None"
        "key_free (si_idempotency_key input) (view w)"
        "v = (view w)\<lparr>v_rows := (v_rows (view w))(i \<mapsto> (si_idempotency_key input, []))\<rparr>
         \<or> (\<exists>k refs. v = (view w)\<lparr>v_rows := (v_rows (view w))(i \<mapsto> (k, refs))\<rparr>)"
    | (created) refs new evs where "res = Inr i" "inv w'" "v_rows (view w) i = None"
        "key_free (si_idempotency_key input) (view w)"
        "dom new = ar_blob ` set refs" "dom new \<inter> dom (v_blobs (view w)) = {}"
        "set evs \<subseteq> {event_mark (Queued i (si_correlation_id input))}" "refs_stored refs (view w')"
        "list_all2 (ref_matches (view w')) (si_attachments input) refs"
        "view w' = (view_after_submit i input refs new (view w))\<lparr>v_events := v_events (view w) @ evs\<rparr>"
proof -
  let ?k = "si_idempotency_key input"
  obtain sr w1 where sv: "sp_save P i (envelope_of_input input []) w = (sr, w1)" by fastforce
  have env: "env_attachments (envelope_of_input input []) = []" "env_idempotency_key (envelope_of_input input []) = ?k"
    "body_ok (env_body (envelope_of_input input []))"
    using assms(2) by (simp_all add: envelope_of_input_def)
  consider (e) e where "sr = Inl e" | (d) j where "sr = Inr (Duplicate j)" | (c) j where "sr = Inr (Created j)"
    by (metis sum.exhaust save_result.exhaust)
  then show thesis
  proof cases
    case e
    with save_error [OF assms(1) env(1,3)] sv assms(3) show ?thesis by (auto intro!: unsaved simp: submit_execute_def)
  next
    case d
    with save_duplicate [OF assms(1) env(1,3)] sv assms(3) env duplicate show ?thesis
      by (fastforce simp: submit_execute_def)
  next
    case c
    let ?v = "(view w)\<lparr>v_rows := (v_rows (view w))(i \<mapsto> (?k, []))\<rparr>"
    note cr = save_created [OF assms(1) env(1,3) sv [unfolded c], unfolded env(2)]
    have wr1: "wrote ?v [] (view w1)" using cr wrote_Nil by simp
    obtain ar w2 where wa: "write_attachments P i (si_attachments input) [] w1 = (ar, w2)" by fastforce
    show ?thesis
    proof (cases ar)
      case (Inl e)
      with write_attachments_Err [of w1 ?v "[]"] cr wr1 wa assms(3) sv c show ?thesis
        by (auto simp: submit_execute_def intro!: aborted [of e ?v])
    next
      case (Inr refs)
      from write_attachments_Ok [of w1 ?v "[]" i "si_attachments input" refs w2] cr wr1 wa Inr
      have w2: "inv w2" "wrote ?v refs (view w2)" "list_all2 (ref_matches (view w2)) (si_attachments input) refs"
        by auto
      obtain rr w3 where rc: "record_refs P i refs w2 = (rr, w3)" by fastforce
      show ?thesis
      proof (cases rr)
        case (Inl e)
        then have "inv w3 \<and> view w3 = view w2"
          using rc set_error [OF w2(1) wrote_sizes [OF w2(2)]] by (auto simp: record_refs_def split: if_splits)
        with w2 have "aborted (Persist e) ?v i (compensate P i refs w3)" by (auto intro: abortedI)
        with assms(3) sv c wa Inr rc Inl cr show ?thesis
          by (auto simp: submit_execute_def \<open>ar = Inr refs\<close> intro!: aborted [of "Persist e" ?v])
      next
        case ok: (Inr u)
        let ?v3 = "(view w)\<lparr>v_rows := (v_rows (view w))(i \<mapsto> (?k, refs))\<rparr>"
        have i2: "v_rows (view w2) i = Some (?k, [])" using wrote_rows [OF w2(2)] by simp
        have w3: "inv w3" "view w3 = (view w2)\<lparr>v_rows := (v_rows (view w))(i \<mapsto> (?k, refs))\<rparr>"
        proof -
          have "inv w3 \<and> view w3 = (view w2)\<lparr>v_rows := (v_rows (view w2))(i \<mapsto> (?k, refs))\<rparr>"
          proof (cases "refs = []")
            case True
            with rc ok w2(1) i2 show ?thesis by (simp add: record_refs_def fun_upd_idem)
          next
            case False
            with rc ok set_ok [OF w2(1) wrote_sizes [OF w2(2)], of i u w3] i2 show ?thesis by (simp add: record_refs_def)
          qed
          then show "inv w3" "view w3 = (view w2)\<lparr>v_rows := (v_rows (view w))(i \<mapsto> (?k, refs))\<rparr>"
            using wrote_rows [OF w2(2)] by auto
        qed
        from w2(2) obtain new where new: "dom new = ar_blob ` set refs" "dom new \<inter> dom (v_blobs (view w)) = {}"
          "view w2 = ?v\<lparr>v_blobs := v_blobs ?v ++ new\<rparr>" "refs_stored refs (view w2)"
          by (auto simp: wrote_def)
        have v3: "view w3 = ?v3\<lparr>v_blobs := v_blobs (view w) ++ new\<rparr>" using w3 new(3) by simp
        have wr3: "wrote ?v3 refs (view w3)"
          using new v3 wrote_own [OF w2(2)] wrote_sizes [OF w2(2)] by (auto simp: wrote_def refs_stored_def)
        obtain er w4 where en: "sp_enqueue P i (envelope_of_input input refs) w3 = (er, w4)" by fastforce
        show ?thesis
        proof (cases er)
          case (Inl e)
          with enqueue_error [OF w3(1)] en have "inv w4 \<and> view w4 = view w3" by blast
          with wr3 have "aborted (Enqueue e) ?v3 i (compensate P i refs w4)" by (auto intro: abortedI)
          with assms(3) sv c wa \<open>ar = Inr refs\<close> rc ok en Inl cr show ?thesis
            by (auto simp: submit_execute_def intro!: aborted [of "Enqueue e" ?v3])
        next
          case enq: (Inr u')
          with enqueue_ok [OF w3(1), of i _ u' w4] en
          have w4: "inv w4" "view w4 = (view w3)\<lparr>v_jobs := v_jobs (view w3) @ [i]\<rparr>" by auto
          obtain pres w5 where pb: "sp_publish P (Queued i (si_correlation_id input)) w4 = (pres, w5)" by fastforce
          from publish_any [OF w4(1) pb] obtain evs where
            evs: "inv w5" "set evs \<subseteq> {event_mark (Queued i (si_correlation_id input))}"
              "view w5 = (view w4)\<lparr>v_events := v_events (view w4) @ evs\<rparr>" by blast
          have res: "res = Inr i" "w' = w5"
            using assms(3) sv c wa \<open>ar = Inr refs\<close> rc ok en enq pb by (auto simp: submit_execute_def)
          have vw: "view w5 = (view_after_submit i input refs new (view w))\<lparr>v_events := v_events (view w) @ evs\<rparr>"
            using evs(3) w4(2) v3 by (simp add: view_after_submit_def)
          moreover have "refs_stored refs (view w5)" using new(4) vw new(3)
            by (simp add: refs_stored_def view_after_submit_def)
          moreover have "list_all2 (ref_matches (view w5)) (si_attachments input) refs"
            using w2(3) vw new(3)
            by (auto elim!: list_all2_mono ref_matches_mono simp: view_after_submit_def)
          ultimately show ?thesis using created [of new refs evs] res evs new(1,2) cr by auto
        qed
      qed
    qed
  qed
qed

lemma aborted_view:
  assumes "aborted e v i w'" "v_rows v0 i = None" "v = v0\<lparr>v_rows := (v_rows v0)(i \<mapsto> row)\<rparr>"
  shows "inv w' \<and> v_jobs (view w') = v_jobs v0 \<and> v_events (view w') = v_events v0 \<and>
    (\<forall>j. j \<noteq> i \<longrightarrow> v_rows (view w') j = v_rows v0 j) \<and> v_blobs v0 \<subseteq>\<^sub>m v_blobs (view w')"
proof -
  from assms(1) obtain w2 refs v2 B where a: "w' = compensate P i refs w2" "inv w2" "wrote v refs v2"
    "v_blobs v2 \<subseteq>\<^sub>m B" "view w2 = v2\<lparr>v_blobs := B\<rparr>" unfolding aborted_def by blast
  obtain D where D: "D \<subseteq> ar_blob ` set refs" "v_blobs (view w') = without D B"
    using compensate_view [OF a(2) wrote_own [OF a(3)], of i] a(1,5) by auto
  obtain new where new: "dom new = ar_blob ` set refs" "dom new \<inter> dom (v_blobs v) = {}" "v2 = v\<lparr>v_blobs := v_blobs v ++ new\<rparr>"
    using a(3) by (auto simp: wrote_def)
  have "v_blobs v0 \<subseteq>\<^sub>m without D B"
  proof (simp add: map_le_def, intro ballI)
    fix b assume b: "b \<in> dom (v_blobs v0)"
    then have "b \<notin> D" using D(1) new(1,2) assms(3) by auto
    moreover have "v_blobs v2 b = v_blobs v0 b"
    proof -
      have "v_blobs v0 \<subseteq>\<^sub>m v_blobs v2"
        using wrote_grow [OF a(3)] assms(3) by simp
      then show ?thesis using b by (auto dest: map_le_SomeD)
    qed
    ultimately show "v_blobs v0 b = without D B b"
      using b a(4) by (auto simp: without_apply dest: map_le_SomeD)
  qed
  with compensate_view [OF a(2) wrote_own [OF a(3)], of i] a D wrote_rows [OF a(3)] assms(2,3) show ?thesis by auto
qed

lemma submit_Ok:
  assumes "inv w" "body_ok (si_body input)" "submit_execute P i input w = (Inr j, w')"
  shows "inv w' \<and>
    (view w' = view w \<and> si_idempotency_key input \<noteq> None \<and>
       (\<exists>refs. v_rows (view w) j = Some (si_idempotency_key input, refs))
     \<or> j = i \<and> v_rows (view w) i = None \<and> key_free (si_idempotency_key input) (view w) \<and>
       (\<exists>refs new evs. dom new = ar_blob ` set refs \<and> dom new \<inter> dom (v_blobs (view w)) = {} \<and>
          set evs \<subseteq> {event_mark (Queued i (si_correlation_id input))} \<and> refs_stored refs (view w') \<and>
          list_all2 (ref_matches (view w')) (si_attachments input) refs \<and>
          view w' = (view_after_submit i input refs new (view w))\<lparr>v_events := v_events (view w) @ evs\<rparr>))"
  using assms
proof (cases rule: submit_split)
  case (duplicate j' refs)
  then show ?thesis by simp
next
  case (created refs new evs)
  then have "j = i" by simp
  with created show ?thesis
    by (intro conjI disjI2 exI [of _ refs] exI [of _ new] exI [of _ evs]) auto
qed simp_all

lemma submit_Err:
  assumes "inv w" "body_ok (si_body input)" "submit_execute P i input w = (Inl e, w')"
  shows "inv w' \<and> v_jobs (view w') = v_jobs (view w) \<and> v_events (view w') = v_events (view w) \<and>
    (\<forall>j. j \<noteq> i \<longrightarrow> v_rows (view w') j = v_rows (view w) j) \<and> v_blobs (view w) \<subseteq>\<^sub>m v_blobs (view w')"
  using assms
proof (cases rule: submit_split)
  case (aborted e' v)
  then obtain row where "v = (view w)\<lparr>v_rows := (v_rows (view w))(i \<mapsto> row)\<rparr>" by blast
  with aborted_view [OF aborted(2,3)] show ?thesis by simp
qed simp_all

text \<open>A property that every call keeps may be added to the invariant.\<close>

lemma strengthen:
  assumes "\<And>i env w. Q w \<Longrightarrow> Q (snd (sp_save P i env w))"
    and "\<And>i refs w. Q w \<Longrightarrow> Q (snd (sp_set_attachments P i refs w))"
    and "\<And>i w. Q w \<Longrightarrow> Q (snd (sp_delete_email P i w))"
    and "\<And>i env w. Q w \<Longrightarrow> Q (snd (sp_enqueue P i env w))"
    and "\<And>ev w. Q w \<Longrightarrow> Q (snd (sp_publish P ev w))"
    and "\<And>rd w. Q w \<Longrightarrow> Q (snd (sp_put P rd w))"
    and "\<And>b w. Q w \<Longrightarrow> Q (snd (sp_delete_blob P b w))"
    and "\<And>u w. Q w \<Longrightarrow> Q (snd (sp_fetch P u w))"
  shows "submit_laws P view (\<lambda>w. inv w \<and> Q w) own"
proof (unfold_locales, goal_cases)
  case (1 w env i j w')
  then show ?case using save_created assms(1) [of w i env] by auto
next
  case (2 w env i j w')
  then show ?case using save_duplicate [of w env i j w'] assms(1) [of w i env] by auto
next
  case (3 w env i e w')
  then show ?case using save_error assms(1) [of w i env] by auto
next
  case (4 w refs i u w')
  then show ?case using set_ok [of w refs i u w'] assms(2) [of w i refs] by auto
next
  case (5 w refs i e w')
  then show ?case using set_error [of w refs i e w'] assms(2) [of w i refs] by auto
next
  case (6 w i u w')
  then show ?case using delete_ok assms(3) [of w i] by auto
next
  case (7 w i e w')
  then show ?case using delete_error assms(3) [of w i] by auto
next
  case (8 w i env u w')
  then show ?case using enqueue_ok assms(4) [of w i env] by auto
next
  case (9 w i env e w')
  then show ?case using enqueue_error assms(4) [of w i env] by auto
next
  case (10 w ev x w')
  then show ?case using publish_any [of w ev x w'] assms(5) [of w ev] by auto
next
  case (11 w rd r w')
  then show ?case using put_ok [of w rd r w'] assms(6) [of w rd] by auto
next
  case (12 w rd e w')
  then show ?case using put_error [of w rd e w'] assms(6) [of w rd] by auto
next
  case (13 w b u w')
  then show ?case using delete_blob_ok assms(7) [of w b] by auto
next
  case (14 w b e w')
  then show ?case using delete_blob_error assms(7) [of w b] by auto
next
  case (15 w)
  then show ?case using integrity [of w] by blast
next
  case (16 w ur fr w')
  then show ?case using fetch_any [of w ur fr w'] assms(8) [of w ur] by auto
qed

end

text \<open>The same with deletions that succeed: a blob can always be deleted, an email when nothing refers to it, and a failed
  \<open>put\<close> leaves nothing behind.  Then a failed submission leaves no trace at all.\<close>

locale submit_reliable = submit_laws +
  assumes blob_delete_reliable: "inv w \<Longrightarrow> own b \<Longrightarrow> is_ok (fst (sp_delete_blob P b w))"
    and email_delete_reliable: "inv w \<Longrightarrow> j \<notin> set (v_jobs (view w)) \<Longrightarrow> j \<notin> fst ` set (v_events (view w)) \<Longrightarrow>
      is_ok (fst (sp_delete_email P j w))"
    and put_reliable: "inv w \<Longrightarrow> sp_put P rd w = (Inl se, w') \<Longrightarrow> view w' = view w"
begin

lemma compensate_reliable:
  assumes "inv w" "\<forall>r\<in>set refs. own (ar_blob r)" "i \<notin> set (v_jobs (view w))" "i \<notin> fst ` set (v_events (view w))"
  shows "view (compensate P i refs w) =
    (view w)\<lparr>v_rows := (v_rows (view w))(i := None),
            v_blobs := without (ar_blob ` set refs) (v_blobs (view w))\<rparr>"
proof -
  let ?w1 = "delete_blobs P refs w"
  have inv1: "inv ?w1" using delete_blobs_view [OF assms(1,2)] by blast
  have view1: "view ?w1 = (view w)\<lparr>v_blobs := without (ar_blob ` set refs) (v_blobs (view w))\<rparr>"
    by (rule delete_blobs_all [OF assms(1,2) blob_delete_reliable])
  obtain x w2 where x: "sp_delete_email P i ?w1 = (x, w2)" by fastforce
  have "is_ok x" using email_delete_reliable [OF inv1, of i] view1 assms(3,4) x by simp
  then obtain u where "x = Inr u" by (cases x) auto
  with delete_ok [OF inv1] x view1 show ?thesis by (auto simp: compensate_def)
qed

lemma submit_Err_clean:
  assumes "inv w" "body_ok (si_body input)" "submit_execute P i input w = (Inl e, w')"
  shows "view w' = view w"
  using assms
proof (cases rule: submit_split)
  case (aborted e' v)
  then obtain row where v: "v = (view w)\<lparr>v_rows := (v_rows (view w))(i \<mapsto> row)\<rparr>" by blast
  have "clean_puts" unfolding clean_puts_def using put_reliable by blast
  with aborted(2) obtain w2 refs v2 where a: "w' = compensate P i refs w2" "inv w2" "wrote v refs v2" "view w2 = v2"
    unfolding aborted_def by fastforce
  have same: "v_jobs v2 = v_jobs (view w)" "v_events v2 = v_events (view w)"
    using wrote_rows [OF a(3)] v by simp_all
  have free: "i \<notin> set (v_jobs (view w2))" "i \<notin> fst ` set (v_events (view w2))"
    using integrity [OF assms(1)] aborted(3) same a(4) by auto
  have "view w' = v2\<lparr>v_rows := (v_rows v2)(i := None), v_blobs := without (ar_blob ` set refs) (v_blobs v2)\<rparr>"
    using compensate_reliable [OF a(2) wrote_own [OF a(3)] free] a(1,4) by simp
  also have "without (ar_blob ` set refs) (v_blobs v2) = v_blobs v" by (rule wrote_undo [OF a(3)])
  also have "(v_rows v2)(i := None) = v_rows (view w)"
    using wrote_rows [OF a(3)] aborted(3) v by (auto simp: fun_eq_iff)
  finally show ?thesis using a(3) v by (auto simp: wrote_def)
qed simp_all

end

end
