(* ===== verification/ProcessEmail.thy ===== *)
theory ProcessEmail
  imports Ports
begin

text \<open>
  The use case that delivers one queued email (\<open>domain/src/use_case/process_queued_email.rs\<close>) and the
  readiness use case (\<open>check_readiness.rs\<close>).  The resolver, renderer, sender and attachment store are
  the fields of \<open>process_ports\<close>; the interpolator is pure in the code and here.

  The properties compare the use case, run on ports that record what they are asked, with a pure
  pipeline: the email that reaches the sender, and every way of not reaching it.
\<close>

section \<open>Errors\<close>

datatype process_error =
    ProcResolve resolve_error
  | ProcInterpolate interpolate_error
  | ProcRender render_error
  | ProcSend send_error
  | ProcAttachment attachment_store_error
  | ProcAttachmentRead anyhow

fun process_error_sender_name :: "process_error \<Rightarrow> sender_name option" where
  "process_error_sender_name (ProcSend e) = send_error_sender_name e"
| "process_error_sender_name _ = None"

fun process_error_class :: "process_error \<Rightarrow> error_class" where
  "process_error_class (ProcResolve e) = TemplateResolve"
| "process_error_class (ProcInterpolate e) = TemplateInterpolate"
| "process_error_class (ProcRender e) = TemplateRender"
| "process_error_class (ProcAttachment e) = AttachmentClass"
| "process_error_class (ProcAttachmentRead e) = AttachmentClass"
| "process_error_class (ProcSend (SendFailed n e)) = Delivery"
| "process_error_class (ProcSend (NoMatchingRoute d)) = Routing"

fun resolve_error_message :: "resolve_error \<Rightarrow> string" where
  "resolve_error_message (TemplateNotFound n) = ''template '' @ debug_str n @ '' not found''"
| "resolve_error_message (TemplateDomainNotAllowed u) = ''domain not allowed for remote template: '' @ debug_str u"
| "resolve_error_message (TemplateFetch u e) = ''failed to fetch template from '' @ debug_str u"

fun send_error_message :: "send_error \<Rightarrow> string" where
  "send_error_message (SendFailed n e) = ''email send failed''"
| "send_error_message (NoMatchingRoute d) = ''no route matches sender domain '' @ debug_str d"

fun process_error_message :: "process_error \<Rightarrow> string" where
  "process_error_message (ProcResolve e) = resolve_error_message e"
| "process_error_message (ProcInterpolate e) = ''interpolation engine error''"
| "process_error_message (ProcRender e) = ''mjml render error''"
| "process_error_message (ProcSend e) = send_error_message e"
| "process_error_message (ProcAttachment e) = ''attachment resolve failed''"
| "process_error_message (ProcAttachmentRead e) = ''attachment resolve failed''"

section \<open>The use case\<close>

record 'w process_ports =
  pp_resolve :: "body_source \<Rightarrow> 'w \<Rightarrow> (resolve_error + resolved_body) \<times> 'w"
  pp_interpolate :: "resolved_body \<Rightarrow> variables \<Rightarrow> interpolate_error + interpolated_body"
  pp_render :: "interpolated_body \<Rightarrow> 'w \<Rightarrow> (render_error + rendered_body) \<times> 'w"
  pp_send :: "outbound_email \<Rightarrow> 'w \<Rightarrow> (send_error + sender_name) \<times> 'w"
  pp_get :: "blob_ref \<Rightarrow> 'w \<Rightarrow> (attachment_store_error + reader) \<times> 'w"

fun resolve_attachments ::
    "(blob_ref \<Rightarrow> 'w \<Rightarrow> (attachment_store_error + reader) \<times> 'w) \<Rightarrow> attachment_ref list \<Rightarrow>
     resolved_attachment list \<Rightarrow> 'w \<Rightarrow> (process_error + resolved_attachment list) \<times> 'w" where
  "resolve_attachments get [] acc w = (Ok acc, w)"
| "resolve_attachments get (att # atts) acc w =
     (case get (ar_blob att) w of
        (Inl e, w') \<Rightarrow> (Err (ProcAttachment e), w')
      | (Inr rd, w') \<Rightarrow>
          (case read_to_end rd of
             Inl e \<Rightarrow> (Err (ProcAttachmentRead e), w')
           | Inr buf \<Rightarrow>
               resolve_attachments get atts
                 (acc @ [\<lparr>ra_filename = ar_filename att, ra_content_type = ar_content_type att, ra_bytes = buf\<rparr>]) w'))"

definition outbound_of :: "envelope \<Rightarrow> rendered_body \<Rightarrow> resolved_attachment list \<Rightarrow> outbound_email" where
  "outbound_of env body atts =
     \<lparr>oe_sender = env_sender env, oe_subject = env_subject env, oe_recipients = env_recipients env,
      oe_body = body, oe_attachments = atts\<rparr>"

definition process_execute :: "('w, 'x) process_ports_scheme \<Rightarrow> envelope \<Rightarrow> 'w \<Rightarrow> (process_error + sender_name) \<times> 'w" where
  "process_execute P env =
     and_then (map_err_st ProcResolve (pp_resolve P (env_body env))) (\<lambda>resolved.
     and_then (\<lambda>w. (map_err ProcInterpolate (pp_interpolate P resolved (env_variables env)), w)) (\<lambda>interpolated.
     and_then (map_err_st ProcRender (pp_render P interpolated)) (\<lambda>rendered.
     and_then (resolve_attachments (pp_get P) (env_attachments env) []) (\<lambda>atts.
     map_err_st ProcSend (pp_send P (outbound_of env rendered atts))))))"

datatype readiness = Ready | NotReady

definition check_readiness :: "('w \<Rightarrow> (health_check_error + unit) \<times> 'w) \<Rightarrow> 'w \<Rightarrow> readiness \<times> 'w" where
  "check_readiness chk w = (case chk w of (Inr _, w') \<Rightarrow> (Ready, w') | (Inl _, w') \<Rightarrow> (NotReady, w'))"

section \<open>The pipeline as a pure function\<close>

definition read_attachment :: "(blob_ref \<Rightarrow> attachment_store_error + reader) \<Rightarrow> attachment_ref \<Rightarrow> process_error + resolved_attachment" where
  "read_attachment get att =
     (case get (ar_blob att) of
        Inl e \<Rightarrow> Err (ProcAttachment e)
      | Inr rd \<Rightarrow>
          (case read_to_end rd of
             Inl e \<Rightarrow> Err (ProcAttachmentRead e)
           | Inr buf \<Rightarrow> Ok \<lparr>ra_filename = ar_filename att, ra_content_type = ar_content_type att, ra_bytes = buf\<rparr>))"

text \<open>The message to send, when the four stages before the sender succeed.\<close>

definition prepared ::
    "(body_source \<Rightarrow> resolve_error + resolved_body) \<Rightarrow> (resolved_body \<Rightarrow> variables \<Rightarrow> interpolate_error + interpolated_body) \<Rightarrow>
     (interpolated_body \<Rightarrow> render_error + rendered_body) \<Rightarrow> (blob_ref \<Rightarrow> attachment_store_error + reader) \<Rightarrow>
     envelope \<Rightarrow> process_error + outbound_email" where
  "prepared res itp ren get env =
     bind_sum (map_err ProcResolve (res (env_body env))) (\<lambda>resolved.
     bind_sum (map_err ProcInterpolate (itp resolved (env_variables env))) (\<lambda>interpolated.
     bind_sum (map_err ProcRender (ren interpolated)) (\<lambda>rendered.
     map_ok (outbound_of env rendered) (collect_results (read_attachment get) (env_attachments env)))))"

text \<open>Ports that answer by given functions and record the messages handed to the sender.\<close>

definition recording_ports ::
    "(body_source \<Rightarrow> resolve_error + resolved_body) \<Rightarrow> (resolved_body \<Rightarrow> variables \<Rightarrow> interpolate_error + interpolated_body) \<Rightarrow>
     (interpolated_body \<Rightarrow> render_error + rendered_body) \<Rightarrow> (blob_ref \<Rightarrow> attachment_store_error + reader) \<Rightarrow>
     (outbound_email \<Rightarrow> send_error + sender_name) \<Rightarrow> outbound_email list process_ports" where
  "recording_ports res itp ren get snd_fn =
     \<lparr>pp_resolve = (\<lambda>b w. (res b, w)), pp_interpolate = itp, pp_render = (\<lambda>b w. (ren b, w)),
      pp_send = (\<lambda>m w. (snd_fn m, w @ [m])), pp_get = (\<lambda>b w. (get b, w))\<rparr>"

lemma resolve_attachments_pure:
  "resolve_attachments (\<lambda>b w. (get b, w)) atts acc w =
     (map_ok ((@) acc) (collect_results (read_attachment get) atts), w)"
proof (induction atts arbitrary: acc)
  case (Cons att atts)
  show ?case
  proof (cases "read_attachment get att")
    case (Inl e)
    then show ?thesis by (auto simp: read_attachment_def split: sum.splits)
  next
    case (Inr a)
    then have "resolve_attachments (\<lambda>b w. (get b, w)) (att # atts) acc w =
        resolve_attachments (\<lambda>b w. (get b, w)) atts (acc @ [a]) w"
      by (auto simp: read_attachment_def split: sum.splits)
    with Inr show ?thesis by (cases "collect_results (read_attachment get) atts") (simp_all add: Cons.IH)
  qed
qed simp

lemma process_recorded:
  "process_execute (recording_ports res itp ren get snd_fn) env sent =
     (case prepared res itp ren get env of
        Inl e \<Rightarrow> (Inl e, sent)
      | Inr m \<Rightarrow> (map_err ProcSend (snd_fn m), sent @ [m]))"
proof (cases "res (env_body env)")
  case (Inr resolved)
  note 1 = Inr
  show ?thesis
  proof (cases "itp resolved (env_variables env)")
    case (Inr interpolated)
    note 2 = Inr
    show ?thesis
    proof (cases "ren interpolated")
      case (Inr rendered)
      note 3 = Inr
      show ?thesis
        by (cases "collect_results (read_attachment get) (env_attachments env)")
          (simp_all add: process_execute_def recording_ports_def and_then_def map_err_st_def prepared_def bind_sum_def 1 2 3
            resolve_attachments_pure)
    qed (simp add: process_execute_def recording_ports_def and_then_def map_err_st_def prepared_def bind_sum_def 1 2)
  qed (simp add: process_execute_def recording_ports_def and_then_def map_err_st_def prepared_def bind_sum_def 1)
qed (simp add: process_execute_def recording_ports_def and_then_def map_err_st_def prepared_def bind_sum_def)

lemma prepared_Inr:
  "prepared res itp ren get env = Inr m \<longleftrightarrow>
     (\<exists>resolved interpolated rendered atts. res (env_body env) = Inr resolved \<and>
        itp resolved (env_variables env) = Inr interpolated \<and> ren interpolated = Inr rendered \<and>
        list_all2 (\<lambda>r a. read_attachment get r = Inr a) (env_attachments env) atts \<and> m = outbound_of env rendered atts)"
  by (auto simp: prepared_def bind_sum_def map_ok_eq_Inr collect_results_Inr split: sum.splits)

lemma read_attachment_Inr:
  "read_attachment get r = Inr a \<longleftrightarrow>
     (\<exists>rd. get (ar_blob r) = Inr rd \<and> read_to_end rd = Inr (ra_bytes a)) \<and>
     ra_filename a = ar_filename r \<and> ra_content_type a = ar_content_type r"
  by (cases a) (auto simp: read_attachment_def split: sum.splits)

lemma prepared_not_send: "prepared res itp ren get env \<noteq> Inl (ProcSend s)"
  by (auto simp: prepared_def bind_sum_def map_err_eq_Inl collect_results_Inl read_attachment_def split: sum.splits)

section \<open>Properties\<close>

text \<open>C12: Delivering a queued email hands the sender at most one message, and only when the template was resolved,
  interpolated and rendered and every attachment was read in full; that message carries the envelope's
  sender, subject and recipients, the rendered body and the attachments' bytes in order.  The result is the sender's
  answer, and every earlier failure is reported with its own class and no sender.\<close>

theorem process_delivers:
  "let (r, sent) = process_execute (recording_ports res itp ren get snd_fn) env [] in
     (case prepared res itp ren get env of
        Inr m \<Rightarrow> sent = [m] \<and> r = map_err ProcSend (snd_fn m) \<and>
          oe_sender m = env_sender env \<and> oe_subject m = env_subject env \<and> oe_recipients m = env_recipients env \<and>
          map ra_filename (oe_attachments m) = map ar_filename (env_attachments env) \<and>
          list_all2 (\<lambda>a ref. \<exists>rd. get (ar_blob ref) = Inr rd \<and> read_to_end rd = Inr (ra_bytes a))
            (oe_attachments m) (env_attachments env)
      | Inl e \<Rightarrow> sent = [] \<and> r = Inl e \<and> process_error_sender_name e = None \<and>
          process_error_class e \<in> {TemplateResolve, TemplateInterpolate, TemplateRender, AttachmentClass})"
proof (cases "prepared res itp ren get env")
  case (Inl e)
  have "e \<noteq> ProcSend s" for s using prepared_not_send Inl by blast
  then have "process_error_sender_name e = None \<and>
      process_error_class e \<in> {TemplateResolve, TemplateInterpolate, TemplateRender, AttachmentClass}"
    by (cases e) auto
  with Inl show ?thesis by (simp add: process_recorded)
next
  case (Inr m)
  then obtain rendered atts where m: "m = outbound_of env rendered atts"
    and atts: "list_all2 (\<lambda>r a. read_attachment get r = Inr a) (env_attachments env) atts"
    by (auto simp: prepared_Inr)
  have "list_all2 (\<lambda>a ref. \<exists>rd. get (ar_blob ref) = Inr rd \<and> read_to_end rd = Inr (ra_bytes a)) atts (env_attachments env)"
    using atts by (simp add: list_all2_conv_all_nth read_attachment_Inr)
  moreover have "map ra_filename atts = map ar_filename (env_attachments env)"
    using atts by (induction rule: list_all2_induct) (auto simp: read_attachment_Inr)
  ultimately show ?thesis
    using Inr m by (simp add: process_recorded outbound_of_def)
qed

end
