(* ===== verification/Worker.thy ===== *)
theory Worker
  imports ProcessEmail
begin

text \<open>
  The queue worker (\<open>adapter/inbound-worker/src/worker.rs\<close>): its configuration, the backoff, the
  handling of one dequeued email, and the run loop with its semaphore and graceful drain.

  \<open>process_one\<close> runs on any world through \<open>worker_ports\<close>.  The run loop is a step relation at the
  granularity of one \<open>select!\<close> branch; a spawned task is one step that runs \<open>process_one\<close>, so tasks
  interleave with the loop and with each other in any order.
\<close>

section \<open>Configuration and backoff\<close>

definition max_attempts :: nat where
  "max_attempts = 3"

record worker_config =
  wc_concurrency :: nat

definition worker_config_default :: worker_config where
  "worker_config_default = \<lparr>wc_concurrency = 1\<rparr>"

definition worker_config_from_env :: "(string \<Rightarrow> env_var) \<Rightarrow> string \<Rightarrow> anyhow + worker_config" where
  "worker_config_from_env env prefix =
     (let key = prefix @ ''_CONCURRENCY'' in
      case (case env key of
              NotPresent \<Rightarrow> Ok 1
            | NotUnicode \<Rightarrow> Err (''reading '' @ key)
            | Present v \<Rightarrow> ok_or (''invalid '' @ key @ '': '' @ debug_str v) (parse_uint u64_max v)) of
        Inl e \<Rightarrow> Err e
      | Inr n \<Rightarrow> if n = 0 then Err (key @ '' must be at least 1 (got 0)'') else Ok \<lparr>wc_concurrency = n\<rparr>)"

lemma worker_config_positive: "worker_config_from_env env prefix = Inr c \<Longrightarrow> 1 \<le> wc_concurrency c"
  by (auto simp: worker_config_from_env_def Let_def split: sum.splits if_splits)

text \<open>\<open>30u64 * (1u64 << (attempt - 1))\<close> in seconds, checked: \<open>None\<close> is the overflow that panics in a debug build.\<close>

definition backoff :: "nat \<Rightarrow> nat option" where
  "backoff attempt =
     (let shift = attempt - 1 in
      if 64 \<le> shift then None
      else if u64_max < 30 * 2 ^ shift then None
      else Some (min (30 * 2 ^ shift) 3600))"

lemma backoff_some: "attempt \<le> 60 \<Longrightarrow> backoff attempt = Some (min (30 * 2 ^ (attempt - 1)) 3600)"
proof -
  assume "attempt \<le> 60"
  then have "(2::nat) ^ (attempt - 1) \<le> 2 ^ 59" by (intro power_increasing) auto
  then have "30 * (2::nat) ^ (attempt - 1) \<le> u64_max" by (simp add: u64_max_def)
  with \<open>attempt \<le> 60\<close> show ?thesis by (simp add: backoff_def Let_def)
qed

lemma backoff_none: "61 \<le> attempt \<Longrightarrow> backoff attempt = None"
proof -
  assume "61 \<le> attempt"
  then have "(2::nat) ^ 60 \<le> 2 ^ (attempt - 1)" by (intro power_increasing) auto
  then have "u64_max < 30 * (2::nat) ^ (attempt - 1)" by (simp add: u64_max_def)
  then show ?thesis by (simp add: backoff_def Let_def)
qed

section \<open>One email\<close>

record 'w worker_ports =
  wk_publish :: "lifecycle_event \<Rightarrow> 'w \<Rightarrow> (event_publisher_error + unit) \<times> 'w"
  wk_process :: "envelope \<Rightarrow> 'w \<Rightarrow> (process_error + sender_name) \<times> 'w"
  wk_ack :: "ack_token \<Rightarrow> 'w \<Rightarrow> (email_queue_error + unit) \<times> 'w"
  wk_nack :: "ack_token \<Rightarrow> nat \<Rightarrow> 'w \<Rightarrow> (email_queue_error + unit) \<times> 'w"
  wk_set_attachments :: "email_id \<Rightarrow> attachment_ref list \<Rightarrow> 'w \<Rightarrow> (email_repository_error + unit) \<times> 'w"
  wk_delete_blob :: "blob_ref \<Rightarrow> 'w \<Rightarrow> (attachment_store_error + unit) \<times> 'w"

fun delete_sent_blobs :: "('w, 'x) worker_ports_scheme \<Rightarrow> attachment_ref list \<Rightarrow> 'w \<Rightarrow> 'w" where
  "delete_sent_blobs P [] w = w"
| "delete_sent_blobs P (a # as) w = delete_sent_blobs P as (snd (wk_delete_blob P (ar_blob a) w))"

definition is_terminal :: "process_error \<Rightarrow> nat \<Rightarrow> bool" where
  "is_terminal e attempt \<longleftrightarrow>
     (case e of ProcSend s \<Rightarrow> \<not> send_error_is_transient s | _ \<Rightarrow> False) \<or> max_attempts \<le> attempt"

text \<open>Delays are handed to the queue in milliseconds.  A task that panics in \<open>backoff\<close> ends there.\<close>

definition process_one :: "('w, 'x) worker_ports_scheme \<Rightarrow> email_id \<Rightarrow> envelope \<Rightarrow> nat \<Rightarrow> ack_token \<Rightarrow> 'w \<Rightarrow> 'w" where
  "process_one P i env attempt token w =
     (let cid = env_correlation_id env;
          w1 = snd (wk_publish P (Sending i attempt cid) w) in
      case wk_process P env w1 of
        (Inr n, w2) \<Rightarrow>
          (case wk_ack P token w2 of
             (Inl _, w3) \<Rightarrow> w3
           | (Inr _, w3) \<Rightarrow>
               (let w4 = snd (wk_set_attachments P i [] w3);
                    w5 = delete_sent_blobs P (env_attachments env) w4
                in snd (wk_publish P (Sent i n cid) w5)))
      | (Inl e, w2) \<Rightarrow>
          (let reason = process_error_message e; cls = process_error_class e; sender = process_error_sender_name e in
           if is_terminal e attempt then
             (case wk_ack P token w2 of
                (Inl _, w3) \<Rightarrow> w3
              | (Inr _, w3) \<Rightarrow> snd (wk_publish P (Failed i attempt reason cls sender cid) w3))
           else
             (case backoff attempt of
                None \<Rightarrow> w2
              | Some secs \<Rightarrow>
                  (case wk_nack P token (1000 * secs) w2 of
                     (Inl _, w3) \<Rightarrow> w3
                   | (Inr _, w3) \<Rightarrow> snd (wk_publish P (Retrying i attempt reason cls sender cid) w3)))))"

section \<open>The run loop\<close>

datatype worker_phase = Acquiring | Dequeuing | BackingOff | Draining | Stopped

record 'w worker_state =
  ws_permits :: nat
  ws_tasks :: "dequeued_email list"
  ws_phase :: worker_phase
  ws_cancelled :: bool
  ws_world :: 'w

definition worker_start :: "worker_config \<Rightarrow> 'w \<Rightarrow> 'w worker_state" where
  "worker_start cfg w =
     \<lparr>ws_permits = wc_concurrency cfg, ws_tasks = [], ws_phase = Acquiring, ws_cancelled = False, ws_world = w\<rparr>"

text \<open>\<open>deq\<close> answers \<open>None\<close> while the queue is empty.  Every \<open>select!\<close> is biased: once cancelled, the loop takes
  the cancel branch.\<close>

inductive worker_step ::
    "('w, 'x) worker_ports_scheme \<Rightarrow> ('w \<Rightarrow> (email_queue_error + dequeued_email) option \<times> 'w) \<Rightarrow>
     'w worker_state \<Rightarrow> 'w worker_state \<Rightarrow> bool" for P deq where
  acquire: "ws_phase s = Acquiring \<Longrightarrow> \<not> ws_cancelled s \<Longrightarrow> 0 < ws_permits s \<Longrightarrow>
    worker_step P deq s (s\<lparr>ws_permits := ws_permits s - 1, ws_phase := Dequeuing\<rparr>)"
| acquire_cancelled: "ws_phase s = Acquiring \<Longrightarrow> ws_cancelled s \<Longrightarrow> worker_step P deq s (s\<lparr>ws_phase := Draining\<rparr>)"
| dequeued: "ws_phase s = Dequeuing \<Longrightarrow> \<not> ws_cancelled s \<Longrightarrow> deq (ws_world s) = (Some (Inr item), w) \<Longrightarrow>
    worker_step P deq s (s\<lparr>ws_tasks := ws_tasks s @ [item], ws_phase := Acquiring, ws_world := w\<rparr>)"
| dequeue_failed: "ws_phase s = Dequeuing \<Longrightarrow> \<not> ws_cancelled s \<Longrightarrow> deq (ws_world s) = (Some (Inl e), w) \<Longrightarrow>
    worker_step P deq s (s\<lparr>ws_permits := ws_permits s + 1, ws_phase := BackingOff, ws_world := w\<rparr>)"
| dequeue_cancelled: "ws_phase s = Dequeuing \<Longrightarrow> ws_cancelled s \<Longrightarrow>
    worker_step P deq s (s\<lparr>ws_permits := ws_permits s + 1, ws_phase := Draining\<rparr>)"
| slept: "ws_phase s = BackingOff \<Longrightarrow> \<not> ws_cancelled s \<Longrightarrow> worker_step P deq s (s\<lparr>ws_phase := Acquiring\<rparr>)"
| sleep_cancelled: "ws_phase s = BackingOff \<Longrightarrow> ws_cancelled s \<Longrightarrow> worker_step P deq s (s\<lparr>ws_phase := Draining\<rparr>)"
| task_done: "ws_phase s \<noteq> Stopped \<Longrightarrow> ws_tasks s = pre @ t # post \<Longrightarrow>
    worker_step P deq s (s\<lparr>ws_tasks := pre @ post, ws_permits := ws_permits s + 1,
      ws_world := process_one P (dq_id t) (dq_envelope t) (dq_attempt t) (dq_token t) (ws_world s)\<rparr>)"
| drained: "ws_phase s = Draining \<Longrightarrow> ws_tasks s = [] \<Longrightarrow> worker_step P deq s (s\<lparr>ws_phase := Stopped\<rparr>)"

text \<open>What happens around the worker: the token is cancelled, other parties change the world.\<close>

inductive worker_env :: "'w worker_state \<Rightarrow> 'w worker_state \<Rightarrow> bool" where
  cancel: "worker_env s (s\<lparr>ws_cancelled := True\<rparr>)"
| others: "worker_env s (s\<lparr>ws_world := w\<rparr>)"

inductive_cases worker_stepE: "worker_step P deq s s'"
inductive_cases worker_envE: "worker_env s s'"

definition worker_any :: "('w, 'x) worker_ports_scheme \<Rightarrow> ('w \<Rightarrow> (email_queue_error + dequeued_email) option \<times> 'w) \<Rightarrow>
    'w worker_state \<Rightarrow> 'w worker_state \<Rightarrow> bool" where
  "worker_any P deq s s' \<longleftrightarrow> worker_step P deq s s' \<or> worker_env s s'"

definition worker_inv :: "nat \<Rightarrow> 'w worker_state \<Rightarrow> bool" where
  "worker_inv c s \<longleftrightarrow>
     ws_permits s + length (ws_tasks s) + (if ws_phase s = Dequeuing then 1 else 0) = c \<and>
     (ws_phase s = Stopped \<longrightarrow> ws_tasks s = []) \<and>
     (ws_phase s \<in> {Draining, Stopped} \<longrightarrow> ws_cancelled s)"

lemma worker_inv_start: "worker_inv (wc_concurrency cfg) (worker_start cfg w)"
  by (simp add: worker_inv_def worker_start_def)

lemma worker_inv_step: "worker_any P deq s s' \<Longrightarrow> worker_inv c s \<Longrightarrow> worker_inv c s'"
  unfolding worker_any_def
  by (auto simp: worker_inv_def elim!: worker_stepE worker_envE split: if_splits)

lemma worker_inv_reach:
  "(worker_any P deq)\<^sup>*\<^sup>* (worker_start cfg w) s \<Longrightarrow> worker_inv (wc_concurrency cfg) s"
  by (induction rule: rtranclp_induct) (auto intro: worker_inv_start worker_inv_step)

text \<open>After cancellation every step of the worker brings it closer to stopping.\<close>

fun phase_rank :: "worker_phase \<Rightarrow> nat" where
  "phase_rank Stopped = 0"
| "phase_rank Draining = 1"
| "phase_rank _ = 2"

definition drain_measure :: "'w worker_state \<Rightarrow> nat" where
  "drain_measure s = length (ws_tasks s) + phase_rank (ws_phase s)"

lemma drain_step:
  "worker_step P deq s s' \<Longrightarrow> ws_cancelled s \<Longrightarrow>
     ws_cancelled s' \<and> drain_measure s' < drain_measure s \<and> set (ws_tasks s') \<subseteq> set (ws_tasks s)"
  by (auto simp: drain_measure_def elim!: worker_stepE)

lemma drain_progress: "ws_cancelled s \<Longrightarrow> ws_phase s \<noteq> Stopped \<Longrightarrow> \<exists>s'. worker_step P deq s s'"
proof (cases "ws_phase s")
  case Draining
  then show ?thesis
  proof (cases "ws_tasks s")
    case (Cons t ts)
    then have "ws_tasks s = [] @ t # ts" by simp
    with Draining worker_step.task_done [of s "[]" t ts P deq] show ?thesis by auto
  qed (auto intro: worker_step.drained)
qed (auto intro: worker_step.intros)

section \<open>The worker's calls\<close>

datatype worker_call =
    CallPublish lifecycle_event
  | CallProcess envelope
  | CallAck ack_token
  | CallNack ack_token nat
  | CallSetAttachments email_id "attachment_ref list"
  | CallDelete blob_ref

text \<open>Outcomes of the ports, each allowed to depend on every call made before.\<close>

record worker_outcomes =
  wo_publish :: "lifecycle_event \<Rightarrow> worker_call list \<Rightarrow> event_publisher_error + unit"
  wo_process :: "envelope \<Rightarrow> worker_call list \<Rightarrow> process_error + sender_name"
  wo_ack :: "ack_token \<Rightarrow> worker_call list \<Rightarrow> email_queue_error + unit"
  wo_nack :: "ack_token \<Rightarrow> nat \<Rightarrow> worker_call list \<Rightarrow> email_queue_error + unit"
  wo_set :: "email_id \<Rightarrow> attachment_ref list \<Rightarrow> worker_call list \<Rightarrow> email_repository_error + unit"
  wo_delete :: "blob_ref \<Rightarrow> worker_call list \<Rightarrow> attachment_store_error + unit"

definition recording_worker :: "worker_outcomes \<Rightarrow> worker_call list worker_ports" where
  "recording_worker R =
     \<lparr>wk_publish = (\<lambda>e l. (wo_publish R e l, l @ [CallPublish e])),
      wk_process = (\<lambda>e l. (wo_process R e l, l @ [CallProcess e])),
      wk_ack = (\<lambda>t l. (wo_ack R t l, l @ [CallAck t])),
      wk_nack = (\<lambda>t d l. (wo_nack R t d l, l @ [CallNack t d])),
      wk_set_attachments = (\<lambda>i rs l. (wo_set R i rs l, l @ [CallSetAttachments i rs])),
      wk_delete_blob = (\<lambda>b l. (wo_delete R b l, l @ [CallDelete b]))\<rparr>"

lemma delete_sent_blobs_recorded:
  "delete_sent_blobs (recording_worker R) as l = l @ map (\<lambda>a. CallDelete (ar_blob a)) as"
  by (induction as arbitrary: l) (auto simp: recording_worker_def)

text \<open>How an attempt is settled with the queue, and what follows when the queue accepted it.\<close>

definition retry_delay_ms :: "nat \<Rightarrow> nat" where
  "retry_delay_ms attempt = 1000 * min (30 * 2 ^ (attempt - 1)) 3600"

definition settlement :: "process_error + sender_name \<Rightarrow> nat \<Rightarrow> ack_token \<Rightarrow> worker_call" where
  "settlement r attempt token =
     (case r of
        Inr _ \<Rightarrow> CallAck token
      | Inl e \<Rightarrow> if is_terminal e attempt then CallAck token else CallNack token (retry_delay_ms attempt))"

definition settled :: "worker_outcomes \<Rightarrow> worker_call \<Rightarrow> worker_call list \<Rightarrow> bool" where
  "settled R c l \<longleftrightarrow>
     (case c of CallAck t \<Rightarrow> is_ok (wo_ack R t l) | CallNack t d \<Rightarrow> is_ok (wo_nack R t d l) | _ \<Rightarrow> False)"

definition follow_up :: "process_error + sender_name \<Rightarrow> email_id \<Rightarrow> envelope \<Rightarrow> nat \<Rightarrow> worker_call list" where
  "follow_up r i env attempt =
     (case r of
        Inr n \<Rightarrow> CallSetAttachments i [] # map (\<lambda>a. CallDelete (ar_blob a)) (env_attachments env) @
          [CallPublish (Sent i n (env_correlation_id env))]
      | Inl e \<Rightarrow> [CallPublish ((if is_terminal e attempt then Failed else Retrying) i attempt (process_error_message e)
          (process_error_class e) (process_error_sender_name e) (env_correlation_id env))])"

lemma process_one_recorded:
  "process_one (recording_worker R) i env attempt token [] =
     (let start = [CallPublish (Sending i attempt (env_correlation_id env)), CallProcess env];
          r = wo_process R env (take 1 start); c = settlement r attempt token
      in start @ [c] @ (if settled R c start then follow_up r i env attempt else []))"
proof -
  have bo: "backoff attempt = Some (min (30 * 2 ^ (attempt - 1)) 3600)" if "\<not> max_attempts \<le> attempt"
    using that by (intro backoff_some) (simp add: max_attempts_def)
  show ?thesis
    by (auto simp: process_one_def Let_def recording_worker_def settlement_def settled_def follow_up_def
        delete_sent_blobs_recorded [unfolded recording_worker_def] retry_delay_ms_def bo is_terminal_def
        split: sum.splits process_error.splits)
qed

section \<open>Properties\<close>

text \<open>The backoff is \<open>30 s\<close> doubled with every attempt and capped at an hour, it never shrinks, and it is defined
  for every attempt the worker can reach; the arithmetic would overflow from attempt 61 on.\<close>

theorem backoff_exact:
  "(backoff a = None \<longleftrightarrow> 61 \<le> a) \<and>
   (\<forall>d. backoff a = Some d \<longrightarrow> d = min (30 * 2 ^ (a - 1)) 3600 \<and> 30 \<le> d \<and> d \<le> 3600) \<and>
   (\<forall>b d d'. a \<le> b \<longrightarrow> backoff a = Some d \<longrightarrow> backoff b = Some d' \<longrightarrow> d \<le> d')"
proof -
  have none: "backoff x = None \<longleftrightarrow> 61 \<le> x" for x
    using backoff_some [of x] backoff_none [of x] by (cases "x \<le> 60") auto
  have some: "d = min (30 * 2 ^ (x - 1)) 3600" if "backoff x = Some d" for x d
  proof -
    have "\<not> 61 \<le> x" using none [of x] that by simp
    then have "x \<le> 60" by simp
    with backoff_some [of x] that show ?thesis by simp
  qed
  have "30 \<le> d \<and> d \<le> 3600" if "backoff a = Some d" for d
    using some [OF that] by simp
  moreover have "d \<le> d'" if "a \<le> b" "backoff a = Some d" "backoff b = Some d'" for b d d'
  proof -
    have "(2::nat) ^ (a - 1) \<le> 2 ^ (b - 1)" using that(1) by (intro power_increasing) auto
    then have "min (30 * (2::nat) ^ (a - 1)) 3600 \<le> min (30 * 2 ^ (b - 1)) 3600"
      by (intro min.mono mult_le_mono2 order_refl)
    then show ?thesis using some [OF that(2)] some [OF that(3)] by simp
  qed
  ultimately show ?thesis using none some by blast
qed

theorem backoff_exact_witness: "backoff 1 = Some 30 \<and> backoff 2 = Some 60 \<and> (30::nat) \<le> 60"
proof -
  have "backoff 1 = Some 30" "backoff 2 = Some 60" by (simp_all add: backoff_some)
  with backoff_exact [of 1] show ?thesis by auto
qed


text \<open>C8: Handling one dequeued email settles it exactly once with the queue, after the delivery attempt and whatever
  the other ports answer: acknowledged when it was sent or finally failed, otherwise rescheduled with the
  attempt's delay.  Attachments are cleared and their blobs deleted, and the final event is published, only once the
  queue accepted the settlement.\<close>

theorem worker_settles_once:
  "process_one (recording_worker R) i env attempt token [] =
     (let start = [CallPublish (Sending i attempt (env_correlation_id env)), CallProcess env];
          r = wo_process R env (take 1 start); c = settlement r attempt token
      in start @ [c] @ (if settled R c start then follow_up r i env attempt else []))"
  by (rule process_one_recorded)

text \<open>C9: Retries are bounded: a failed attempt is rescheduled only for the first two attempts and only for an error that
  can pass, after 30 and 60 seconds; from the third attempt on, and at once when no route matches, it is
  acknowledged as failed.\<close>

theorem worker_retry_bound:
  "CallNack token d \<in> set (process_one (recording_worker R) i env attempt token []) \<longleftrightarrow>
     (\<exists>e. wo_process R env [CallPublish (Sending i attempt (env_correlation_id env))] = Inl e \<and>
        attempt < 3 \<and> (\<forall>dom. e \<noteq> ProcSend (NoMatchingRoute dom)) \<and>
        d = (if attempt = 2 then 60000 else 30000))"
proof -
  have final: "is_terminal e attempt \<longleftrightarrow> 3 \<le> attempt \<or> (\<exists>dom. e = ProcSend (NoMatchingRoute dom))" for e
    by (auto simp: is_terminal_def max_attempts_def split: process_error.splits)
      (metis send_error.exhaust send_error_is_transient.simps(1))
  have delay: "retry_delay_ms attempt = (if attempt = 2 then 60000 else 30000)" if "attempt < 3"
  proof -
    from that consider "attempt = 0" | "attempt = 1" | "attempt = 2" by linarith
    then show ?thesis by cases (simp_all add: retry_delay_ms_def)
  qed
  have follow: "CallNack token d \<notin> set (follow_up r i env attempt)" for r
    by (auto simp: follow_up_def split: sum.splits)
  let ?r = "wo_process R env [CallPublish (Sending i attempt (env_correlation_id env))]"
  have "CallNack token d \<in> set (process_one (recording_worker R) i env attempt token []) \<longleftrightarrow>
      settlement ?r attempt token = CallNack token d"
    unfolding process_one_recorded Let_def using follow by auto
  also have "\<dots> \<longleftrightarrow> (\<exists>e. ?r = Inl e \<and> \<not> is_terminal e attempt \<and> d = retry_delay_ms attempt)"
    by (auto simp: settlement_def split: sum.splits)
  also have "\<dots> \<longleftrightarrow> (\<exists>e. ?r = Inl e \<and> attempt < 3 \<and> (\<forall>dom. e \<noteq> ProcSend (NoMatchingRoute dom)) \<and>
      d = (if attempt = 2 then 60000 else 30000))"
    unfolding final using delay by auto
  finally show ?thesis .
qed

text \<open>C18: Concurrency is bounded and permits are conserved: in every reachable state the number of tasks in flight never
  exceeds the configured concurrency, each holds one permit, and a stopped worker was cancelled and has no task left.\<close>

theorem worker_bounded:
  assumes "(worker_any P deq)\<^sup>*\<^sup>* (worker_start cfg w) s"
  shows "length (ws_tasks s) \<le> wc_concurrency cfg \<and>
    ws_permits s + length (ws_tasks s) + (if ws_phase s = Dequeuing then 1 else 0) = wc_concurrency cfg \<and>
    (ws_phase s = Stopped \<longrightarrow> ws_cancelled s \<and> ws_tasks s = [])"
  using worker_inv_reach [OF assms] by (auto simp: worker_inv_def)

theorem worker_bounded_witness:
  "length (ws_tasks ((worker_start \<lparr>wc_concurrency = 2\<rparr> ())\<lparr>ws_permits := 1, ws_phase := Dequeuing\<rparr>)) \<le> wc_concurrency \<lparr>wc_concurrency = 2\<rparr>"
proof -
  let ?P = "\<lparr>wk_publish = \<lambda>_ w. (Inr (), w), wk_process = \<lambda>_ w. (Inr (SenderName []), w), wk_ack = \<lambda>_ w. (Inr (), w),
    wk_nack = \<lambda>_ _ w. (Inr (), w), wk_set_attachments = \<lambda>_ _ w. (Inr (), w), wk_delete_blob = \<lambda>_ w. (Inr (), w)\<rparr> :: unit worker_ports"
  have "(worker_any ?P (\<lambda>w. (None, w)))\<^sup>*\<^sup>* (worker_start \<lparr>wc_concurrency = 2\<rparr> ())
      ((worker_start \<lparr>wc_concurrency = 2\<rparr> ())\<lparr>ws_permits := 1, ws_phase := Dequeuing\<rparr>)"
    using worker_step.acquire [of "worker_start \<lparr>wc_concurrency = 2\<rparr> ()" ?P "\<lambda>w. (None, w)"]
    by (intro r_into_rtranclp) (simp add: worker_any_def worker_start_def)
  from worker_bounded [OF this] show ?thesis by simp
qed

text \<open>C19: Shutdown terminates: once cancelled, the worker can take only finitely many more steps, takes on no new email,
  and can only come to rest stopped, with every task finished.\<close>

theorem worker_shutdown:
  assumes "ws_cancelled (run 0)" and "\<forall>n. worker_step P deq (run n) (run (Suc n)) \<or> run (Suc n) = run n \<and> (\<nexists>s. worker_step P deq (run n) s)"
    and "worker_inv c (run 0)"
  shows "\<exists>n \<le> drain_measure (run 0). \<forall>m \<ge> n. ws_phase (run m) = Stopped \<and> ws_tasks (run m) = [] \<and> run m = run n"
proof -
  let ?I = "\<lambda>s. worker_inv c s \<and> ws_cancelled s" and ?D = "\<lambda>s. ws_phase s = Stopped"
  have keep: "?I (run (Suc n))" if "?I (run n)" for n
    using that assms(2) worker_inv_step [of P deq "run n" "run (Suc n)" c] drain_step [of P deq "run n" "run (Suc n)"]
    unfolding worker_any_def by metis
  have down: "drain_measure (run (Suc n)) < drain_measure (run n)" if "?I (run n)" "\<not> ?D (run n)" for n
    using that assms(2) drain_progress drain_step by blast
  obtain k where k: "k \<le> drain_measure (run 0)" "?D (run k)"
    using run_reaches [where r = run and I = ?I and D = ?D and m = drain_measure] keep down assms(1,3) by blast
  have inv: "?I (run n)" for n
    by (induction n) (use assms(1,3) keep in auto)
  have rest: "run (Suc n) = run n" if "?D (run n)" for n
  proof -
    have "\<not> worker_step P deq (run n) s" for s using that worker_stepE [of P deq "run n" s] by auto
    with assms(2) show ?thesis by blast
  qed
  have "run m = run k" if "k \<le> m" for m
    using run_rests [where r = run and D = ?D] rest k(2) that by blast
  moreover have "ws_tasks (run k) = []" using inv [of k] k(2) by (simp add: worker_inv_def)
  ultimately show ?thesis using k by metis
qed

theorem worker_shutdown_witness:
  "\<exists>n \<le> 2. \<forall>m \<ge> n.
     ws_phase ((\<lambda>n. (worker_start \<lparr>wc_concurrency = 1\<rparr> ())\<lparr>ws_cancelled := True, ws_phase := [Acquiring, Draining, Stopped] ! min n 2\<rparr>) m) = Stopped"
proof -
  let ?s = "\<lambda>ph. (worker_start \<lparr>wc_concurrency = 1\<rparr> ())\<lparr>ws_cancelled := True, ws_phase := ph\<rparr>"
  let ?run = "\<lambda>n. ?s ([Acquiring, Draining, Stopped] ! min n 2)"
  let ?P = "\<lparr>wk_publish = \<lambda>_ w. (Inr (), w), wk_process = \<lambda>_ w. (Inr (SenderName []), w), wk_ack = \<lambda>_ w. (Inr (), w),
    wk_nack = \<lambda>_ _ w. (Inr (), w), wk_set_attachments = \<lambda>_ _ w. (Inr (), w), wk_delete_blob = \<lambda>_ w. (Inr (), w)\<rparr> :: unit worker_ports"
  let ?D = "\<lambda>w :: unit. (None :: (email_queue_error + dequeued_email) option, w)"
  have 1: "worker_step ?P ?D (?s Acquiring) (?s Draining)"
    using worker_step.acquire_cancelled [of "?s Acquiring" ?P ?D] by (simp add: worker_start_def)
  have 2: "worker_step ?P ?D (?s Draining) (?s Stopped)"
    using worker_step.drained [of "?s Draining" ?P ?D] by (simp add: worker_start_def)
  have 3: "\<nexists>s. worker_step ?P ?D (?s Stopped) s"
    by (auto simp: worker_start_def elim!: worker_stepE)
  have steps: "\<forall>n. worker_step ?P ?D (?run n) (?run (Suc n)) \<or> ?run (Suc n) = ?run n \<and> (\<nexists>s. worker_step ?P ?D (?run n) s)"
  proof
    fix n :: nat
    consider "n = 0" | "n = 1" | "2 \<le> n" by linarith
    then show "worker_step ?P ?D (?run n) (?run (Suc n)) \<or> ?run (Suc n) = ?run n \<and> (\<nexists>s. worker_step ?P ?D (?run n) s)"
      using 1 2 3 by cases (simp_all add: min_def numeral_2_eq_2)
  qed
  have "worker_inv 1 (?run 0)" "drain_measure (?run 0) = 2"
    by (simp_all add: worker_inv_def worker_start_def drain_measure_def)
  with worker_shutdown [OF _ steps, of 1] show ?thesis by fastforce
qed

end
