(* ===== verification/UseCases.thy ===== *)
theory UseCases
  imports RoutedSender
begin

text \<open>
  The remaining use cases of the domain: sender snapshots (\<open>domain/src/use_case/list_senders.rs\<close>), the
  two listings (\<open>list_emails.rs\<close>, \<open>list_events.rs\<close>), and the attachment garbage collector of the binary
  (\<open>binary/src/gc.rs\<close>).

  The iteration order of the hash map that groups senders by the start of their window is the argument
  \<open>order\<close>, a permutation, as in \<open>RoutedSender\<close>.
\<close>

section \<open>Listing senders\<close>

record sender_snapshot =
  sn_config :: sender_config
  sn_sent_in_range :: nat
  sn_failed_in_range :: nat

datatype list_senders_error = ListUsage sender_usage_error

definition window_start :: "int \<Rightarrow> sender_config \<Rightarrow> int" where
  "window_start now c = (case sc_quota c of None \<Rightarrow> 0 | Some q \<Rightarrow> since_ms (quota_window q) now)"

fun config_groups :: "int \<Rightarrow> sender_config list \<Rightarrow> (int \<times> sender_name list) list \<Rightarrow> (int \<times> sender_name list) list" where
  "config_groups now [] gs = gs"
| "config_groups now (c # cs) gs = config_groups now cs (push_group (window_start now c) (sc_name c) gs)"

fun collect_stats ::
    "(sender_name list \<Rightarrow> int \<Rightarrow> 'w \<Rightarrow> (sender_usage_error + sender_stats list) \<times> 'w) \<Rightarrow>
     (int \<times> sender_name list) list \<Rightarrow> (sender_name \<rightharpoonup> sender_stats) \<Rightarrow> 'w \<Rightarrow>
     (list_senders_error + (sender_name \<rightharpoonup> sender_stats)) \<times> 'w" where
  "collect_stats gstats [] m w = (Ok m, w)"
| "collect_stats gstats ((since, names) # gs) m w =
     (case gstats names since w of
        (Inl e, w') \<Rightarrow> (Err (ListUsage e), w')
      | (Inr results, w') \<Rightarrow> collect_stats gstats gs (foldl (\<lambda>m s. m(ss_name s \<mapsto> s)) m results) w')"

definition snapshot_of :: "(sender_name \<rightharpoonup> sender_stats) \<Rightarrow> sender_config \<Rightarrow> sender_snapshot" where
  "snapshot_of m c =
     \<lparr>sn_config = c,
      sn_sent_in_range = (case m (sc_name c) of None \<Rightarrow> 0 | Some s \<Rightarrow> ss_sent_in_range s),
      sn_failed_in_range = (case m (sc_name c) of None \<Rightarrow> 0 | Some s \<Rightarrow> ss_failed_in_range s)\<rparr>"

definition list_senders ::
    "sender_config list \<Rightarrow> (sender_name list \<Rightarrow> int \<Rightarrow> 'w \<Rightarrow> (sender_usage_error + sender_stats list) \<times> 'w) \<Rightarrow>
     ((int \<times> sender_name list) list \<Rightarrow> (int \<times> sender_name list) list) \<Rightarrow> int \<Rightarrow> 'w \<Rightarrow>
     (list_senders_error + sender_snapshot list) \<times> 'w" where
  "list_senders configs gstats order now w =
     (if configs = [] then (Ok [], w)
      else case collect_stats gstats (order (config_groups now configs [])) Map.empty w of
             (Inl e, w') \<Rightarrow> (Err e, w')
           | (Inr m, w') \<Rightarrow> (Ok (map (snapshot_of m) configs), w'))"

section \<open>Listing emails and events\<close>

datatype list_emails_error = ListEmailsRepository email_repository_error
datatype list_events_error = ListEventsRepository event_repository_error

definition list_emails_execute ::
    "(list_emails_params \<Rightarrow> 'w \<Rightarrow> (email_repository_error + email_record list) \<times> 'w) \<Rightarrow>
     list_emails_params \<Rightarrow> 'w \<Rightarrow> (list_emails_error + email_record list) \<times> 'w" where
  "list_emails_execute repo p = map_err_st ListEmailsRepository (repo p)"

definition list_events_execute ::
    "(list_events_params \<Rightarrow> 'w \<Rightarrow> (event_repository_error + event_record list) \<times> 'w) \<Rightarrow>
     list_events_params \<Rightarrow> 'w \<Rightarrow> (list_events_error + event_record list) \<times> 'w" where
  "list_events_execute repo p = map_err_st ListEventsRepository (repo p)"

section \<open>The garbage collector\<close>

record 'w gc_ports =
  gp_backend :: string
  gp_list_blobs :: "'w \<Rightarrow> (email_repository_error + blob_ref list) \<times> 'w"
  gp_list_old :: "int \<Rightarrow> 'w \<Rightarrow> (anyhow + string list) \<times> 'w"
  gp_delete :: "blob_ref \<Rightarrow> 'w \<Rightarrow> (attachment_store_error + unit) \<times> 'w"
  gp_cancelled :: "'w \<Rightarrow> bool \<times> 'w"

fun repo_error_text :: "email_repository_error \<Rightarrow> anyhow" where
  "repo_error_text (RepoStorage e) = ''email repository error''"

fun sweep_keys :: "('w, 'x) gc_ports_scheme \<Rightarrow> string set \<Rightarrow> string list \<Rightarrow> 'w \<Rightarrow> (anyhow + unit) \<times> 'w" where
  "sweep_keys P live [] w = (Ok (), w)"
| "sweep_keys P live (k # ks) w =
     (case gp_cancelled P w of
        (True, w1) \<Rightarrow> (Ok (), w1)
      | (False, w1) \<Rightarrow>
          if k \<notin> live then sweep_keys P live ks (snd (gp_delete P \<lparr>blob_backend = gp_backend P, blob_key = k\<rparr> w1))
          else sweep_keys P live ks w1)"

definition live_keys :: "string \<Rightarrow> blob_ref list \<Rightarrow> string set" where
  "live_keys backend bs = set (map blob_key (filter (\<lambda>b. blob_backend b = backend) bs))"

definition sweep_once :: "('w, 'x) gc_ports_scheme \<Rightarrow> int \<Rightarrow> 'w \<Rightarrow> (anyhow + unit) \<times> 'w" where
  "sweep_once P grace w =
     (case gp_cancelled P w of
        (True, w1) \<Rightarrow> (Ok (), w1)
      | (False, w1) \<Rightarrow>
          and_then (map_err_st repo_error_text (gp_list_blobs P)) (\<lambda>blobs.
          and_then (gp_list_old P grace) (\<lambda>on_disk.
            sweep_keys P (live_keys (gp_backend P) blobs) on_disk)) w1)"

text \<open>The loop: each element of the list says whether the cancellation came before the interval had passed.\<close>

fun gc_run :: "('w, 'x) gc_ports_scheme \<Rightarrow> int \<Rightarrow> bool list \<Rightarrow> 'w \<Rightarrow> 'w" where
  "gc_run P grace [] w = w"
| "gc_run P grace (cancelled # ticks) w =
     (if cancelled then w else gc_run P grace ticks (snd (sweep_once P grace w)))"

section \<open>Snapshots are exact\<close>

definition group_pairs :: "(int \<times> sender_name list) list \<Rightarrow> (int \<times> sender_name) set" where
  "group_pairs gs = {(k, n). \<exists>ns. (k, ns) \<in> set gs \<and> n \<in> set ns}"

lemma group_pairs_simps [simp]:
  "group_pairs [] = {}" "group_pairs ((k, ns) # gs) = Pair k ` set ns \<union> group_pairs gs"
  by (auto simp: group_pairs_def)

lemma group_pairs_push: "group_pairs (push_group k n gs) = insert (k, n) (group_pairs gs)"
  by (induction k n gs rule: push_group.induct) auto

lemma group_pairs_configs:
  "group_pairs (config_groups now cs gs) = (\<lambda>c. (window_start now c, sc_name c)) ` set cs \<union> group_pairs gs"
  by (induction now cs gs rule: config_groups.induct) (auto simp: group_pairs_push)

lemma group_pairs_set: "set gs = set gs' \<Longrightarrow> group_pairs gs = group_pairs gs'"
  by (simp add: group_pairs_def)

definition stat_of :: "(sender_name \<Rightarrow> int \<Rightarrow> nat \<times> nat) \<Rightarrow> int \<Rightarrow> sender_name \<Rightarrow> sender_stats" where
  "stat_of u since n = \<lparr>ss_name = n, ss_sent_in_range = fst (u n since), ss_failed_in_range = snd (u n since)\<rparr>"

lemma foldl_stats:
  "foldl (\<lambda>m s. m(ss_name s \<mapsto> s)) m (map (stat_of u k) ns) n = (if n \<in> set ns then Some (stat_of u k n) else m n)"
  by (induction ns arbitrary: m) (auto simp: stat_of_def)

lemma collect_stats_exact:
  assumes port: "\<And>names since w. gstats names since w = (Inr (map (stat_of u since) names), w)"
    and fn: "\<forall>(k, n)\<in>group_pairs gs. k = F n"
  shows "\<exists>m'. collect_stats gstats gs m w = (Inr m', w) \<and>
    (\<forall>n. m' n = (if n \<in> snd ` group_pairs gs then Some (stat_of u (F n) n) else m n))"
  using fn
proof (induction gs arbitrary: m)
  case Nil
  then show ?case by simp
next
  case (Cons g gs)
  obtain k ns where g: "g = (k, ns)" by fastforce
  let ?m = "foldl (\<lambda>m s. m(ss_name s \<mapsto> s)) m (map (stat_of u k) ns)"
  have tl: "\<forall>(k, n)\<in>group_pairs gs. k = F n" and hd: "\<forall>n\<in>set ns. k = F n" using Cons.prems g by auto
  obtain m' where m': "collect_stats gstats gs ?m w = (Inr m', w)"
    "\<forall>n. m' n = (if n \<in> snd ` group_pairs gs then Some (stat_of u (F n) n) else ?m n)"
    using Cons.IH [OF tl, of ?m] by blast
  have "m' n = (if n \<in> snd ` group_pairs (g # gs) then Some (stat_of u (F n) n) else m n)" for n
    using m'(2) hd g by (auto simp: foldl_stats image_Un image_image)
  moreover have "collect_stats gstats (g # gs) m w = (Inr m', w)" using m'(1) by (simp add: g port)
  ultimately show ?case by blast
qed

text \<open>Every configured sender is listed once, in configuration order, with the counts of its own window: since the start
  of its quota window when it has a quota, over all time otherwise; the order in which windows are queried does not
  matter.\<close>

theorem list_senders_exact:
  assumes "\<And>names since w. gstats names since w = (Inr (map (stat_of u since) names), w)"
    and "distinct (map sc_name configs)" and "\<And>gs. set (order gs) = set gs"
  shows "list_senders configs gstats order now w =
    (Inr (map (\<lambda>c. \<lparr>sn_config = c, sn_sent_in_range = fst (u (sc_name c) (window_start now c)),
        sn_failed_in_range = snd (u (sc_name c) (window_start now c))\<rparr>) configs), w)"
proof -
  define F where "F n = window_start now (the (map_of (map (\<lambda>c. (sc_name c, c)) configs) n))" for n
  have F: "F (sc_name c) = window_start now c" if "c \<in> set configs" for c
  proof -
    have "map_of (map (\<lambda>c. (sc_name c, c)) configs) (sc_name c) = Some c"
      using that assms(2) by (intro map_of_is_SomeI) (auto simp: comp_def)
    then show ?thesis by (simp add: F_def)
  qed
  let ?gs = "order (config_groups now configs [])"
  have pairs: "group_pairs ?gs = (\<lambda>c. (window_start now c, sc_name c)) ` set configs"
    using group_pairs_set [OF assms(3), of "config_groups now configs []"] by (simp add: group_pairs_configs)
  then have "\<forall>(k, n)\<in>group_pairs ?gs. k = F n" using F by auto
  from collect_stats_exact [OF assms(1) this, of Map.empty w] obtain m where
    m: "collect_stats gstats ?gs Map.empty w = (Inr m, w)"
      "\<forall>n. m n = (if n \<in> snd ` group_pairs ?gs then Some (stat_of u (F n) n) else None)" by auto
  have "snapshot_of m c = \<lparr>sn_config = c, sn_sent_in_range = fst (u (sc_name c) (window_start now c)),
      sn_failed_in_range = snd (u (sc_name c) (window_start now c))\<rparr>" if "c \<in> set configs" for c
  proof -
    have "sc_name c \<in> snd ` group_pairs ?gs" using that pairs by force
    then show ?thesis using m(2) F [OF that] by (simp add: snapshot_of_def stat_of_def)
  qed
  with m(1) show ?thesis by (simp add: list_senders_def)
qed

theorem list_senders_exact_witness:
  "list_senders [\<lparr>sc_name = SenderName ''a'', sc_quota = Some \<lparr>quota_count = 5, quota_window = Hourly\<rparr>, sc_match_sender_domain = None\<rparr>]
     (\<lambda>names since w. (Inr (map (stat_of (\<lambda>n k. (nat k, 1)) since) names), w)) (\<lambda>gs. gs) 3600007 () =
   (Inr [\<lparr>sn_config = \<lparr>sc_name = SenderName ''a'', sc_quota = Some \<lparr>quota_count = 5, quota_window = Hourly\<rparr>, sc_match_sender_domain = None\<rparr>,
     sn_sent_in_range = 7, sn_failed_in_range = 1\<rparr>], ())"
  by (subst list_senders_exact [where u = "\<lambda>n k. (nat k, 1)"])
    (simp_all add: window_start_def since_ms_def sat_i64_def int_limits)

section \<open>Sweeping\<close>

text \<open>A sweep that is not cancelled asks to delete exactly the listed keys that are not live.\<close>

lemma sweep_keys_run:
  assumes "\<And>w. gp_cancelled P w = (False, w)"
  shows "sweep_keys P live ks w =
    (Inr (), foldl (\<lambda>w k. snd (gp_delete P \<lparr>blob_backend = gp_backend P, blob_key = k\<rparr> w)) w (filter (\<lambda>k. k \<notin> live) ks))"
  by (induction ks arbitrary: w) (auto simp: assms)

text \<open>A cancelled sweep deletes nothing more.\<close>

lemma sweep_keys_cancelled: "gp_cancelled P w = (True, w) \<Longrightarrow> sweep_keys P live ks w = (Inr (), w)"
  by (cases ks) auto

text \<open>Whatever the ports do, an invariant of the world that deletions of non-live keys keep is kept by a sweep.\<close>

lemma sweep_keys_keeps:
  assumes "I w"
    and "\<And>w c w'. I w \<Longrightarrow> gp_cancelled P w = (c, w') \<Longrightarrow> I w'"
    and "\<And>k w. I w \<Longrightarrow> k \<in> set ks \<Longrightarrow> k \<notin> live \<Longrightarrow> I (snd (gp_delete P \<lparr>blob_backend = gp_backend P, blob_key = k\<rparr> w))"
  shows "I (snd (sweep_keys P live ks w))"
  using assms(1,3)
proof (induction ks arbitrary: w)
  case (Cons k ks)
  obtain c w1 where c: "gp_cancelled P w = (c, w1)" by fastforce
  then have "I w1" using assms(2) Cons.prems(1) by blast
  with c Cons show ?case by (cases c) auto
qed simp

end
