(* ===== verification/SqlDto.thy ===== *)
theory SqlDto
  imports Ports
begin

text \<open>
  The JSON shapes of the SQL adapters' columns (\<open>adapter/outbound-sqlite/src/dto.rs\<close>; the PostgreSQL
  adapter has the same file).  The derived \<open>Serialize\<close> and \<open>Deserialize\<close> implementations are written
  out on JSON values as serde documents them: an internally tagged enum is an object with the tag
  among its fields, a missing or null field of type \<open>Option\<close> is \<open>None\<close>, an untagged enum takes the
  first variant that fits.  JSON text is identified with the value it denotes.  Parsing a URL is the
  argument \<open>parse_url\<close>.

  The lemmas show that every conversion round-trips and that both column shapes, current and legacy, decode.
\<close>

section \<open>Serde on JSON values\<close>

definition de_str :: "json option \<Rightarrow> string option" where
  "de_str j = (case j of Some (JStr s) \<Rightarrow> Some s | _ \<Rightarrow> None)"

definition de_opt_str :: "json option \<Rightarrow> string option option" where
  "de_opt_str j =
     (case j of None \<Rightarrow> Some None | Some JNull \<Rightarrow> Some None | Some (JStr s) \<Rightarrow> Some (Some s) | _ \<Rightarrow> None)"

definition de_u64 :: "json option \<Rightarrow> nat option" where
  "de_u64 j = (case j of Some (JNum n) \<Rightarrow> if 0 \<le> n \<and> n \<le> int u64_max then Some (nat n) else None | _ \<Rightarrow> None)"

fun traverse_option :: "('a \<Rightarrow> 'b option) \<Rightarrow> 'a list \<Rightarrow> 'b list option" where
  "traverse_option f [] = Some []"
| "traverse_option f (x # xs) =
     (case f x of None \<Rightarrow> None
      | Some y \<Rightarrow> (case traverse_option f xs of None \<Rightarrow> None | Some ys \<Rightarrow> Some (y # ys)))"

lemma traverse_option_map [simp]:
  "(\<And>x. x \<in> set xs \<Longrightarrow> f (g x) = Some (h x)) \<Longrightarrow> traverse_option f (map g xs) = Some (map h xs)"
  by (induction xs) auto

lemma de_str_JStr [simp]: "de_str (Some (JStr s)) = Some s"
  by (simp add: de_str_def)

lemma de_opt_str_json [simp]: "de_opt_str (Some (json_opt_str x)) = Some x"
  by (cases x) (auto simp: de_opt_str_def json_opt_str_def)

section \<open>Bodies\<close>

datatype body_source_dto =
    DtoPlain "string option" "string option"
  | DtoMjmlInline string
  | DtoMjmlNamed string
  | DtoMjmlRemote string

fun body_source_to_dto :: "body_source \<Rightarrow> body_source_dto" where
  "body_source_to_dto (BodyPlain p) = DtoPlain (plain_text p) (plain_html p)"
| "body_source_to_dto (BodyMjml (MjmlInline s)) = DtoMjmlInline s"
| "body_source_to_dto (BodyMjml (MjmlNamed n)) = DtoMjmlNamed n"
| "body_source_to_dto (BodyMjml (MjmlRemote u)) = DtoMjmlRemote (url_str u)"

fun body_source_of_dto :: "(string \<Rightarrow> anyhow + url) \<Rightarrow> body_source_dto \<Rightarrow> anyhow + body_source" where
  "body_source_of_dto parse_url (DtoPlain t h) =
     map_err (\<lambda>_. ''invalid plain body'') (map_ok BodyPlain (plain_try_new t h))"
| "body_source_of_dto parse_url (DtoMjmlInline s) = Ok (BodyMjml (MjmlInline s))"
| "body_source_of_dto parse_url (DtoMjmlNamed n) = Ok (BodyMjml (MjmlNamed n))"
| "body_source_of_dto parse_url (DtoMjmlRemote u) =
     map_err (\<lambda>_. ''invalid remote url'') (map_ok (\<lambda>u. BodyMjml (MjmlRemote u)) (parse_url u))"

fun ser_body_source :: "body_source_dto \<Rightarrow> json" where
  "ser_body_source (DtoPlain t h) =
     JObj [(''kind'', JStr ''plain''), (''text'', json_opt_str t), (''html'', json_opt_str h)]"
| "ser_body_source (DtoMjmlInline s) = JObj [(''kind'', JStr ''mjml_inline''), (''source'', JStr s)]"
| "ser_body_source (DtoMjmlNamed n) = JObj [(''kind'', JStr ''mjml_named''), (''name'', JStr n)]"
| "ser_body_source (DtoMjmlRemote u) = JObj [(''kind'', JStr ''mjml_remote''), (''url'', JStr u)]"

definition de_body_source :: "json \<Rightarrow> body_source_dto option" where
  "de_body_source j =
     (case de_str (json_field ''kind'' j) of
        None \<Rightarrow> None
      | Some k \<Rightarrow>
          if k = ''plain'' then
            (case (de_opt_str (json_field ''text'' j), de_opt_str (json_field ''html'' j)) of
               (Some t, Some h) \<Rightarrow> Some (DtoPlain t h) | _ \<Rightarrow> None)
          else if k = ''mjml_inline'' then map_option DtoMjmlInline (de_str (json_field ''source'' j))
          else if k = ''mjml_named'' then map_option DtoMjmlNamed (de_str (json_field ''name'' j))
          else if k = ''mjml_remote'' then map_option DtoMjmlRemote (de_str (json_field ''url'' j))
          else None)"

lemma json_field_JObj [simp]: "json_field k (JObj kvs) = map_of kvs k"
  by (simp add: json_field_def)

lemma de_ser_body_source [simp]: "de_body_source (ser_body_source b) = Some b"
  by (cases b) (auto simp: de_body_source_def)

text \<open>The URL of a remote template parses back to itself, as \<open>url::Url\<close> documents of its serialisation.\<close>

fun url_stable :: "(string \<Rightarrow> anyhow + url) \<Rightarrow> body_source \<Rightarrow> bool" where
  "url_stable parse_url (BodyMjml (MjmlRemote u)) = (parse_url (url_str u) = Inr u)"
| "url_stable parse_url _ = True"

lemma body_source_of_to_dto:
  "body_ok b \<Longrightarrow> url_stable parse_url b \<Longrightarrow> body_source_of_dto parse_url (body_source_to_dto b) = Inr b"
  by (cases b rule: body_source_to_dto.cases) (auto simp: plain_try_new_def plain_ok_def)

lemma body_source_of_dto_ok: "body_source_of_dto parse_url d = Inr b \<Longrightarrow> body_ok b"
  by (cases d) (auto simp: map_ok_eq_Inr plain_try_new_Ok)

section \<open>Recipients\<close>

datatype recipient_kind_dto = DtoTo | DtoCc | DtoBcc

fun recipient_kind_to_dto :: "recipient_kind \<Rightarrow> recipient_kind_dto" where
  "recipient_kind_to_dto To = DtoTo"
| "recipient_kind_to_dto Cc = DtoCc"
| "recipient_kind_to_dto Bcc = DtoBcc"

fun recipient_kind_of_dto :: "recipient_kind_dto \<Rightarrow> recipient_kind" where
  "recipient_kind_of_dto DtoTo = To"
| "recipient_kind_of_dto DtoCc = Cc"
| "recipient_kind_of_dto DtoBcc = Bcc"

record recipient_dto =
  rd_kind :: recipient_kind_dto
  rd_address :: string

definition recipients_to_dto :: "(recipient_kind \<times> string) list \<Rightarrow> recipient_dto list" where
  "recipients_to_dto rs = map (\<lambda>(k, a). \<lparr>rd_kind = recipient_kind_to_dto k, rd_address = a\<rparr>) rs"

definition recipients_from_dto :: "recipient_dto list \<Rightarrow> (recipient_kind \<times> string) list" where
  "recipients_from_dto ds = map (\<lambda>d. (recipient_kind_of_dto (rd_kind d), rd_address d)) ds"

lemma recipients_from_to_dto [simp]: "recipients_from_dto (recipients_to_dto rs) = rs"
proof -
  have k: "recipient_kind_of_dto (recipient_kind_to_dto k) = k" for k by (cases k) auto
  show ?thesis by (induction rs) (auto simp: recipients_to_dto_def recipients_from_dto_def k)
qed

fun ser_recipient_kind :: "recipient_kind_dto \<Rightarrow> json" where
  "ser_recipient_kind DtoTo = JStr ''to''"
| "ser_recipient_kind DtoCc = JStr ''cc''"
| "ser_recipient_kind DtoBcc = JStr ''bcc''"

definition de_recipient_kind :: "json option \<Rightarrow> recipient_kind_dto option" where
  "de_recipient_kind j =
     (case de_str j of
        None \<Rightarrow> None
      | Some s \<Rightarrow> if s = ''to'' then Some DtoTo else if s = ''cc'' then Some DtoCc
                 else if s = ''bcc'' then Some DtoBcc else None)"

definition ser_recipient :: "recipient_dto \<Rightarrow> json" where
  "ser_recipient r = JObj [(''kind'', ser_recipient_kind (rd_kind r)), (''address'', JStr (rd_address r))]"

definition de_recipient :: "json \<Rightarrow> recipient_dto option" where
  "de_recipient j =
     (case (de_recipient_kind (json_field ''kind'' j), de_str (json_field ''address'' j)) of
        (Some k, Some a) \<Rightarrow> Some \<lparr>rd_kind = k, rd_address = a\<rparr> | _ \<Rightarrow> None)"

lemma de_ser_recipient [simp]: "de_recipient (ser_recipient r) = Some r"
  by (cases r; cases "rd_kind r") (auto simp: de_recipient_def ser_recipient_def de_recipient_kind_def)

definition ser_recipients :: "recipient_dto list \<Rightarrow> json" where
  "ser_recipients rs = JArr (map ser_recipient rs)"

definition de_recipients :: "json \<Rightarrow> recipient_dto list option" where
  "de_recipients j = (case j of JArr xs \<Rightarrow> traverse_option de_recipient xs | _ \<Rightarrow> None)"

lemma de_ser_recipients [simp]: "de_recipients (ser_recipients rs) = Some rs"
  using traverse_option_map [of rs de_recipient ser_recipient "\<lambda>x. x"]
  by (simp add: de_recipients_def ser_recipients_def)

section \<open>Attachment references\<close>

record blob_ref_dto =
  bd_backend :: string
  bd_key :: string

record attachment_ref_dto =
  ad_filename :: string
  ad_content_type :: string
  ad_size_bytes :: nat
  ad_blob :: blob_ref_dto

definition attachment_ref_to_dto :: "attachment_ref \<Rightarrow> attachment_ref_dto" where
  "attachment_ref_to_dto a =
     \<lparr>ad_filename = ar_filename a, ad_content_type = ar_content_type a, ad_size_bytes = ar_size_bytes a,
      ad_blob = \<lparr>bd_backend = blob_backend (ar_blob a), bd_key = blob_key (ar_blob a)\<rparr>\<rparr>"

definition attachment_ref_of_dto :: "attachment_ref_dto \<Rightarrow> attachment_ref" where
  "attachment_ref_of_dto d =
     \<lparr>ar_filename = ad_filename d, ar_content_type = ad_content_type d, ar_size_bytes = ad_size_bytes d,
      ar_blob = \<lparr>blob_backend = bd_backend (ad_blob d), blob_key = bd_key (ad_blob d)\<rparr>\<rparr>"

lemma attachment_ref_of_to_dto [simp]: "attachment_ref_of_dto (attachment_ref_to_dto a) = a"
  by (simp add: attachment_ref_of_dto_def attachment_ref_to_dto_def)

definition ser_attachment_ref :: "attachment_ref_dto \<Rightarrow> json" where
  "ser_attachment_ref d =
     JObj [(''filename'', JStr (ad_filename d)), (''content_type'', JStr (ad_content_type d)),
           (''size_bytes'', JNum (int (ad_size_bytes d))),
           (''blob'', JObj [(''backend'', JStr (bd_backend (ad_blob d))), (''key'', JStr (bd_key (ad_blob d)))])]"

definition de_blob_ref :: "json \<Rightarrow> blob_ref_dto option" where
  "de_blob_ref j =
     (case (de_str (json_field ''backend'' j), de_str (json_field ''key'' j)) of
        (Some b, Some k) \<Rightarrow> Some \<lparr>bd_backend = b, bd_key = k\<rparr> | _ \<Rightarrow> None)"

definition de_attachment_ref :: "json \<Rightarrow> attachment_ref_dto option" where
  "de_attachment_ref j =
     (case (de_str (json_field ''filename'' j), de_str (json_field ''content_type'' j),
            de_u64 (json_field ''size_bytes'' j), Option.bind (json_field ''blob'' j) de_blob_ref) of
        (Some f, Some c, Some s, Some b) \<Rightarrow>
          Some \<lparr>ad_filename = f, ad_content_type = c, ad_size_bytes = s, ad_blob = b\<rparr>
      | _ \<Rightarrow> None)"

text \<open>The field is a \<open>u64\<close>.\<close>

definition size_fits :: "attachment_ref \<Rightarrow> bool" where
  "size_fits a \<longleftrightarrow> ar_size_bytes a \<le> u64_max"

lemma de_ser_attachment_ref:
  "ad_size_bytes d \<le> u64_max \<Longrightarrow> de_attachment_ref (ser_attachment_ref d) = Some d"
  by (cases d) (auto simp: de_attachment_ref_def ser_attachment_ref_def de_u64_def de_blob_ref_def)

section \<open>The body column\<close>

text \<open>What is written is always the current shape; what is read may also be the legacy one.\<close>

datatype envelope_body_dto_deser =
    WithAttachments body_source_dto "attachment_ref_dto list"
  | Legacy body_source_dto

definition ser_envelope_body :: "body_source_dto \<Rightarrow> attachment_ref_dto list \<Rightarrow> json" where
  "ser_envelope_body s as =
     JObj [(''source'', ser_body_source s), (''attachments'', JArr (map ser_attachment_ref as))]"

definition de_with_attachments :: "json \<Rightarrow> (body_source_dto \<times> attachment_ref_dto list) option" where
  "de_with_attachments j =
     (case Option.bind (json_field ''source'' j) de_body_source of
        None \<Rightarrow> None
      | Some s \<Rightarrow>
          (case json_field ''attachments'' j of
             None \<Rightarrow> Some (s, [])
           | Some (JArr xs) \<Rightarrow> map_option (Pair s) (traverse_option de_attachment_ref xs)
           | _ \<Rightarrow> None))"

definition de_envelope_body :: "json \<Rightarrow> envelope_body_dto_deser option" where
  "de_envelope_body j =
     (case de_with_attachments j of
        Some (s, as) \<Rightarrow> Some (WithAttachments s as)
      | None \<Rightarrow> map_option Legacy (de_body_source j))"

fun envelope_body_split :: "envelope_body_dto_deser \<Rightarrow> body_source_dto \<times> attachment_ref_dto list" where
  "envelope_body_split (WithAttachments s as) = (s, as)"
| "envelope_body_split (Legacy s) = (s, [])"

definition ser_body_column :: "body_source \<Rightarrow> attachment_ref list \<Rightarrow> json" where
  "ser_body_column b as = ser_envelope_body (body_source_to_dto b) (map attachment_ref_to_dto as)"

definition de_body_column :: "json \<Rightarrow> (body_source_dto \<times> attachment_ref list) option" where
  "de_body_column j =
     map_option (\<lambda>d. let (s, as) = envelope_body_split d in (s, map attachment_ref_of_dto as)) (de_envelope_body j)"

lemma de_ser_envelope_body:
  "(\<And>a. a \<in> set as \<Longrightarrow> ad_size_bytes a \<le> u64_max) \<Longrightarrow>
     de_envelope_body (ser_envelope_body s as) = Some (WithAttachments s as)"
  using traverse_option_map [of as de_attachment_ref ser_attachment_ref "\<lambda>x. x"]
  by (simp add: de_envelope_body_def de_with_attachments_def ser_envelope_body_def de_ser_attachment_ref)

lemma de_ser_refs:
  assumes "\<forall>a\<in>set as. size_fits a"
  shows "de_body_column (ser_envelope_body b (map attachment_ref_to_dto as)) = Some (b, as)"
proof -
  have "de_envelope_body (ser_envelope_body b (map attachment_ref_to_dto as)) =
      Some (WithAttachments b (map attachment_ref_to_dto as))"
    using assms by (intro de_ser_envelope_body) (auto simp: size_fits_def attachment_ref_to_dto_def)
  then show ?thesis by (simp add: de_body_column_def comp_def)
qed

lemma de_ser_body_column:
  "\<forall>a\<in>set as. size_fits a \<Longrightarrow> de_body_column (ser_body_column b as) = Some (body_source_to_dto b, as)"
  by (simp add: ser_body_column_def de_ser_refs)

text \<open>A legacy row decodes as \<open>Legacy\<close>: an inline template has a string field \<open>source\<close> of its own, which is
  not mistaken for the current shape.\<close>

lemma de_legacy: "de_envelope_body (ser_body_source s) = Some (Legacy s)"
proof -
  have "de_with_attachments (ser_body_source s) = None"
    by (cases s) (auto simp: de_with_attachments_def de_body_source_def json_field_def de_str_def)
  then show ?thesis by (simp add: de_envelope_body_def)
qed

section \<open>Properties\<close>

text \<open>The body column loses nothing: decoding what \<open>save\<close> or \<open>set_attachments\<close> wrote gives back the body
  and every attachment reference in order, and a legacy row gives back its body with no attachments.\<close>

theorem body_column_roundtrip:
  assumes "body_ok b" "url_stable parse_url b" "\<forall>a\<in>set as. size_fits a"
  shows "de_body_column (ser_body_column b as) = Some (body_source_to_dto b, as) \<and>
    de_body_column (ser_body_source (body_source_to_dto b)) = Some (body_source_to_dto b, []) \<and>
    body_source_of_dto parse_url (body_source_to_dto b) = Inr b"
proof (intro conjI)
  show "de_body_column (ser_body_column b as) = Some (body_source_to_dto b, as)"
    by (rule de_ser_body_column [OF assms(3)])
  show "de_body_column (ser_body_source (body_source_to_dto b)) = Some (body_source_to_dto b, [])"
    by (simp add: de_body_column_def de_legacy)
  show "body_source_of_dto parse_url (body_source_to_dto b) = Inr b"
    using assms(1,2) by (simp add: body_source_of_to_dto)
qed

theorem body_column_roundtrip_witness:
  "de_body_column (ser_body_column (BodyMjml (MjmlRemote \<lparr>url_str = ''https://a/t'', url_scheme = ''https'', url_host = Some ''a''\<rparr>))
      [\<lparr>ar_filename = ''f'', ar_content_type = ''t'', ar_size_bytes = 7, ar_blob = \<lparr>blob_backend = ''fs'', blob_key = ''k''\<rparr>\<rparr>])
    = Some (DtoMjmlRemote ''https://a/t'',
      [\<lparr>ar_filename = ''f'', ar_content_type = ''t'', ar_size_bytes = 7, ar_blob = \<lparr>blob_backend = ''fs'', blob_key = ''k''\<rparr>\<rparr>])"
  using body_column_roundtrip [of "BodyMjml (MjmlRemote \<lparr>url_str = ''https://a/t'', url_scheme = ''https'', url_host = Some ''a''\<rparr>)"
      "\<lambda>s. Inr \<lparr>url_str = s, url_scheme = ''https'', url_host = Some ''a''\<rparr>"
      "[\<lparr>ar_filename = ''f'', ar_content_type = ''t'', ar_size_bytes = 7, ar_blob = \<lparr>blob_backend = ''fs'', blob_key = ''k''\<rparr>\<rparr>]"]
  by (simp add: size_fits_def u64_max_def)

end
