(* ===== verification/SqlStore.thy ===== *)
theory SqlStore
  imports SqlDto RoutedSender "HOL-Library.Product_Lexorder"
begin

text \<open>
  The SQL repositories (\<open>adapter/outbound-sqlite/src/email_repository.rs\<close>, \<open>event_publisher.rs\<close>,
  \<open>event_repository.rs\<close>, \<open>sender_usage.rs\<close>, \<open>health.rs\<close>, with the schema of \<open>migrations/\<close>).  The
  theory \<open>PgStore\<close> holds what the PostgreSQL adapter does differently, \<open>SqlQueue\<close> the queue table.

  The database is three tables, in insertion order, and a list of statement outcomes: statement
  \<open>n\<close> fails when the \<open>n\<close>-th element of \<open>db_faults\<close> is \<open>True\<close> (a lost connection, a locked file), and
  every theorem holds for all such lists.  A statement that violates a constraint of the schema fails
  too.  Column defaults (\<open>unixepoch\<close>) and generated ids are arguments of the operations.  Every id
  column is 16 bytes because only these operations write it, so \<open>Uuid::from_slice\<close> does not fail.

  The lemmas show that each operation keeps the schema's invariant, what each returns on every
  branch, and that the listing queries are the filter, order and page they are meant to be.
\<close>

section \<open>Tables\<close>

record email_row =
  er_id :: email_id
  er_key :: "string option"
  er_corr :: "string option"
  er_subject :: "string option"
  er_sender :: string
  er_recipients :: json
  er_body :: json
  er_variables :: variables
  er_created :: int

record event_row =
  vr_id :: uuid
  vr_email :: email_id
  vr_type :: string
  vr_payload :: "json option"
  vr_sender :: "string option"
  vr_class :: "string option"
  vr_created :: int

record queue_row =
  qr_id :: uuid
  qr_email :: email_id
  qr_enqueued :: int
  qr_claimed :: "int option"
  qr_attempts :: nat
  qr_trace :: "json option"

record sql_db =
  db_emails :: "email_row list"
  db_events :: "event_row list"
  db_queue :: "queue_row list"
  db_faults :: "bool list"

text \<open>One statement: it fails with its context when the connection fails or a constraint is violated
  (\<open>None\<close>), and then changes no table.\<close>

definition stmt :: "anyhow \<Rightarrow> (sql_db \<Rightarrow> ('a \<times> sql_db) option) \<Rightarrow> sql_db \<Rightarrow> (anyhow + 'a) \<times> sql_db" where
  "stmt ctx f db =
     (let d = db\<lparr>db_faults := tl (db_faults db)\<rparr> in
      if db_faults db \<noteq> [] \<and> hd (db_faults db) then (Err ctx, d)
      else case f d of None \<Rightarrow> (Err ctx, d) | Some (a, d') \<Rightarrow> (Ok a, d'))"

definition nop :: "sql_db \<Rightarrow> (unit \<times> sql_db) option" where
  "nop d = Some ((), d)"

text \<open>A dropped transaction is rolled back.\<close>

definition in_tx :: "(sql_db \<Rightarrow> ('e + 'a) \<times> sql_db) \<Rightarrow> sql_db \<Rightarrow> ('e + 'a) \<times> sql_db" where
  "in_tx m db =
     (case m db of
        (Inl e, d) \<Rightarrow> (Inl e, db\<lparr>db_faults := db_faults d\<rparr>)
      | (Inr a, d) \<Rightarrow> (Inr a, d))"

definition same_tables :: "sql_db \<Rightarrow> sql_db \<Rightarrow> bool" where
  "same_tables a b \<longleftrightarrow> db_emails a = db_emails b \<and> db_events a = db_events b \<and> db_queue a = db_queue b"

lemma same_tables_refl [simp]: "same_tables d d"
  by (simp add: same_tables_def)

lemma same_tables_trans: "same_tables a b \<Longrightarrow> same_tables b c \<Longrightarrow> same_tables a c"
  by (simp add: same_tables_def)

lemma same_tables_faults [simp]: "same_tables (d\<lparr>db_faults := f\<rparr>) d' = same_tables d d'"
  "same_tables d (d'\<lparr>db_faults := f\<rparr>) = same_tables d d'"
  by (simp_all add: same_tables_def)

lemma stmt_Inl: "stmt ctx f db = (Inl e, d) \<Longrightarrow> e = ctx \<and> same_tables d db"
  by (auto simp: stmt_def Let_def split: if_splits option.splits)

lemma stmt_Inr: "stmt ctx f db = (Inr a, d) \<Longrightarrow> f (db\<lparr>db_faults := tl (db_faults db)\<rparr>) = Some (a, d)"
  by (auto simp: stmt_def Let_def split: if_splits option.splits)

lemma stmt_ok: "db_faults db = [] \<Longrightarrow> f db = Some (a, d) \<Longrightarrow> stmt ctx f db = (Inr a, d)"
  by (cases db) (auto simp: stmt_def)

lemma stmt_nop_Inr: "stmt ctx nop db = (Inr a, d) \<Longrightarrow> same_tables d db"
  by (drule stmt_Inr) (auto simp: nop_def)

lemma in_tx_Inl: "in_tx m db = (Inl e, d) \<Longrightarrow> (\<exists>d'. m db = (Inl e, d')) \<and> same_tables d db"
  by (auto simp: in_tx_def split: prod.splits sum.splits)

lemma in_tx_Inr: "in_tx m db = (Inr a, d) \<longleftrightarrow> m db = (Inr a, d)"
  by (auto simp: in_tx_def split: prod.splits sum.splits)

section \<open>The schema's invariant\<close>

definition email_ids :: "sql_db \<Rightarrow> email_id list" where
  "email_ids db = map er_id (db_emails db)"

definition email_keys :: "sql_db \<Rightarrow> string list" where
  "email_keys db = List.map_filter er_key (db_emails db)"

definition row_ok :: "email_row \<Rightarrow> bool" where
  "row_ok r \<longleftrightarrow> de_body_column (er_body r) \<noteq> None \<and> de_recipients (er_recipients r) \<noteq> None"

definition db_inv :: "sql_db \<Rightarrow> bool" where
  "db_inv db \<longleftrightarrow>
     distinct (email_ids db) \<and> distinct (email_keys db) \<and>
     distinct (map vr_id (db_events db)) \<and> distinct (map qr_id (db_queue db)) \<and>
     vr_email ` set (db_events db) \<subseteq> set (email_ids db) \<and>
     qr_email ` set (db_queue db) \<subseteq> set (email_ids db) \<and>
     (\<forall>r\<in>set (db_emails db). row_ok r)"

lemma db_inv_same: "same_tables d d' \<Longrightarrow> db_inv d = db_inv d'"
  by (simp add: same_tables_def db_inv_def email_ids_def email_keys_def)

lemma db_inv_faults [simp]: "db_inv (d\<lparr>db_faults := f\<rparr>) = db_inv d"
  by (rule db_inv_same) simp

definition find_email :: "email_id \<Rightarrow> sql_db \<Rightarrow> email_row option" where
  "find_email i db = List.find (\<lambda>r. er_id r = i) (db_emails db)"

lemma find_SomeD: "List.find P xs = Some x \<Longrightarrow> x \<in> set xs \<and> P x"
  by (auto simp: find_Some_iff)

lemma find_email_None: "find_email i db = None \<longleftrightarrow> i \<notin> set (email_ids db)"
  by (auto simp: find_email_def find_None_iff email_ids_def)

lemma find_email_Some: "find_email i db = Some r \<Longrightarrow> r \<in> set (db_emails db) \<and> er_id r = i"
  by (auto simp: find_email_def dest: find_SomeD)

lemma find_email_unique: "db_inv db \<Longrightarrow> r \<in> set (db_emails db) \<Longrightarrow> find_email (er_id r) db = Some r"
proof -
  assume inv: "db_inv db" and r: "r \<in> set (db_emails db)"
  then obtain r' where r': "find_email (er_id r) db = Some r'"
    using find_email_None [of "er_id r" db] by (cases "find_email (er_id r) db") (auto simp: email_ids_def)
  with find_email_Some [OF r'] r inv have "r' = r"
    by (auto simp: db_inv_def email_ids_def distinct_map inj_on_def)
  with r' show ?thesis by simp
qed

section \<open>Saving an email\<close>

definition email_row_of :: "int \<Rightarrow> email_id \<Rightarrow> envelope \<Rightarrow> email_row" where
  "email_row_of now i env =
     \<lparr>er_id = i, er_key = env_idempotency_key env, er_corr = env_correlation_id env,
      er_subject = env_subject env, er_sender = env_sender env,
      er_recipients = ser_recipients (recipients_to_dto (env_recipients env)),
      er_body = ser_body_column (env_body env) (env_attachments env),
      er_variables = env_variables env, er_created = now\<rparr>"

definition email_conflict :: "email_row \<Rightarrow> sql_db \<Rightarrow> bool" where
  "email_conflict r db \<longleftrightarrow> er_id r \<in> set (email_ids db) \<or>
     (case er_key r of None \<Rightarrow> False | Some k \<Rightarrow> k \<in> set (email_keys db))"

definition insert_or_ignore_email :: "email_row \<Rightarrow> sql_db \<Rightarrow> (nat \<times> sql_db) option" where
  "insert_or_ignore_email r db =
     (if email_conflict r db then Some (0, db) else Some (1, db\<lparr>db_emails := db_emails db @ [r]\<rparr>))"

definition select_id_by_key :: "string \<Rightarrow> sql_db \<Rightarrow> (email_id \<times> sql_db) option" where
  "select_id_by_key k db =
     (case List.find (\<lambda>r. er_key r = Some k) (db_emails db) of None \<Rightarrow> None | Some r \<Rightarrow> Some (er_id r, db))"

definition sqlite_save :: "int \<Rightarrow> email_id \<Rightarrow> envelope \<Rightarrow> sql_db \<Rightarrow> (email_repository_error + save_result) \<times> sql_db" where
  "sqlite_save now i env =
     map_err_st RepoStorage
       (and_then (stmt ''inserting email'' (insert_or_ignore_email (email_row_of now i env))) (\<lambda>affected.
          if affected = 1 then done_with (Created i)
          else case env_idempotency_key env of
             None \<Rightarrow> fail_with ''insert skipped with no idempotency key (unexpected id collision)''
           | Some key \<Rightarrow>
               and_then (stmt ''fetching existing email by idempotency key'' (select_id_by_key key))
                 (\<lambda>existing. done_with (Duplicate existing))))"

lemma save_created:
  assumes "sqlite_save now i env db = (Inr (Created j), d)"
  shows "j = i \<and> \<not> email_conflict (email_row_of now i env) db \<and>
    same_tables d (db\<lparr>db_emails := db_emails db @ [email_row_of now i env]\<rparr>)"
  using assms
  by (auto simp: sqlite_save_def st_results insert_or_ignore_email_def same_tables_def email_conflict_def
      email_ids_def email_keys_def dest!: stmt_Inr split: if_splits option.splits)

lemma save_fresh:
  assumes "db_faults db = []" "\<not> email_conflict (email_row_of now i env) db"
  shows "sqlite_save now i env db = (Inr (Created i), db\<lparr>db_emails := db_emails db @ [email_row_of now i env]\<rparr>)"
proof -
  have "stmt ''inserting email'' (insert_or_ignore_email (email_row_of now i env)) db =
      (Inr 1, db\<lparr>db_emails := db_emails db @ [email_row_of now i env]\<rparr>)"
    using assms by (intro stmt_ok) (auto simp: insert_or_ignore_email_def)
  then show ?thesis by (simp add: sqlite_save_def map_err_st_def and_then_def done_with_def)
qed

lemma save_duplicate:
  assumes "sqlite_save now i env db = (Inr (Duplicate j), d)"
  shows "same_tables d db \<and> (\<exists>k r. env_idempotency_key env = Some k \<and> r \<in> set (db_emails db) \<and>
    er_key r = Some k \<and> er_id r = j)"
  using assms
  by (auto simp: sqlite_save_def st_results insert_or_ignore_email_def select_id_by_key_def same_tables_def
      dest!: stmt_Inr find_SomeD split: if_splits option.splits)

lemma save_error:
  assumes "sqlite_save now i env db = (Inl e, d)" shows "same_tables d db"
  using assms
  by (auto simp: sqlite_save_def st_results insert_or_ignore_email_def
      dest!: stmt_Inr stmt_Inl dest: same_tables_trans split: if_splits option.splits)


text \<open>The types' own invariants: a \<open>Plain\<close> body is not empty, sizes fit their width.\<close>

definition env_ok :: "envelope \<Rightarrow> bool" where
  "env_ok env \<longleftrightarrow> body_ok (env_body env) \<and> (\<forall>a\<in>set (env_attachments env). size_fits a)"

lemma row_ok_of: "env_ok env \<Longrightarrow> row_ok (email_row_of now i env)"
  by (simp add: row_ok_def email_row_of_def env_ok_def de_ser_body_column)

lemma map_filter_append: "List.map_filter f (xs @ ys) = List.map_filter f xs @ List.map_filter f ys"
  by (simp add: List.map_filter_def)

lemma map_filter_single: "List.map_filter f [x] = (case f x of None \<Rightarrow> [] | Some y \<Rightarrow> [y])"
  by (simp add: List.map_filter_def split: option.splits)

lemma db_inv_insert_email:
  "db_inv db \<Longrightarrow> row_ok r \<Longrightarrow> \<not> email_conflict r db \<Longrightarrow> db_inv (db\<lparr>db_emails := db_emails db @ [r]\<rparr>)"
  by (auto simp: db_inv_def email_conflict_def email_ids_def email_keys_def map_filter_append map_filter_single
      split: option.splits)

lemma save_keeps_inv:
  assumes "db_inv db" "env_ok env" "sqlite_save now i env db = (r, d)" shows "db_inv d"
proof -
  consider (e) e where "r = Inl e" | (c) j where "r = Inr (Created j)" | (d) j where "r = Inr (Duplicate j)"
    by (metis sum.exhaust save_result.exhaust)
  then show ?thesis
  proof cases
    case e then show ?thesis using assms save_error db_inv_same by blast
  next
    case c
    with assms save_created have "same_tables d (db\<lparr>db_emails := db_emails db @ [email_row_of now i env]\<rparr>)"
      "\<not> email_conflict (email_row_of now i env) db" by blast+
    with assms(1,2) db_inv_insert_email row_ok_of db_inv_same show ?thesis by blast
  next
    case d then show ?thesis using assms save_duplicate db_inv_same by blast
  qed
qed

section \<open>Recording attachment references\<close>

definition select_body :: "email_id \<Rightarrow> sql_db \<Rightarrow> ((body_source_dto \<times> attachment_ref list) option \<times> sql_db) option" where
  "select_body i db =
     (case find_email i db of
        None \<Rightarrow> Some (None, db)
      | Some r \<Rightarrow> (case de_body_column (er_body r) of None \<Rightarrow> None | Some b \<Rightarrow> Some (Some b, db)))"

definition update_body :: "email_id \<Rightarrow> json \<Rightarrow> sql_db \<Rightarrow> (nat \<times> sql_db) option" where
  "update_body i body db =
     Some (length (filter (\<lambda>r. er_id r = i) (db_emails db)),
           db\<lparr>db_emails := map (\<lambda>r. if er_id r = i then r\<lparr>er_body := body\<rparr> else r) (db_emails db)\<rparr>)"

definition not_found_msg :: anyhow where
  "not_found_msg = ''email not found for set_attachments''"

definition sqlite_set_attachments :: "email_id \<Rightarrow> attachment_ref list \<Rightarrow> sql_db \<Rightarrow> (email_repository_error + unit) \<times> sql_db" where
  "sqlite_set_attachments i refs =
     map_err_st RepoStorage (in_tx
       (and_then (stmt ''starting transaction'' nop) (\<lambda>_.
        and_then (stmt ''reading body for set_attachments'' (select_body i)) (\<lambda>row.
          case row of
            None \<Rightarrow> fail_with not_found_msg
          | Some (source, _) \<Rightarrow>
              and_then (stmt ''writing body for set_attachments''
                  (update_body i (ser_envelope_body source (map attachment_ref_to_dto refs)))) (\<lambda>affected.
                if affected = 0 then fail_with not_found_msg
                else stmt ''committing set_attachments transaction'' nop)))))"

definition with_refs :: "email_id \<Rightarrow> attachment_ref list \<Rightarrow> sql_db \<Rightarrow> sql_db" where
  "with_refs i refs db =
     db\<lparr>db_emails := map (\<lambda>r. if er_id r = i then
          r\<lparr>er_body := (case de_body_column (er_body r) of None \<Rightarrow> er_body r
              | Some (source, _) \<Rightarrow> ser_envelope_body source (map attachment_ref_to_dto refs))\<rparr> else r)
        (db_emails db)\<rparr>"

lemma set_attachments_error: "sqlite_set_attachments i refs db = (Inl e, d) \<Longrightarrow> same_tables d db"
  by (auto simp: sqlite_set_attachments_def map_err_st_Inl dest: in_tx_Inl)

lemma same_tables_find_email: "same_tables a b \<Longrightarrow> find_email i a = find_email i b"
  by (simp add: same_tables_def find_email_def)

lemma same_tables_with_refs: "same_tables a b \<Longrightarrow> same_tables (with_refs i refs a) (with_refs i refs b)"
  by (simp add: same_tables_def with_refs_def)

lemma set_attachments_ok:
  assumes inv: "db_inv db" and run: "sqlite_set_attachments i refs db = (Inr u, d)"
  shows "\<exists>r source old. find_email i db = Some r \<and> de_body_column (er_body r) = Some (source, old) \<and>
    same_tables d (with_refs i refs db)"
proof -
  from run obtain d1 d2 d3 source old n where
    1: "stmt ''starting transaction'' nop db = (Inr (), d1)" and
    2: "stmt ''reading body for set_attachments'' (select_body i) d1 = (Inr (Some (source, old)), d2)" and
    3: "stmt ''writing body for set_attachments''
         (update_body i (ser_envelope_body source (map attachment_ref_to_dto refs))) d2 = (Inr n, d3)" and
    4: "stmt ''committing set_attachments transaction'' nop d3 = (Inr (), d)"
    by (auto simp: sqlite_set_attachments_def st_results in_tx_Inr split: option.splits if_splits)
  note s1 = stmt_nop_Inr [OF 1] and s4 = stmt_nop_Inr [OF 4]
  from stmt_Inr [OF 2] have s2: "same_tables d2 d1"
    by (auto simp: select_body_def split: option.splits)
  from stmt_Inr [OF 2] obtain r where "find_email i d1 = Some r" "de_body_column (er_body r) = Some (source, old)"
    by (auto simp: select_body_def find_email_def split: option.splits)
  with s1 have r: "find_email i db = Some r" "de_body_column (er_body r) = Some (source, old)"
    using same_tables_find_email by auto
  have uniq: "x = r" if "x \<in> set (db_emails db)" "er_id x = i" for x
    using find_email_unique [OF inv that(1)] that(2) r(1) by simp
  have emails: "db_emails d2 = db_emails db" "db_events d2 = db_events db" "db_queue d2 = db_queue db"
    using s1 s2 by (auto simp: same_tables_def)
  have "same_tables d3 (with_refs i refs db)"
    using stmt_Inr [OF 3] emails uniq r(2)
    by (auto simp: update_body_def same_tables_def with_refs_def)
  with s4 r same_tables_trans show ?thesis by blast
qed

lemma set_attachments_run:
  assumes inv: "db_inv db" and db: "db_faults db = []" and r: "find_email i db = Some r"
  shows "sqlite_set_attachments i refs db = (Inr (), with_refs i refs db)"
proof -
  have "row_ok r" using inv find_email_Some [OF r] by (simp add: db_inv_def)
  then obtain source old where b: "de_body_column (er_body r) = Some (source, old)" by (auto simp: row_ok_def)
  have uniq: "x = r" if "x \<in> set (db_emails db)" "er_id x = i" for x
    using find_email_unique [OF inv that(1)] that(2) r by simp
  let ?body = "ser_envelope_body source (map attachment_ref_to_dto refs)"
  have 1: "stmt ctx nop d = (Inr (), d)" if "db_faults d = []" for ctx d
    by (rule stmt_ok [OF that]) (simp add: nop_def)
  have 2: "stmt ''reading body for set_attachments'' (select_body i) db = (Inr (Some (source, old)), db)"
    by (rule stmt_ok [OF db]) (simp add: select_body_def r b)
  have n: "length (filter (\<lambda>r. er_id r = i) (db_emails db)) \<noteq> 0"
    using find_email_Some [OF r] by (auto simp: filter_empty_conv)
  have upd: "update_body i ?body db = Some (length (filter (\<lambda>r. er_id r = i) (db_emails db)), with_refs i refs db)"
  proof -
    have "(if er_id x = i then x\<lparr>er_body := ?body\<rparr> else x) = (if er_id x = i then
        x\<lparr>er_body := (case de_body_column (er_body x) of None \<Rightarrow> er_body x
              | Some (source, _) \<Rightarrow> ser_envelope_body source (map attachment_ref_to_dto refs))\<rparr> else x)"
      if "x \<in> set (db_emails db)" for x
      using uniq [OF that] b by auto
    then have "map (\<lambda>x. if er_id x = i then x\<lparr>er_body := ?body\<rparr> else x) (db_emails db) = db_emails (with_refs i refs db)"
      by (simp add: with_refs_def)
    then show ?thesis by (simp add: update_body_def with_refs_def [of i refs db])
  qed
  have 3: "stmt ''writing body for set_attachments'' (update_body i ?body) db =
      (Inr (length (filter (\<lambda>r. er_id r = i) (db_emails db))), with_refs i refs db)"
    using stmt_ok [of db "update_body i ?body", OF db upd] .
  show ?thesis
    using 1 [OF db] 2 3 n 1 [of "with_refs i refs db"] db
    by (simp add: sqlite_set_attachments_def map_err_st_def in_tx_def and_then_def with_refs_def)
qed

lemma with_refs_ids [simp]: "email_ids (with_refs i refs db) = email_ids db"
  by (simp add: email_ids_def with_refs_def comp_def if_distrib cong: if_cong)

lemma with_refs_other [simp]: "db_events (with_refs i refs db) = db_events db" "db_queue (with_refs i refs db) = db_queue db"
  by (simp_all add: with_refs_def)

lemma with_refs_keys [simp]: "email_keys (with_refs i refs db) = email_keys db"
proof -
  have "List.map_filter er_key (map (\<lambda>r. if er_id r = i then r\<lparr>er_body := f r\<rparr> else r) xs) = List.map_filter er_key xs"
    for f xs by (induction xs) (auto simp: List.map_filter_def)
  then show ?thesis by (simp add: email_keys_def with_refs_def)
qed

lemma db_inv_with_refs:
  assumes "db_inv db" "\<forall>a\<in>set refs. size_fits a" shows "db_inv (with_refs i refs db)"
proof -
  have "row_ok r" if "r \<in> set (db_emails (with_refs i refs db))" for r
    using that assms(1) de_ser_refs [OF assms(2)]
    by (auto simp: with_refs_def row_ok_def db_inv_def split: option.splits if_splits)
  with assms(1) show ?thesis
    unfolding db_inv_def by simp
qed


lemma set_attachments_keeps_inv:
  assumes "db_inv db" "\<forall>a\<in>set refs. size_fits a" "sqlite_set_attachments i refs db = (r, d)" shows "db_inv d"
proof (cases r)
  case (Inl e)
  with assms set_attachments_error db_inv_same show ?thesis by blast
next
  case (Inr u)
  with assms set_attachments_ok db_inv_with_refs db_inv_same show ?thesis by blast
qed

section \<open>Deleting an email\<close>

text \<open>The foreign keys of \<open>lifecycle_events\<close> and \<open>email_queue\<close> are enforced (\<open>sqlx\<close> turns them on).\<close>

definition delete_email_row :: "email_id \<Rightarrow> sql_db \<Rightarrow> (nat \<times> sql_db) option" where
  "delete_email_row i db =
     (if i \<in> set (email_ids db) \<and> (i \<in> vr_email ` set (db_events db) \<or> i \<in> qr_email ` set (db_queue db)) then None
      else Some (length (filter (\<lambda>r. er_id r = i) (db_emails db)),
                 db\<lparr>db_emails := filter (\<lambda>r. er_id r \<noteq> i) (db_emails db)\<rparr>))"

definition sqlite_delete :: "email_id \<Rightarrow> sql_db \<Rightarrow> (email_repository_error + unit) \<times> sql_db" where
  "sqlite_delete i =
     map_err_st RepoStorage (and_then (stmt ''deleting email'' (delete_email_row i)) (\<lambda>_. done_with ()))"

definition without_email :: "email_id \<Rightarrow> sql_db \<Rightarrow> sql_db" where
  "without_email i db = db\<lparr>db_emails := filter (\<lambda>r. er_id r \<noteq> i) (db_emails db)\<rparr>"

lemma delete_error: "sqlite_delete i db = (Inl e, d) \<Longrightarrow> same_tables d db"
  by (auto simp: sqlite_delete_def st_results dest: stmt_Inl)

lemma delete_ok:
  assumes "db_inv db" "sqlite_delete i db = (Inr u, d)"
  shows "same_tables d (without_email i db) \<and> i \<notin> vr_email ` set (db_events db) \<and> i \<notin> qr_email ` set (db_queue db)"
proof -
  from assms(1) have "i \<notin> set (email_ids db) \<Longrightarrow> i \<notin> vr_email ` set (db_events db) \<and> i \<notin> qr_email ` set (db_queue db)"
    unfolding db_inv_def by blast
  with assms(2) show ?thesis
    by (auto simp: sqlite_delete_def st_results delete_email_row_def without_email_def same_tables_def email_ids_def
        dest!: stmt_Inr split: if_splits)
qed

lemma set_map_filter: "set (List.map_filter f xs) = {y. \<exists>x\<in>set xs. f x = Some y}"
  by (force simp: List.map_filter_def)

lemma distinct_map_filter: "distinct (List.map_filter f xs) \<Longrightarrow> distinct (List.map_filter f (filter P xs))"
proof (induction xs)
  case (Cons x xs)
  have step: "List.map_filter f (y # ys) = (case f y of None \<Rightarrow> List.map_filter f ys | Some z \<Rightarrow> z # List.map_filter f ys)" for y ys
    by (simp add: List.map_filter_def split: option.splits)
  from Cons show ?case
    by (cases "P x"; cases "f x") (auto simp: step set_map_filter)
qed simp

lemma db_inv_without_email:
  assumes "db_inv db" "i \<notin> vr_email ` set (db_events db)" "i \<notin> qr_email ` set (db_queue db)"
  shows "db_inv (without_email i db)"
proof -
  have ids: "email_ids (without_email i db) = filter (\<lambda>j. j \<noteq> i) (email_ids db)"
    by (simp add: email_ids_def without_email_def filter_map comp_def)
  have keys: "email_keys (without_email i db) = List.map_filter er_key (filter (\<lambda>r. er_id r \<noteq> i) (db_emails db))"
    by (simp add: email_keys_def without_email_def)
  have "distinct (List.map_filter er_key (db_emails db))" using assms(1) by (simp add: db_inv_def email_keys_def)
  then have "distinct (email_keys (without_email i db))"
    unfolding keys by (rule distinct_map_filter)
  moreover have "distinct (email_ids (without_email i db))" "\<forall>r\<in>set (db_emails (without_email i db)). row_ok r"
    using assms(1) unfolding ids by (simp_all add: db_inv_def without_email_def)
  ultimately show ?thesis
    using assms unfolding db_inv_def ids by (auto simp: without_email_def)
qed

lemma delete_keeps_inv:
  assumes "db_inv db" "sqlite_delete i db = (r, d)" shows "db_inv d"
proof (cases r)
  case (Inl e)
  with assms delete_error db_inv_same show ?thesis by blast
next
  case (Inr u)
  note ok = delete_ok [OF assms(1) assms(2) [unfolded Inr]]
  with db_inv_without_email [OF assms(1)] have "db_inv (without_email i db)" by blast
  with ok db_inv_same show ?thesis by blast
qed

section \<open>Publishing an event\<close>

definition event_row_of :: "int \<Rightarrow> uuid \<Rightarrow> lifecycle_event \<Rightarrow> event_row" where
  "event_row_of now ev_id ev =
     \<lparr>vr_id = ev_id, vr_email = event_email_id ev, vr_type = event_type ev,
      vr_payload = Some (event_payload ev), vr_sender = map_option sender_str (event_sender_name ev),
      vr_class = map_option error_class_as_str (event_error_class ev), vr_created = now\<rparr>"

definition insert_event :: "event_row \<Rightarrow> sql_db \<Rightarrow> (unit \<times> sql_db) option" where
  "insert_event v db =
     (if vr_id v \<in> vr_id ` set (db_events db) \<or> vr_email v \<notin> set (email_ids db) then None
      else Some ((), db\<lparr>db_events := db_events db @ [v]\<rparr>))"

definition sqlite_publish :: "int \<Rightarrow> uuid \<Rightarrow> lifecycle_event \<Rightarrow> sql_db \<Rightarrow> (event_publisher_error + unit) \<times> sql_db" where
  "sqlite_publish now ev_id ev =
     map_err_st PublishError (and_then (stmt ''inserting lifecycle event'' (insert_event (event_row_of now ev_id ev))) (\<lambda>_. done_with ()))"

lemma publish_error: "sqlite_publish now e ev db = (Inl er, d) \<Longrightarrow> same_tables d db"
  by (auto simp: sqlite_publish_def st_results dest: stmt_Inl)

lemma publish_ok:
  assumes "sqlite_publish now e ev db = (Inr u, d)"
  shows "same_tables d (db\<lparr>db_events := db_events db @ [event_row_of now e ev]\<rparr>) \<and>
    e \<notin> vr_id ` set (db_events db) \<and> event_email_id ev \<in> set (email_ids db)"
  using assms by (auto simp: sqlite_publish_def st_results insert_event_def same_tables_def event_row_of_def email_ids_def
      dest!: stmt_Inr split: if_splits)

lemma publish_keeps_inv:
  assumes "db_inv db" "sqlite_publish now e ev db = (r, d)" shows "db_inv d"
proof (cases r)
  case (Inl e)
  with assms publish_error db_inv_same show ?thesis by blast
next
  case (Inr u)
  have "db_inv (db\<lparr>db_events := db_events db @ [event_row_of now e ev]\<rparr>)"
    using assms(1) publish_ok [OF assms(2) [unfolded Inr]]
    by (auto simp: db_inv_def email_ids_def email_keys_def event_row_of_def)
  with publish_ok [OF assms(2) [unfolded Inr]] db_inv_same show ?thesis by blast
qed


section \<open>The latest event and the status of an email\<close>

text \<open>\<open>ORDER BY created_at DESC, id DESC\<close>.\<close>

definition newest_first :: "('r \<Rightarrow> int) \<Rightarrow> ('r \<Rightarrow> 'i :: linorder) \<Rightarrow> 'r list \<Rightarrow> 'r list" where
  "newest_first created rid rs = rev (sort_key (\<lambda>r. (created r, rid r)) rs)"

definition latest_event_type :: "email_id \<Rightarrow> sql_db \<Rightarrow> string" where
  "latest_event_type i db =
     (case newest_first vr_created vr_id (filter (\<lambda>v. vr_email v = i) (db_events db)) of
        [] \<Rightarrow> ''queued''
      | v # _ \<Rightarrow> vr_type v)"

definition status_of_type :: "string \<Rightarrow> email_status" where
  "status_of_type t =
     (if t = ''delivery.succeeded'' then StatusSent
      else if t = ''delivery.failed'' then StatusFailed else StatusQueued)"

definition terminal_type :: "string \<Rightarrow> bool" where
  "terminal_type t \<longleftrightarrow> t \<in> set [''delivery.succeeded'', ''delivery.failed'']"

lemma newest_first_set [simp]: "set (newest_first c i rs) = set rs"
  by (simp add: newest_first_def)

lemma newest_first_Nil [simp]: "newest_first c i rs = [] \<longleftrightarrow> rs = []"
  using newest_first_set [of c i rs] by (metis set_empty)

lemma newest_first_sorted:
  "sorted_wrt (\<lambda>a b. (c b, i b) \<le> (c a, i a)) (newest_first c i rs)"
proof -
  have "sorted (map (\<lambda>r. (c r, i r)) (sort_key (\<lambda>r. (c r, i r)) rs))" by simp
  then show ?thesis by (simp add: newest_first_def sorted_wrt_rev sorted_wrt_map)
qed

lemma newest_first_hd:
  assumes "newest_first c i rs = r # rest" "x \<in> set rs" shows "(c x, i x) \<le> (c r, i r)"
proof -
  have "x \<in> set (r # rest)" using assms newest_first_set [of c i rs] by simp
  moreover have "sorted_wrt (\<lambda>a b. (c b, i b) \<le> (c a, i a)) (r # rest)"
    using newest_first_sorted [of c i rs] assms(1) by simp
  ultimately show ?thesis by auto
qed

lemma latest_no_events [simp]: "db_events db = [] \<Longrightarrow> latest_event_type i db = ''queued''"
  by (simp add: latest_event_type_def newest_first_def)

section \<open>Listing emails\<close>

text \<open>SQLite's \<open>LIKE\<close>: \<open>%\<close> matches any string, \<open>_\<close> any character, letters regardless of ASCII case, and there
  is no escape character.\<close>

fun sql_like :: "string \<Rightarrow> string \<Rightarrow> bool" where
  "sql_like [] [] \<longleftrightarrow> True"
| "sql_like [] (c # cs) \<longleftrightarrow> False"
| "sql_like (p # ps) [] \<longleftrightarrow> p = CHR ''%'' \<and> sql_like ps []"
| "sql_like (p # ps) (c # cs) \<longleftrightarrow>
     (if p = CHR ''%'' then sql_like ps (c # cs) \<or> sql_like (p # ps) cs
      else (p = CHR ''_'' \<or> ascii_lower p = ascii_lower c) \<and> sql_like ps cs)"

definition recipient_matches :: "(string \<Rightarrow> string \<Rightarrow> bool) \<Rightarrow> string \<Rightarrow> json \<Rightarrow> bool" where
  "recipient_matches lk needle j =
     (case j of
        JArr xs \<Rightarrow> \<exists>x\<in>set xs. case de_str (json_field ''address'' x) of
            None \<Rightarrow> False | Some a \<Rightarrow> lk (''%'' @ needle @ ''%'') a
      | _ \<Rightarrow> False)"

definition named_template :: "json \<Rightarrow> string option" where
  "named_template body =
     (case json_field ''source'' body of
        None \<Rightarrow> None
      | Some src \<Rightarrow> if de_str (json_field ''kind'' src) = Some ''mjml_named''
                   then de_str (json_field ''name'' src) else None)"

definition opt_filter :: "'a option \<Rightarrow> ('a \<Rightarrow> bool) \<Rightarrow> bool" where
  "opt_filter x p \<longleftrightarrow> (case x of None \<Rightarrow> True | Some a \<Rightarrow> p a)"

definition status_filter :: "email_status \<Rightarrow> string \<Rightarrow> bool" where
  "status_filter s t \<longleftrightarrow>
     (case s of
        StatusSent \<Rightarrow> t = ''delivery.succeeded''
      | StatusFailed \<Rightarrow> t = ''delivery.failed''
      | StatusQueued \<Rightarrow> \<not> terminal_type t)"

definition email_selected :: "(string \<Rightarrow> string \<Rightarrow> bool) \<Rightarrow> list_emails_params \<Rightarrow> sql_db \<Rightarrow> email_row \<Rightarrow> bool" where
  "email_selected lk p db r \<longleftrightarrow>
     opt_filter (le_id p) (\<lambda>i. er_id r = i) \<and>
     opt_filter (le_after_ms p) (\<lambda>a. a < er_created r) \<and>
     opt_filter (le_before_ms p) (\<lambda>b. er_created r < b) \<and>
     opt_filter (le_recipient p) (\<lambda>x. recipient_matches lk x (er_recipients r)) \<and>
     opt_filter (le_template p) (\<lambda>t. named_template (er_body r) = Some t) \<and>
     opt_filter (le_status p) (\<lambda>s. status_filter s (latest_event_type (er_id r) db))"

definition page :: "nat \<Rightarrow> nat \<Rightarrow> 'a list \<Rightarrow> 'a list" where
  "page lim off xs = take lim (drop off xs)"

definition select_emails :: "(string \<Rightarrow> string \<Rightarrow> bool) \<Rightarrow> list_emails_params \<Rightarrow> sql_db \<Rightarrow> (email_row list \<times> sql_db) option" where
  "select_emails lk p db =
     Some (page (le_limit p) (le_offset p)
             (newest_first er_created er_id (filter (email_selected lk p db) (db_emails db))), db)"

definition row_to_email_record :: "sql_db \<Rightarrow> email_row \<Rightarrow> anyhow + email_record" where
  "row_to_email_record db r =
     (case de_recipients (er_recipients r) of
        None \<Rightarrow> Err ''reading recipients''
      | Some rs \<Rightarrow> Ok \<lparr>rec_id = er_id r, rec_idempotency_key = er_key r, rec_subject = er_subject r,
          rec_sender = er_sender r, rec_recipients = recipients_from_dto rs,
          rec_created_at_ms = er_created r, rec_status = status_of_type (latest_event_type (er_id r) db)\<rparr>)"

definition sqlite_list_emails :: "list_emails_params \<Rightarrow> sql_db \<Rightarrow> (email_repository_error + email_record list) \<times> sql_db" where
  "sqlite_list_emails p =
     map_err_st RepoStorage
       (and_then (stmt ''listing emails'' (select_emails sql_like p))
          (\<lambda>rows d. (collect_results (row_to_email_record d) rows, d)))"

section \<open>The blobs that are still needed\<close>

definition select_active_bodies :: "sql_db \<Rightarrow> (json list \<times> sql_db) option" where
  "select_active_bodies db =
     Some (map er_body (filter (\<lambda>r. \<not> terminal_type (latest_event_type (er_id r) db)) (db_emails db)), db)"

definition sqlite_list_all_attachment_blobs :: "sql_db \<Rightarrow> (email_repository_error + blob_ref list) \<times> sql_db" where
  "sqlite_list_all_attachment_blobs =
     map_err_st RepoStorage
       (and_then (stmt ''listing email bodies for attachment blobs'' select_active_bodies) (\<lambda>bodies.
          done_with (concat (map (\<lambda>j. case de_body_column j of None \<Rightarrow> [] | Some (_, as) \<Rightarrow> map ar_blob as) bodies))))"

section \<open>Listing events\<close>

definition event_selected :: "list_events_params \<Rightarrow> event_row \<Rightarrow> bool" where
  "event_selected p v \<longleftrightarrow>
     opt_filter (lv_email_id p) (\<lambda>i. vr_email v = i) \<and>
     opt_filter (lv_event_type p) (\<lambda>t. vr_type v = t) \<and>
     opt_filter (lv_sender_name p) (\<lambda>n. vr_sender v = Some n) \<and>
     opt_filter (lv_error_class p) (\<lambda>c. vr_class v = Some (error_class_as_str c)) \<and>
     opt_filter (lv_after_ms p) (\<lambda>a. a < vr_created v) \<and>
     opt_filter (lv_before_ms p) (\<lambda>b. vr_created v < b)"

definition row_to_event_record :: "event_row \<Rightarrow> event_record" where
  "row_to_event_record v =
     \<lparr>evr_id = vr_id v, evr_email_id = vr_email v, evr_event_type = vr_type v, evr_payload = vr_payload v,
      evr_sender_name = map_option SenderName (vr_sender v), evr_error_class = vr_class v,
      evr_created_at_ms = vr_created v\<rparr>"

definition select_events :: "list_events_params \<Rightarrow> sql_db \<Rightarrow> (event_row list \<times> sql_db) option" where
  "select_events p db =
     Some (page (lv_limit p) (lv_offset p) (newest_first vr_created vr_id (filter (event_selected p) (db_events db))), db)"

definition sqlite_list_events :: "list_events_params \<Rightarrow> sql_db \<Rightarrow> (event_repository_error + event_record list) \<times> sql_db" where
  "sqlite_list_events p =
     map_err_st EventStorage
       (and_then (stmt ''listing lifecycle events'' (select_events p)) (\<lambda>rows. done_with (map row_to_event_record rows)))"

section \<open>Sender statistics\<close>

definition count_events :: "string \<Rightarrow> string \<Rightarrow> int \<Rightarrow> sql_db \<Rightarrow> nat" where
  "count_events t name since db =
     length (filter (\<lambda>v. vr_type v = t \<and> vr_sender v = Some name \<and> since \<le> vr_created v) (db_events db))"

text \<open>\<open>GROUP BY sender_name\<close>: a row for each asked name with at least one matching event.\<close>

definition stats_rows :: "string \<Rightarrow> string \<Rightarrow> string list \<Rightarrow> int \<Rightarrow> sql_db \<Rightarrow> string \<rightharpoonup> nat \<times> nat" where
  "stats_rows sent failed names since db =
     (\<lambda>n. let s = count_events sent n since db; f = count_events failed n since db
          in if n \<in> set names \<and> s + f > 0 then Some (s, f) else None)"

text \<open>Each name takes its row out of the map, so a name asked twice finds nothing the second time.\<close>

fun take_stats :: "(string \<rightharpoonup> nat \<times> nat) \<Rightarrow> sender_name list \<Rightarrow> sender_stats list" where
  "take_stats m [] = []"
| "take_stats m (n # ns) =
     (let (s, f) = (case m (sender_str n) of None \<Rightarrow> (0, 0) | Some sf \<Rightarrow> sf)
      in \<lparr>ss_name = n, ss_sent_in_range = s, ss_failed_in_range = f\<rparr> # take_stats (m(sender_str n := None)) ns)"

definition get_stats_sql :: "string \<Rightarrow> string \<Rightarrow> sender_name list \<Rightarrow> int \<Rightarrow> sql_db \<Rightarrow> (sender_usage_error + sender_stats list) \<times> sql_db" where
  "get_stats_sql sent failed names since db =
     (if names = [] then (Ok [], db)
      else map_err_st UsageStorage
        (and_then (stmt ''querying sender stats''
            (\<lambda>d. Some (stats_rows sent failed (map sender_str names) since d, d)))
          (\<lambda>m. done_with (take_stats m names))) db)"

definition sqlite_get_stats :: "sender_name list \<Rightarrow> int \<Rightarrow> sql_db \<Rightarrow> (sender_usage_error + sender_stats list) \<times> sql_db" where
  "sqlite_get_stats = get_stats_sql ''delivery.succeeded'' ''delivery.failed''"

definition sqlite_check :: "sql_db \<Rightarrow> (health_check_error + unit) \<times> sql_db" where
  "sqlite_check = map_err_st Unavailable (stmt ''sqlite readiness probe failed'' nop)"

lemma take_stats_names: "map ss_name (take_stats m ns) = ns"
  by (induction ns arbitrary: m) (auto simp: Let_def split: option.splits)

lemma take_stats_distinct:
  "distinct ns \<Longrightarrow> take_stats m ns =
     map (\<lambda>n. let (s, f) = (case m (sender_str n) of None \<Rightarrow> (0, 0) | Some sf \<Rightarrow> sf)
              in \<lparr>ss_name = n, ss_sent_in_range = s, ss_failed_in_range = f\<rparr>) ns"
proof (induction ns arbitrary: m)
  case (Cons n ns)
  then have "sender_str x \<noteq> sender_str n" if "x \<in> set ns" for x
    using that by (metis distinct.simps(2) sender_name.expand)
  with Cons show ?case by (auto simp: Let_def split: option.splits)
qed simp

interpretation sqlite_usage: sender_usage sqlite_get_stats
  by unfold_locales
    (auto simp: sqlite_get_stats_def get_stats_sql_def st_results take_stats_names split: if_splits)


section \<open>What the queries return\<close>

lemma page_concat: "concat (map (\<lambda>k. page l (k * l) xs) [0..<n]) = take (n * l) xs"
proof (induction n)
  case (Suc n)
  have "take (n * l + l) xs = take (n * l) xs @ take l (drop (n * l) xs)" by (rule take_add)
  with Suc show ?case by (simp add: page_def add.commute)
qed simp

lemma page_map: "page l k (map f xs) = map f (page l k xs)"
  by (simp add: page_def take_map drop_map)

lemma set_page: "set (page l k xs) \<subseteq> set xs"
  by (auto simp: page_def dest: in_set_takeD in_set_dropD)

definition email_record_of :: "sql_db \<Rightarrow> email_row \<Rightarrow> email_record" where
  "email_record_of db r =
     \<lparr>rec_id = er_id r, rec_idempotency_key = er_key r, rec_subject = er_subject r,
      rec_sender = er_sender r, rec_recipients = recipients_from_dto (the (de_recipients (er_recipients r))),
      rec_created_at_ms = er_created r, rec_status = status_of_type (latest_event_type (er_id r) db)\<rparr>"

lemma row_to_email_record_ok: "row_ok r \<Longrightarrow> row_to_email_record db r = Inr (email_record_of db r)"
  by (auto simp: row_ok_def row_to_email_record_def email_record_of_def)

lemma row_to_email_record_of_saved:
  "row_to_email_record db (email_row_of now i env) =
     Inr \<lparr>rec_id = i, rec_idempotency_key = env_idempotency_key env, rec_subject = env_subject env,
       rec_sender = env_sender env, rec_recipients = env_recipients env, rec_created_at_ms = now,
       rec_status = status_of_type (latest_event_type i db)\<rparr>"
  by (simp add: row_to_email_record_def email_row_of_def)

lemma newest_first_distinct:
  assumes "distinct (map i rs)"
  shows "sorted_wrt (\<lambda>a b. (c b, i b) < (c a, i a)) (newest_first c i rs)"
proof -
  have "distinct (map i (newest_first c i rs))"
    using assms by (simp add: newest_first_def distinct_map inj_on_def)
  then have "sorted_wrt (\<lambda>a b. i a \<noteq> i b) (newest_first c i rs)"
    by (simp add: distinct_conv_nth sorted_wrt_iff_nth_less)
  with newest_first_sorted [of c i rs]
  have "sorted_wrt (\<lambda>a b. (c b, i b) \<le> (c a, i a) \<and> i a \<noteq> i b) (newest_first c i rs)"
    by (simp only: sorted_wrt_iff_nth_less) blast
  then show ?thesis by (rule sorted_wrt_mono_rel [rotated]) auto
qed

lemma sqlite_list_emails_run:
  assumes "db_inv db" "db_faults db = []"
  shows "sqlite_list_emails p db =
    (Inr (page (le_limit p) (le_offset p)
       (map (email_record_of db) (newest_first er_created er_id (filter (email_selected sql_like p db) (db_emails db))))), db)"
proof -
  let ?rows = "page (le_limit p) (le_offset p)
    (newest_first er_created er_id (filter (email_selected sql_like p db) (db_emails db)))"
  have st: "stmt ''listing emails'' (select_emails sql_like p) db = (Inr ?rows, db)"
    by (rule stmt_ok [OF assms(2)]) (simp add: select_emails_def)
  have "set ?rows \<subseteq> set (db_emails db)"
    using set_page [of _ _ "newest_first er_created er_id (filter (email_selected sql_like p db) (db_emails db))"] by auto
  then have "row_to_email_record db r = Inr (email_record_of db r)" if "r \<in> set ?rows" for r
    using that assms(1) by (intro row_to_email_record_ok) (auto simp: db_inv_def)
  then have "collect_results (row_to_email_record db) ?rows = Inr (map (email_record_of db) ?rows)"
    by (rule collect_results_ok)
  with st show ?thesis
    by (simp add: sqlite_list_emails_def map_err_st_def and_then_def page_map)
qed

lemma list_blobs_run:
  assumes "db_faults db = []"
  shows "sqlite_list_all_attachment_blobs db =
    (Inr (concat (map (\<lambda>j. case de_body_column j of None \<Rightarrow> [] | Some (_, as) \<Rightarrow> map ar_blob as)
       (map er_body (filter (\<lambda>r. \<not> terminal_type (latest_event_type (er_id r) db)) (db_emails db))))), db)"
proof -
  have "stmt ''listing email bodies for attachment blobs'' select_active_bodies db =
      (Inr (map er_body (filter (\<lambda>r. \<not> terminal_type (latest_event_type (er_id r) db)) (db_emails db))), db)"
    by (rule stmt_ok [OF assms]) (simp add: select_active_bodies_def)
  then show ?thesis
    by (simp add: sqlite_list_all_attachment_blobs_def map_err_st_def and_then_def done_with_def)
qed

lemma list_blobs_tables: "sqlite_list_all_attachment_blobs db = (x, d) \<Longrightarrow> same_tables d db"
  by (cases x) (auto simp: sqlite_list_all_attachment_blobs_def st_results select_active_bodies_def dest!: stmt_Inl stmt_Inr)

lemma listed_blobs_live:
  assumes "sqlite_list_all_attachment_blobs db = (Inr bs, d)"
  shows "b \<in> set bs \<longleftrightarrow> (\<exists>r\<in>set (db_emails db). \<exists>src refs. de_body_column (er_body r) = Some (src, refs) \<and>
      b \<in> ar_blob ` set refs \<and> latest_event_type (er_id r) db \<notin> {''delivery.succeeded'', ''delivery.failed''})"
proof -
  have lat: "latest_event_type i (db\<lparr>db_faults := f\<rparr>) = latest_event_type i db" for i f
    by (simp add: latest_event_type_def)
  from assms have "bs = concat (map (\<lambda>j. case de_body_column j of None \<Rightarrow> [] | Some (_, as) \<Rightarrow> map ar_blob as)
      (map er_body (filter (\<lambda>r. \<not> terminal_type (latest_event_type (er_id r) db)) (db_emails db))))"
    by (auto simp: sqlite_list_all_attachment_blobs_def st_results select_active_bodies_def lat dest!: stmt_Inr)
  then have "b \<in> set bs \<longleftrightarrow> (\<exists>r\<in>set (db_emails db). \<not> terminal_type (latest_event_type (er_id r) db) \<and>
      b \<in> set (case de_body_column (er_body r) of None \<Rightarrow> [] | Some (_, as) \<Rightarrow> map ar_blob as))"
    by auto
  moreover have "b \<in> set (case de_body_column j of None \<Rightarrow> [] | Some (_, as) \<Rightarrow> map ar_blob as) \<longleftrightarrow>
      (\<exists>src refs. de_body_column j = Some (src, refs) \<and> b \<in> ar_blob ` set refs)" for j
    by (cases "de_body_column j") auto
  ultimately show ?thesis by (auto simp: terminal_type_def)
qed

text \<open>The latest event of an email is not terminal when a later event that is not follows each terminal one.\<close>

lemma latest_event_live:
  assumes "db_inv db"
  shows "\<not> terminal_type (latest_event_type i db) \<longleftrightarrow>
    (\<forall>v\<in>set (db_events db). vr_email v = i \<longrightarrow> terminal_type (vr_type v) \<longrightarrow>
       (\<exists>v'\<in>set (db_events db). vr_email v' = i \<and> \<not> terminal_type (vr_type v') \<and>
          (vr_created v, vr_id v) < (vr_created v', vr_id v')))" (is "?L \<longleftrightarrow> ?R")
proof (cases "newest_first vr_created vr_id (filter (\<lambda>v. vr_email v = i) (db_events db))")
  case Nil
  then have "v \<in> set (db_events db) \<Longrightarrow> vr_email v \<noteq> i" for v by (simp add: filter_empty_conv)
  with Nil show ?thesis by (auto simp: latest_event_type_def terminal_type_def newest_first_def)
next
  case (Cons l rest)
  then have l: "l \<in> set (db_events db)" "vr_email l = i" "latest_event_type i db = vr_type l"
    using newest_first_set [of vr_created vr_id "filter (\<lambda>v. vr_email v = i) (db_events db)"]
    by (auto simp: latest_event_type_def)
  have le: "(vr_created v, vr_id v) \<le> (vr_created l, vr_id l)" if "v \<in> set (db_events db)" "vr_email v = i" for v
    using newest_first_hd [OF Cons, of v] that by simp
  have eq: "v = l" if "v \<in> set (db_events db)" "vr_id v = vr_id l" for v
    using assms that l(1) by (auto simp: db_inv_def distinct_map inj_on_def)
  show ?thesis
  proof
    assume ?L
    have "(vr_created v, vr_id v) < (vr_created l, vr_id l)"
      if "v \<in> set (db_events db)" "vr_email v = i" "terminal_type (vr_type v)" for v
      using le [OF that(1,2)] eq [OF that(1)] that(3) \<open>?L\<close> l(3) by (auto simp: order.order_iff_strict)
    with l \<open>?L\<close> show ?R by metis
  next
    assume ?R
    with l le show ?L by (metis leD)
  qed
qed

section \<open>Properties\<close>

text \<open>C21: Listing emails page by page returns exactly the emails that match the filters, each once, strictly
  newest first (by creation time, then id): the pages of size \<open>l\<close> put together are a prefix of one fixed list.\<close>

theorem list_emails_paging:
  assumes "db_inv db" "db_faults db = []"
  shows "\<exists>all. set all = email_record_of db ` {r \<in> set (db_emails db). email_selected sql_like p db r} \<and>
    sorted_wrt (\<lambda>a b. (rec_created_at_ms b, rec_id b) < (rec_created_at_ms a, rec_id a)) all \<and>
    (\<forall>k l. sqlite_list_emails (p\<lparr>le_limit := l, le_offset := k\<rparr>) db = (Inr (page l k all), db)) \<and>
    (\<forall>n l. concat (map (\<lambda>k. page l (k * l) all) [0..<n]) = take (n * l) all)"
proof -
  let ?rows = "newest_first er_created er_id (filter (email_selected sql_like p db) (db_emails db))"
  let ?all = "map (email_record_of db) ?rows"
  have sel: "email_selected sql_like (p\<lparr>le_limit := l, le_offset := k\<rparr>) db = email_selected sql_like p db" for k l
    by (auto simp: email_selected_def fun_eq_iff)
  have "distinct (map er_id (filter (email_selected sql_like p db) (db_emails db)))"
    using assms(1) by (auto simp: db_inv_def email_ids_def distinct_map inj_on_def)
  from newest_first_distinct [OF this]
  have "sorted_wrt (\<lambda>a b. (rec_created_at_ms b, rec_id b) < (rec_created_at_ms a, rec_id a)) ?all"
    by (simp add: sorted_wrt_map email_record_of_def)
  moreover have "set ?all = email_record_of db ` {r \<in> set (db_emails db). email_selected sql_like p db r}"
    by auto
  moreover have "sqlite_list_emails (p\<lparr>le_limit := l, le_offset := k\<rparr>) db = (Inr (page l k ?all), db)" for k l
    using sqlite_list_emails_run [OF assms, of "p\<lparr>le_limit := l, le_offset := k\<rparr>"] sel [of k l] by simp
  moreover have "concat (map (\<lambda>k. page l (k * l) ?all) [0..<n]) = take (n * l) ?all" for n l
    by (rule page_concat)
  ultimately show ?thesis by blast
qed

text \<open>An idempotency key is honoured whatever the second request holds: once an email was created under a
  key, every later save with that key reports the first id as a duplicate and stores nothing.\<close>

theorem save_idempotent:
  assumes "db_inv db" "env_ok env" "sqlite_save now i env db = (Inr (Created j), d)"
    and "env_idempotency_key env = Some k" "env_idempotency_key env2 = Some k" "db_faults d = []"
  shows "sqlite_save now2 i2 env2 d = (Inr (Duplicate i), d)"
proof -
  note cr = SqlStore.save_created [OF assms(3)]
  have inv: "db_inv d" by (rule save_keeps_inv [OF assms(1-3)])
  let ?row = "email_row_of now i env"
  have row: "?row \<in> set (db_emails d)" "er_key ?row = Some k" "er_id ?row = i"
    using cr assms(4) by (auto simp: same_tables_def email_row_of_def)
  have "k \<in> set (email_keys d)" using row(1,2) by (force simp: email_keys_def set_map_filter)
  then have conflict: "email_conflict (email_row_of now2 i2 env2) d"
    using assms(5) by (simp add: email_conflict_def email_row_of_def)
  obtain r where r: "List.find (\<lambda>r. er_key r = Some k) (db_emails d) = Some r"
    using row by (cases "List.find (\<lambda>r. er_key r = Some k) (db_emails d)") (auto simp: find_None_iff)
  have fresh: "k \<notin> set (email_keys db)"
    using cr assms(4) by (auto simp: email_conflict_def email_row_of_def)
  have "r \<in> set (db_emails db) \<or> r = ?row" using find_SomeD [OF r] cr by (auto simp: same_tables_def)
  moreover have "r \<notin> set (db_emails db)" using find_SomeD [OF r] fresh by (auto simp: email_keys_def set_map_filter)
  ultimately have "er_id r = i" using row(3) by simp
  then have sel: "stmt ''fetching existing email by idempotency key'' (select_id_by_key k) d = (Inr i, d)"
    using r by (intro stmt_ok [OF assms(6)]) (simp add: select_id_by_key_def)
  have "stmt ''inserting email'' (insert_or_ignore_email (email_row_of now2 i2 env2)) d = (Inr 0, d)"
    using conflict by (intro stmt_ok [OF assms(6)]) (simp add: insert_or_ignore_email_def)
  with sel assms(5) show ?thesis
    by (simp add: sqlite_save_def map_err_st_def and_then_def done_with_def)
qed


text \<open>For distinct senders, the statistics are the numbers of succeeded and failed deliveries recorded for each
  of them since the given instant, senders with no event included.\<close>

theorem sender_stats_exact:
  assumes "distinct names" "sqlite_get_stats names since db = (Inr stats, d)"
  shows "stats = map (\<lambda>n. \<lparr>ss_name = n,
      ss_sent_in_range = count_events ''delivery.succeeded'' (sender_str n) since db,
      ss_failed_in_range = count_events ''delivery.failed'' (sender_str n) since db\<rparr>) names"
proof -
  have cnt: "count_events t n since (db\<lparr>db_faults := f\<rparr>) = count_events t n since db" for t n f
    by (simp add: count_events_def)
  have "stats = take_stats (stats_rows ''delivery.succeeded'' ''delivery.failed'' (map sender_str names) since db) names"
    using assms(2)
    by (auto simp: sqlite_get_stats_def get_stats_sql_def st_results stats_rows_def cnt dest!: stmt_Inr split: if_splits)
  then show ?thesis
    unfolding take_stats_distinct [OF assms(1)] by (auto simp: stats_rows_def Let_def)
qed


section \<open>Concrete instances\<close>

text \<open>A freshly migrated database and the envelope of the adapters' own tests.\<close>

definition empty_db :: sql_db where
  "empty_db = \<lparr>db_emails = [], db_events = [], db_queue = [], db_faults = []\<rparr>"

definition sample_envelope :: envelope where
  "sample_envelope =
     \<lparr>env_idempotency_key = None, env_correlation_id = None, env_subject = None,
      env_sender = ''sender@example.com'', env_recipients = [],
      env_body = BodyPlain \<lparr>plain_text = Some ''hello'', plain_html = None\<rparr>,
      env_variables = [], env_attachments = []\<rparr>"

lemma db_inv_empty [simp]: "db_inv empty_db"
  by (simp add: db_inv_def empty_db_def email_ids_def email_keys_def List.map_filter_def)

lemma env_ok_sample: "env_ok (sample_envelope\<lparr>env_idempotency_key := k\<rparr>)" "env_ok sample_envelope"
  by (simp_all add: env_ok_def sample_envelope_def plain_ok_def)

lemma save_sample_empty:
  "sqlite_save now i (sample_envelope\<lparr>env_idempotency_key := k\<rparr>) empty_db =
     (Inr (Created i), empty_db\<lparr>db_emails := [email_row_of now i (sample_envelope\<lparr>env_idempotency_key := k\<rparr>)]\<rparr>)"
  using save_fresh [of empty_db now i "sample_envelope\<lparr>env_idempotency_key := k\<rparr>"]
  by (simp add: email_conflict_def email_ids_def email_keys_def empty_db_def List.map_filter_def split: option.splits)

theorem save_idempotent_witness:
  "sqlite_save 9 (EmailId 2) (sample_envelope\<lparr>env_idempotency_key := Some ''abc'', env_subject := Some ''x''\<rparr>)
     (snd (sqlite_save 5 (EmailId 1) (sample_envelope\<lparr>env_idempotency_key := Some ''abc''\<rparr>) empty_db))
   = (Inr (Duplicate (EmailId 1)), snd (sqlite_save 5 (EmailId 1) (sample_envelope\<lparr>env_idempotency_key := Some ''abc''\<rparr>) empty_db))"
  unfolding save_sample_empty snd_conv
  by (rule save_idempotent [OF db_inv_empty env_ok_sample(1) save_sample_empty]) (simp_all add: empty_db_def)

definition one_email_db :: sql_db where
  "one_email_db = empty_db\<lparr>db_emails := [email_row_of 5 (EmailId 1) sample_envelope]\<rparr>"

lemma one_email_db: "db_inv one_email_db" "db_faults one_email_db = []"
proof -
  have "sample_envelope\<lparr>env_idempotency_key := None\<rparr> = sample_envelope" by (simp add: sample_envelope_def)
  with save_keeps_inv [OF db_inv_empty env_ok_sample(1) save_sample_empty, of 5 "EmailId 1" None]
  show "db_inv one_email_db" by (simp add: one_email_db_def)
qed (simp add: one_email_db_def empty_db_def)

definition any_email :: list_emails_params where
  "any_email = \<lparr>le_status = Some StatusQueued, le_after_ms = None, le_before_ms = None, le_recipient = None,
     le_template = None, le_id = None, le_limit = 20, le_offset = 0\<rparr>"

theorem list_emails_paging_witness:
  "\<exists>all. set all = email_record_of one_email_db ` {r \<in> set (db_emails one_email_db). email_selected sql_like any_email one_email_db r} \<and>
     sqlite_list_emails (any_email\<lparr>le_limit := 20, le_offset := 0\<rparr>) one_email_db = (Inr (page 20 0 all), one_email_db)"
  using list_emails_paging [OF one_email_db, of any_email] by blast

text \<open>An email that failed, and was then sent again, refers to a blob.\<close>

definition resent_db :: sql_db where
  "resent_db = empty_db\<lparr>db_emails := [email_row_of 5 (EmailId 1) (sample_envelope\<lparr>env_attachments :=
      [\<lparr>ar_filename = ''f'', ar_content_type = ''t'', ar_size_bytes = 3, ar_blob = \<lparr>blob_backend = ''fs'', blob_key = ''k''\<rparr>\<rparr>]\<rparr>)],
    db_events := [\<lparr>vr_id = 1, vr_email = EmailId 1, vr_type = ''delivery.failed'', vr_payload = None, vr_sender = None, vr_class = None, vr_created = 6\<rparr>,
      \<lparr>vr_id = 2, vr_email = EmailId 1, vr_type = ''delivery.sending'', vr_payload = None, vr_sender = None, vr_class = None, vr_created = 7\<rparr>]\<rparr>"

lemma resent_db: "db_inv resent_db"
  by (simp add: resent_db_def db_inv_def row_ok_def email_ids_def email_keys_def empty_db_def email_row_of_def de_ser_body_column
      size_fits_def u64_max_def sample_envelope_def List.map_filter_def)


theorem sender_stats_exact_witness:
  "fst (sqlite_get_stats [SenderName ''a''] 0 empty_db) =
     Inr [\<lparr>ss_name = SenderName ''a'', ss_sent_in_range = count_events ''delivery.succeeded'' ''a'' 0 empty_db,
           ss_failed_in_range = count_events ''delivery.failed'' ''a'' 0 empty_db\<rparr>]"
proof -
  obtain stats d where run: "sqlite_get_stats [SenderName ''a''] 0 empty_db = (Inr stats, d)"
    using stmt_ok [of empty_db "\<lambda>d. Some (stats_rows ''delivery.succeeded'' ''delivery.failed'' [''a''] 0 d, d)"
      _ empty_db "''querying sender stats''"]
    by (simp add: sqlite_get_stats_def get_stats_sql_def map_err_st_def and_then_def done_with_def empty_db_def)
  from sender_stats_exact [OF _ run] run show ?thesis by simp
qed

end
