(* ===== verification/SqlQueue.thy ===== *)
theory SqlQueue
  imports SqlStore
begin

text \<open>
  The work queue on the \<open>email_queue\<close> table (\<open>adapter/outbound-sqlite/src/email_queue.rs\<close>): claims with
  a processing timeout, acknowledgement, negative acknowledgement with a delay.  The clock reading of
  each call is an argument, and so are the generated entry id and the injected trace headers.  Where
  several entries were enqueued at the same instant, SQLite may claim any; the model claims the
  oldest row.

  The locale \<open>claim_queue\<close> is the contract the worker relies on, on a list of entries: who holds a claim
  is alone with the entry until the claim expires, and an acknowledged entry never comes back.  It is
  interpreted here on SQLite and in \<open>PgStore\<close> on PostgreSQL.
\<close>

section \<open>Reading rows back\<close>

definition parse_envelope :: "(string \<Rightarrow> anyhow + url) \<Rightarrow> email_row \<Rightarrow> anyhow + envelope" where
  "parse_envelope parse_url r =
     (case de_body_column (er_body r) of
        None \<Rightarrow> Err ''reading body''
      | Some (body_dto, attachments) \<Rightarrow>
          (case body_source_of_dto parse_url body_dto of
             Inl _ \<Rightarrow> Err ''deserializing body''
           | Inr body \<Rightarrow>
               (case de_recipients (er_recipients r) of
                  None \<Rightarrow> Err ''reading recipients''
                | Some rs \<Rightarrow>
                    Ok \<lparr>env_idempotency_key = er_key r, env_correlation_id = er_corr r,
                        env_subject = er_subject r, env_sender = er_sender r,
                        env_recipients = recipients_from_dto rs, env_body = body,
                        env_variables = er_variables r, env_attachments = attachments\<rparr>)))"

definition parse_row :: "(string \<Rightarrow> anyhow + url) \<Rightarrow> email_row \<Rightarrow> anyhow + email_id \<times> envelope" where
  "parse_row parse_url r = map_ok (Pair (er_id r)) (parse_envelope parse_url r)"

lemma parse_envelope_of_saved:
  assumes "env_ok env" "url_stable parse_url (env_body env)" "\<forall>a\<in>set refs. size_fits a"
  shows "parse_envelope parse_url ((email_row_of now i env)\<lparr>er_body := ser_body_column (env_body env) refs\<rparr>) =
    Inr (env\<lparr>env_attachments := refs\<rparr>)"
  using assms
  by (cases env) (simp add: parse_envelope_def email_row_of_def de_ser_body_column body_source_of_to_dto env_ok_def)

definition ser_pairs :: "(string \<times> string) list \<Rightarrow> json" where
  "ser_pairs ps = JArr (map (\<lambda>(k, v). JArr [JStr k, JStr v]) ps)"

definition de_pair :: "json \<Rightarrow> (string \<times> string) option" where
  "de_pair j = (case j of JArr [JStr k, JStr v] \<Rightarrow> Some (k, v) | _ \<Rightarrow> None)"

definition de_pairs :: "json \<Rightarrow> (string \<times> string) list option" where
  "de_pairs j = (case j of JArr xs \<Rightarrow> traverse_option de_pair xs | _ \<Rightarrow> None)"

definition deserialize_trace_context :: "json option \<Rightarrow> trace_carrier" where
  "deserialize_trace_context raw =
     (case raw of
        None \<Rightarrow> trace_carrier_default
      | Some j \<Rightarrow> (case de_pairs j of None \<Rightarrow> trace_carrier_default | Some ps \<Rightarrow> trace_carrier_new ps))"

lemma de_ser_pairs [simp]: "de_pairs (ser_pairs ps) = Some ps"
proof -
  have "traverse_option de_pair (map (\<lambda>(k, v). JArr [JStr k, JStr v]) ps) = Some ps"
    by (induction ps) (auto simp: de_pair_def)
  then show ?thesis by (simp add: de_pairs_def ser_pairs_def)
qed

section \<open>Claiming\<close>

definition processing_timeout_ms :: int where
  "processing_timeout_ms = 300000"

definition claimable :: "int \<Rightarrow> queue_row \<Rightarrow> bool" where
  "claimable now q \<longleftrightarrow> (case qr_claimed q of None \<Rightarrow> True | Some u \<Rightarrow> u < now)"

definition select_pending :: "int \<Rightarrow> sql_db \<Rightarrow> (nat \<times> sql_db) option" where
  "select_pending now db = Some (length (filter (claimable now) (db_queue db)), db)"

definition sqlite_pending :: "int \<Rightarrow> sql_db \<Rightarrow> (anyhow + nat) \<times> sql_db" where
  "sqlite_pending now = stmt ''counting pending email_queue entries'' (select_pending now)"

definition oldest_claimable :: "int \<Rightarrow> queue_row list \<Rightarrow> queue_row option" where
  "oldest_claimable now qs =
     (case sort_key qr_enqueued (filter (claimable now) qs) of [] \<Rightarrow> None | q # _ \<Rightarrow> Some q)"

definition claimed_row :: "int \<Rightarrow> queue_row \<Rightarrow> queue_row" where
  "claimed_row now q =
     q\<lparr>qr_attempts := qr_attempts q + 1, qr_claimed := Some (now + processing_timeout_ms)\<rparr>"

definition claim_in :: "int \<Rightarrow> queue_row \<Rightarrow> queue_row list \<Rightarrow> queue_row list" where
  "claim_in now q qs = map (\<lambda>r. if qr_id r = qr_id q then claimed_row now r else r) qs"

definition claim_next :: "int \<Rightarrow> sql_db \<Rightarrow> (queue_row option \<times> sql_db) option" where
  "claim_next now db =
     (case oldest_claimable now (db_queue db) of
        None \<Rightarrow> Some (None, db)
      | Some q \<Rightarrow> Some (Some (claimed_row now q), db\<lparr>db_queue := claim_in now q (db_queue db)\<rparr>))"

definition select_email :: "email_id \<Rightarrow> sql_db \<Rightarrow> (email_row option \<times> sql_db) option" where
  "select_email i db = Some (find_email i db, db)"

definition delete_entry :: "byte list \<Rightarrow> sql_db \<Rightarrow> (unit \<times> sql_db) option" where
  "delete_entry bs db = Some ((), db\<lparr>db_queue := filter (\<lambda>r. uuid_bytes (qr_id r) \<noteq> bs) (db_queue db)\<rparr>)"

definition sqlite_ack :: "ack_token \<Rightarrow> sql_db \<Rightarrow> (email_queue_error + unit) \<times> sql_db" where
  "sqlite_ack tok =
     map_err_st QueueStorage (and_then (stmt ''deleting from email_queue'' (delete_entry (token_bytes tok))) (\<lambda>_. done_with ()))"

definition sqlite_try_dequeue :: "(string \<Rightarrow> anyhow + url) \<Rightarrow> int \<Rightarrow> sql_db \<Rightarrow> (email_queue_error + dequeued_email option) \<times> sql_db" where
  "sqlite_try_dequeue parse_url now =
     and_then (map_err_st QueueStorage (stmt ''claiming next queue entry'' (claim_next now))) (\<lambda>maybe.
       case maybe of
         None \<Rightarrow> done_with None
       | Some q \<Rightarrow>
           if u32_max < qr_attempts q then fail_with (QueueStorage ''attempt_count out of range'')
           else and_then (map_err_st QueueStorage (stmt ''fetching email for dequeue'' (select_email (qr_email q)))) (\<lambda>row.
             case row of
               None \<Rightarrow> and_then (sqlite_ack (AckToken (uuid_bytes (qr_id q)))) (\<lambda>_. done_with None)
             | Some r \<Rightarrow>
                 (case parse_row parse_url r of
                    Inl e \<Rightarrow> fail_with (QueueStorage e)
                  | Inr (i, env) \<Rightarrow>
                      done_with (Some \<lparr>dq_id = i, dq_envelope = env, dq_attempt = qr_attempts q,
                        dq_token = AckToken (uuid_bytes (qr_id q)),
                        dq_trace = deserialize_trace_context (qr_trace q)\<rparr>))))"

text \<open>\<open>dequeue\<close> polls every 100 ms: each poll is a clock reading, followed by what the rest of the system does to
  the database during the pause.  \<open>None\<close> is a call still waiting when the readings end.\<close>

fun sqlite_dequeue :: "(string \<Rightarrow> anyhow + url) \<Rightarrow> (int \<times> (sql_db \<Rightarrow> sql_db)) list \<Rightarrow> sql_db \<Rightarrow>
    (email_queue_error + dequeued_email) option \<times> sql_db" where
  "sqlite_dequeue parse_url [] db = (None, db)"
| "sqlite_dequeue parse_url ((now, others) # polls) db =
     (case sqlite_try_dequeue parse_url now db of
        (Inl e, d) \<Rightarrow> (Some (Err e), d)
      | (Inr (Some item), d) \<Rightarrow> (Some (Ok item), d)
      | (Inr None, d) \<Rightarrow> sqlite_dequeue parse_url polls (others d))"

section \<open>Enqueueing and rescheduling\<close>

definition insert_entry :: "queue_row \<Rightarrow> sql_db \<Rightarrow> (unit \<times> sql_db) option" where
  "insert_entry q db =
     (if qr_id q \<in> qr_id ` set (db_queue db) \<or> qr_email q \<notin> set (email_ids db) then None
      else Some ((), db\<lparr>db_queue := db_queue db @ [q]\<rparr>))"

definition queue_row_of :: "int \<Rightarrow> uuid \<Rightarrow> (string \<times> string) list \<Rightarrow> email_id \<Rightarrow> queue_row" where
  "queue_row_of now entry pairs i =
     \<lparr>qr_id = entry, qr_email = i, qr_enqueued = now, qr_claimed = None, qr_attempts = 0,
      qr_trace = (if pairs = [] then None else Some (ser_pairs pairs))\<rparr>"

definition sqlite_enqueue :: "int \<Rightarrow> uuid \<Rightarrow> (string \<times> string) list \<Rightarrow> email_id \<Rightarrow> envelope \<Rightarrow> sql_db \<Rightarrow>
    (email_queue_error + unit) \<times> sql_db" where
  "sqlite_enqueue now entry pairs i env =
     map_err_st QueueStorage
       (and_then (stmt ''inserting into email_queue'' (insert_entry (queue_row_of now entry pairs i))) (\<lambda>_. done_with ()))"

definition nack_until :: "int \<Rightarrow> nat \<Rightarrow> int" where
  "nack_until now delay_ms = sat_i64 (now + min (int delay_ms) i64_max)"

definition update_claim :: "byte list \<Rightarrow> int \<Rightarrow> sql_db \<Rightarrow> (unit \<times> sql_db) option" where
  "update_claim bs until db =
     Some ((), db\<lparr>db_queue := map (\<lambda>r. if uuid_bytes (qr_id r) = bs then r\<lparr>qr_claimed := Some until\<rparr> else r) (db_queue db)\<rparr>)"

definition sqlite_nack :: "int \<Rightarrow> ack_token \<Rightarrow> nat \<Rightarrow> sql_db \<Rightarrow> (email_queue_error + unit) \<times> sql_db" where
  "sqlite_nack now tok delay_ms =
     map_err_st QueueStorage
       (and_then (stmt ''nacking email_queue entry'' (update_claim (token_bytes tok) (nack_until now delay_ms))) (\<lambda>_. done_with ()))"

lemma nack_until_le: "0 \<le> now \<Longrightarrow> nack_until now d \<le> i64_max \<and> (now + int d \<le> i64_max \<longrightarrow> nack_until now d = now + int d)"
  by (auto simp: nack_until_def sat_i64_def int_limits)

section \<open>What a queue promises\<close>

definition row_token :: "queue_row \<Rightarrow> ack_token" where
  "row_token q = AckToken (uuid_bytes (qr_id q))"

text \<open>The entries after another party's failed or finished dequeue: nothing, or one due entry claimed.\<close>

definition claimed_or_same :: "int \<Rightarrow> queue_row list \<Rightarrow> queue_row list \<Rightarrow> bool" where
  "claimed_or_same now qs qs' \<longleftrightarrow> qs' = qs \<or> (\<exists>q\<in>set qs. claimable now q \<and> qs' = claim_in now q qs)"

text \<open>The calls a queue receives; \<open>QNack\<close> carries the clock reading and the delay.\<close>

datatype queue_call =
    QEnqueue int uuid "(string \<times> string) list" email_id envelope
  | QDequeue int
  | QAck ack_token
  | QNack int ack_token nat

text \<open>A run of calls, with the items the dequeues handed out.\<close>

fun queue_run ::
    "(int \<Rightarrow> uuid \<Rightarrow> (string \<times> string) list \<Rightarrow> email_id \<Rightarrow> envelope \<Rightarrow> 'q \<Rightarrow> (email_queue_error + unit) \<times> 'q) \<Rightarrow>
     (int \<Rightarrow> 'q \<Rightarrow> (email_queue_error + dequeued_email option) \<times> 'q) \<Rightarrow>
     (ack_token \<Rightarrow> 'q \<Rightarrow> (email_queue_error + unit) \<times> 'q) \<Rightarrow>
     (int \<Rightarrow> ack_token \<Rightarrow> nat \<Rightarrow> 'q \<Rightarrow> (email_queue_error + unit) \<times> 'q) \<Rightarrow>
     queue_call list \<Rightarrow> 'q \<Rightarrow> dequeued_email list \<times> 'q" where
  "queue_run enq dq ackq nackq [] q = ([], q)"
| "queue_run enq dq ackq nackq (QEnqueue now e ps i env # cs) q =
     queue_run enq dq ackq nackq cs (snd (enq now e ps i env q))"
| "queue_run enq dq ackq nackq (QDequeue now # cs) q =
     (case dq now q of
        (Inr (Some it), q') \<Rightarrow>
          (it # fst (queue_run enq dq ackq nackq cs q'), snd (queue_run enq dq ackq nackq cs q'))
      | (_, q') \<Rightarrow> queue_run enq dq ackq nackq cs q')"
| "queue_run enq dq ackq nackq (QAck tok # cs) q = queue_run enq dq ackq nackq cs (snd (ackq tok q))"
| "queue_run enq dq ackq nackq (QNack now tok d # cs) q =
     queue_run enq dq ackq nackq cs (snd (nackq now tok d q))"

text \<open>Entry \<open>tok\<close>, if it is there, is claimed until at least \<open>u\<close>.\<close>

definition held :: "ack_token \<Rightarrow> int \<Rightarrow> queue_row list \<Rightarrow> bool" where
  "held tok u rs \<longleftrightarrow> (\<forall>r\<in>set rs. row_token r = tok \<longrightarrow> (\<exists>c. qr_claimed r = Some c \<and> u \<le> c))"

text \<open>A call by another party: it dequeues before \<open>u\<close>, does not reuse the entry's id and does not
  reschedule the entry to before \<open>u\<close>.\<close>

fun leaves_alone :: "ack_token \<Rightarrow> int \<Rightarrow> queue_call \<Rightarrow> bool" where
  "leaves_alone tok u (QEnqueue now e ps i env) \<longleftrightarrow> uuid_ok e \<and> uuid_bytes e \<noteq> token_bytes tok"
| "leaves_alone tok u (QDequeue now) \<longleftrightarrow> now \<le> u"
| "leaves_alone tok u (QAck t) \<longleftrightarrow> True"
| "leaves_alone tok u (QNack now t d) \<longleftrightarrow> (t = tok \<longrightarrow> u \<le> nack_until now d)"

text \<open>Every entry of the email has this token.\<close>

definition sole_entry :: "email_id \<Rightarrow> ack_token \<Rightarrow> queue_row list \<Rightarrow> bool" where
  "sole_entry i tok rs \<longleftrightarrow> (\<forall>r\<in>set rs. qr_email r = i \<longrightarrow> row_token r = tok)"

locale claim_queue =
  fixes enq :: "int \<Rightarrow> uuid \<Rightarrow> (string \<times> string) list \<Rightarrow> email_id \<Rightarrow> envelope \<Rightarrow> 'q \<Rightarrow> (email_queue_error + unit) \<times> 'q"
    and dq :: "int \<Rightarrow> 'q \<Rightarrow> (email_queue_error + dequeued_email option) \<times> 'q"
    and ackq :: "ack_token \<Rightarrow> 'q \<Rightarrow> (email_queue_error + unit) \<times> 'q"
    and nackq :: "int \<Rightarrow> ack_token \<Rightarrow> nat \<Rightarrow> 'q \<Rightarrow> (email_queue_error + unit) \<times> 'q"
    and entries :: "'q \<Rightarrow> queue_row list"
    and qinv :: "'q \<Rightarrow> bool"
  assumes inv_distinct: "qinv q \<Longrightarrow> distinct (map row_token (entries q))"
    and enq_law: "qinv q \<Longrightarrow> uuid_ok e \<Longrightarrow> enq now e ps i env q = (ue, q') \<Longrightarrow>
      qinv q' \<and> (entries q' = entries q \<or> entries q' = entries q @ [queue_row_of now e ps i])"
    and dq_some: "qinv q \<Longrightarrow> dq now q = (Inr (Some it), q') \<Longrightarrow>
      qinv q' \<and> (\<exists>r\<in>set (entries q). claimable now r \<and> dq_token it = row_token r \<and> dq_id it = qr_email r \<and>
        dq_attempt it = qr_attempts r + 1 \<and> entries q' = claim_in now r (entries q) \<and>
        (\<forall>r'\<in>set (entries q). claimable now r' \<longrightarrow> qr_enqueued r \<le> qr_enqueued r'))"
    and dq_none: "qinv q \<Longrightarrow> dq now q = (Inr None, q') \<Longrightarrow>
      qinv q' \<and> entries q' = entries q \<and> (\<forall>r\<in>set (entries q). \<not> claimable now r)"
    and dq_err: "qinv q \<Longrightarrow> dq now q = (Inl e', q') \<Longrightarrow> qinv q' \<and> claimed_or_same now (entries q) (entries q')"
    and ack_ok: "qinv q \<Longrightarrow> ackq tok q = (Inr u, q') \<Longrightarrow>
      qinv q' \<and> entries q' = filter (\<lambda>r. row_token r \<noteq> tok) (entries q)"
    and ack_err: "qinv q \<Longrightarrow> ackq tok q = (Inl e', q') \<Longrightarrow> qinv q' \<and> entries q' = entries q"
    and nack_ok: "qinv q \<Longrightarrow> nackq now tok d q = (Inr u, q') \<Longrightarrow>
      qinv q' \<and> entries q' = map (\<lambda>r. if row_token r = tok then r\<lparr>qr_claimed := Some (nack_until now d)\<rparr> else r) (entries q)"
    and nack_err: "qinv q \<Longrightarrow> nackq now tok d q = (Inl e', q') \<Longrightarrow> qinv q' \<and> entries q' = entries q"
begin

lemma row_token_eq: "row_token r = row_token r' \<longleftrightarrow> uuid_bytes (qr_id r) = uuid_bytes (qr_id r')"
  by (simp add: row_token_def)

lemma row_token_claimed [simp]: "row_token (claimed_row now r) = row_token r"
  by (simp add: row_token_def claimed_row_def)

lemma held_claim_in: "held tok u rs \<Longrightarrow> u \<le> now + processing_timeout_ms \<or> row_token r \<noteq> tok \<Longrightarrow>
    held tok u (claim_in now r rs)"
  by (auto simp: held_def claim_in_def row_token_eq claimed_row_def row_token_def split: if_splits)

lemma held_not_claimable: "held tok u rs \<Longrightarrow> r \<in> set rs \<Longrightarrow> now \<le> u \<Longrightarrow> claimable now r \<Longrightarrow> row_token r \<noteq> tok"
  by (force simp: held_def claimable_def split: option.splits)

lemma row_token_upd [simp]: "row_token (r\<lparr>qr_claimed := c\<rparr>) = row_token r"
  by (simp add: row_token_def)

lemma held_nack:
  "held tok u rs \<or> t = tok \<Longrightarrow> t = tok \<longrightarrow> u \<le> c \<Longrightarrow>
     held tok u (map (\<lambda>r. if row_token r = t then r\<lparr>qr_claimed := Some c\<rparr> else r) rs)"
  unfolding held_def by (induction rs) (auto split: if_splits)

lemma held_dequeue:
  assumes "qinv q" "held tok u (entries q)" "now \<le> u" "dq now q = (x, q')"
  shows "qinv q' \<and> held tok u (entries q') \<and> (\<forall>it. x = Inr (Some it) \<longrightarrow> dq_token it \<noteq> tok)"
proof -
  have claim: "held tok u (claim_in now r (entries q))" if "r \<in> set (entries q)" "claimable now r" for r
    using held_claim_in [OF assms(2)] held_not_claimable [OF assms(2) that(1) assms(3) that(2)] by blast
  consider (s) it where "x = Inr (Some it)" | (n) "x = Inr None" | (e) e where "x = Inl e"
    by (metis sum.exhaust option.exhaust)
  then show ?thesis
  proof cases
    case s
    then obtain r where r: "qinv q'" "r \<in> set (entries q)" "claimable now r" "dq_token it = row_token r"
      "entries q' = claim_in now r (entries q)"
      using dq_some [OF assms(1), of now it q'] assms(4) by blast
    then show ?thesis using s claim held_not_claimable [OF assms(2) r(2) assms(3)] by simp
  next
    case n
    then show ?thesis using dq_none [OF assms(1)] assms(2,4) by auto
  next
    case e
    then have "qinv q'" "claimed_or_same now (entries q) (entries q')" using dq_err [OF assms(1)] assms(4) by auto
    then show ?thesis using e claim assms(2) by (auto simp: claimed_or_same_def)
  qed
qed

text \<open>While a claim lasts, nobody else is handed the entry, whatever else happens on the queue.\<close>

lemma held_alone:
  "qinv q \<Longrightarrow> held tok u (entries q) \<Longrightarrow> \<forall>c\<in>set cs. leaves_alone tok u c \<Longrightarrow>
     \<forall>it\<in>set (fst (queue_run enq dq ackq nackq cs q)). dq_token it \<noteq> tok"
proof (induction cs arbitrary: q)
  case Nil
  then show ?case by simp
next
  case (Cons c cs)
  then have c: "leaves_alone tok u c" and cs: "\<forall>c\<in>set cs. leaves_alone tok u c" by simp_all
  show ?case
  proof (cases c)
    case (QEnqueue now e ps i env)
    obtain x q' where e: "enq now e ps i env q = (x, q')" by fastforce
    have "uuid_ok e" using c QEnqueue by simp
    from enq_law [OF Cons.prems(1) this e] c QEnqueue Cons.prems(2)
    have "qinv q'" "held tok u (entries q')"
      by (auto simp: held_def row_token_def queue_row_of_def)
    with Cons.IH cs QEnqueue e show ?thesis by simp
  next
    case (QDequeue now)
    obtain x q' where e: "dq now q = (x, q')" by fastforce
    have "now \<le> u" using c QDequeue by simp
    note h = held_dequeue [OF Cons.prems(1,2) this e]
    with Cons.IH [of q'] cs QDequeue e show ?thesis by (auto split: sum.splits option.splits)
  next
    case (QAck t)
    obtain x q' where e: "ackq t q = (x, q')" by fastforce
    have "qinv q' \<and> held tok u (entries q')"
      using ack_ok [OF Cons.prems(1)] ack_err [OF Cons.prems(1)] e Cons.prems(2)
      by (cases x) (auto simp: held_def)
    with Cons.IH [of q'] cs show ?thesis unfolding QAck by (simp add: e)
  next
    case (QNack now t d)
    obtain x q' where e: "nackq now t d q = (x, q')" by fastforce
    have "qinv q' \<and> held tok u (entries q')"
    proof (cases x)
      case (Inl e')
      with nack_err [OF Cons.prems(1)] e Cons.prems(2) show ?thesis by simp
    next
      case (Inr u')
      with nack_ok [OF Cons.prems(1)] e Cons.prems(2) c QNack held_nack show ?thesis by simp
    qed
    with Cons.IH [of q'] cs show ?thesis unfolding QNack by (simp add: e)
  qed
qed

lemma held_claimed:
  assumes "qinv q" "dq now q = (Inr (Some it), q')"
  shows "qinv q' \<and> held (dq_token it) (now + processing_timeout_ms) (entries q')"
proof -
  obtain r where r: "qinv q'" "dq_token it = row_token r" "entries q' = claim_in now r (entries q)" "r \<in> set (entries q)"
    using dq_some [OF assms] by blast
  have same: "x = r" if "x \<in> set (entries q)" "row_token x = row_token r" for x
    using inv_distinct [OF assms(1)] that r(4) by (auto simp: distinct_map inj_on_def)
  have "\<exists>c. qr_claimed y = Some c \<and> now + processing_timeout_ms \<le> c"
    if y: "y \<in> set (claim_in now r (entries q))" "row_token y = row_token r" for y
  proof -
    from y(1) obtain x where x: "x \<in> set (entries q)" "y = (if qr_id x = qr_id r then claimed_row now x else x)"
      by (auto simp: claim_in_def)
    with y(2) have "row_token x = row_token r" by (simp split: if_splits)
    with same [OF x(1)] have "x = r" by blast
    with x(2) show ?thesis by (simp add: claimed_row_def)
  qed
  with r show ?thesis by (simp add: held_def)
qed

lemma held_nacked:
  assumes "qinv q" "nackq now tok d q = (Inr u, q')"
  shows "qinv q' \<and> held tok (nack_until now d) (entries q')"
  using nack_ok [OF assms] held_nack [of tok "nack_until now d" "entries q" tok "nack_until now d"] by simp

lemma held_acked:
  assumes "qinv q" "ackq tok q = (Inr u, q')" shows "qinv q' \<and> (\<forall>c. held tok c (entries q'))"
  using ack_ok [OF assms] by (auto simp: held_def)

lemma held_mono: "held tok u rs \<Longrightarrow> v \<le> u \<Longrightarrow> held tok v rs"
  by (fastforce simp: held_def)

lemma queue_run_snoc:
  "dq t (snd (queue_run enq dq ackq nackq cs q)) = (Inr (Some it), q') \<Longrightarrow>
     it \<in> set (fst (queue_run enq dq ackq nackq (cs @ [QDequeue t]) q))"
  by (induction enq dq ackq nackq cs q rule: queue_run.induct) (auto split: sum.splits option.splits prod.splits)

lemma sole_entry_claim: "sole_entry i tok rs \<Longrightarrow> sole_entry i tok (claim_in now r rs)"
  by (auto simp: sole_entry_def claim_in_def claimed_row_def row_token_def)

lemma sole_entry_run:
  "qinv q \<Longrightarrow> sole_entry i tok (entries q) \<Longrightarrow>
     \<forall>now e ps j env. QEnqueue now e ps j env \<in> set cs \<longrightarrow> uuid_ok e \<and> j \<noteq> i \<Longrightarrow>
     qinv (snd (queue_run enq dq ackq nackq cs q)) \<and> sole_entry i tok (entries (snd (queue_run enq dq ackq nackq cs q)))"
proof (induction cs arbitrary: q)
  case Nil
  then show ?case by simp
next
  case (Cons c cs)
  have cs: "\<forall>now e ps j env. QEnqueue now e ps j env \<in> set cs \<longrightarrow> uuid_ok e \<and> j \<noteq> i" using Cons.prems(3) by simp
  show ?case
  proof (cases c)
    case (QEnqueue now e ps j env)
    then have "uuid_ok e" "j \<noteq> i" using Cons.prems(3) by auto
    obtain x q' where e: "enq now e ps j env q = (x, q')" by fastforce
    from enq_law [OF Cons.prems(1) \<open>uuid_ok e\<close> e] Cons.prems(2) \<open>j \<noteq> i\<close>
    have "qinv q'" "sole_entry i tok (entries q')" by (auto simp: sole_entry_def queue_row_of_def)
    with Cons.IH cs QEnqueue e show ?thesis by simp
  next
    case (QDequeue now)
    obtain x q' where e: "dq now q = (x, q')" by fastforce
    have "qinv q' \<and> sole_entry i tok (entries q')"
    proof (cases x)
      case (Inl er)
      with dq_err [OF Cons.prems(1), of now er q'] e have "qinv q'" "claimed_or_same now (entries q) (entries q')" by simp_all
      then show ?thesis using Cons.prems(2) sole_entry_claim [OF Cons.prems(2)] by (auto simp: claimed_or_same_def)
    next
      case (Inr o')
      with dq_some [OF Cons.prems(1)] dq_none [OF Cons.prems(1)] e Cons.prems(2) sole_entry_claim show ?thesis
        by (cases o') (metis, metis)
    qed
    with Cons.IH [of q'] cs QDequeue e show ?thesis by (auto split: sum.splits option.splits)
  next
    case (QAck t)
    obtain x q' where e: "ackq t q = (x, q')" by fastforce
    have "qinv q' \<and> sole_entry i tok (entries q')"
      using ack_ok [OF Cons.prems(1)] ack_err [OF Cons.prems(1)] e Cons.prems(2) by (cases x) (auto simp: sole_entry_def)
    with Cons.IH [of q'] cs show ?thesis unfolding QAck by (simp add: e)
  next
    case (QNack now t d)
    obtain x q' where e: "nackq now t d q = (x, q')" by fastforce
    have "qinv q' \<and> sole_entry i tok (entries q')"
      using nack_ok [OF Cons.prems(1)] nack_err [OF Cons.prems(1)] e Cons.prems(2) by (cases x) (auto simp: sole_entry_def)
    with Cons.IH [of q'] cs show ?thesis unfolding QNack by (simp add: e)
  qed
qed

text \<open>An email that was handed out and not enqueued again comes back only when the claim has run out or a negative
  acknowledgement of its entry allows it.\<close>

lemma handed_out_again:
  assumes inv: "qinv q" and first: "dq now q = (Inr (Some it), q1)" and sole: "distinct (map qr_email (entries q))"
    and fresh: "\<forall>s e ps j env. QEnqueue s e ps j env \<in> set cs \<longrightarrow>
      uuid_ok e \<and> uuid_bytes e \<noteq> token_bytes (dq_token it) \<and> j \<noteq> dq_id it"
    and mono: "\<forall>s. QDequeue s \<in> set cs \<longrightarrow> s \<le> t"
    and again: "dq t (snd (queue_run enq dq ackq nackq cs q1)) = (Inr (Some it'), q2)"
    and same: "dq_id it' = dq_id it \<or> dq_token it' = dq_token it"
  shows "now + processing_timeout_ms < t \<or> (\<exists>s delay. QNack s (dq_token it) delay \<in> set cs \<and> nack_until s delay < t)"
proof (rule ccontr)
  assume not: "\<not> ?thesis"
  note h = held_claimed [OF inv first]
  obtain r where r: "r \<in> set (entries q)" "dq_token it = row_token r" "dq_id it = qr_email r" "entries q1 = claim_in now r (entries q)"
    using dq_some [OF inv first] by blast
  have "x = r" if "x \<in> set (entries q)" "qr_email x = qr_email r" for x
    using sole that r(1) by (auto simp: distinct_map inj_on_def)
  then have "sole_entry (dq_id it) (dq_token it) (entries q)" using r by (auto simp: sole_entry_def)
  then have "sole_entry (dq_id it) (dq_token it) (entries q1)" unfolding r(4) by (rule sole_entry_claim)
  from sole_entry_run [OF conjunct1 [OF h] this, of cs] fresh
  have run: "qinv (snd (queue_run enq dq ackq nackq cs q1))"
    "sole_entry (dq_id it) (dq_token it) (entries (snd (queue_run enq dq ackq nackq cs q1)))" by blast+
  then have tok: "dq_token it' = dq_token it"
    using same dq_some [OF run(1) again] by (auto simp: sole_entry_def)
  have "held (dq_token it) t (entries q1)" by (rule held_mono [OF conjunct2 [OF h]]) (use not in simp)
  moreover have "\<forall>c\<in>set (cs @ [QDequeue t]). leaves_alone (dq_token it) t c"
  proof
    fix c assume "c \<in> set (cs @ [QDequeue t])"
    with mono not fresh show "leaves_alone (dq_token it) t c" by (cases c) (fastforce simp: not_less)+
  qed
  ultimately have "dq_token it' \<noteq> dq_token it"
    using held_alone [OF conjunct1 [OF h]] queue_run_snoc [OF again] by blast
  with tok show False by simp
qed

end


section \<open>SQLite keeps the promise\<close>

definition queue_inv :: "sql_db \<Rightarrow> bool" where
  "queue_inv db \<longleftrightarrow> db_inv db \<and> (\<forall>r\<in>set (db_queue db). uuid_ok (qr_id r))"

lemma queue_inv_same: "same_tables d d' \<Longrightarrow> queue_inv d' \<Longrightarrow> queue_inv d"
  using db_inv_same [of d d'] by (simp add: queue_inv_def same_tables_def)

lemma queue_inv_emails: "queue_inv db \<Longrightarrow> qr_email ` set (db_queue db) \<subseteq> set (email_ids db)"
  by (simp add: queue_inv_def db_inv_def)

lemma queue_inv_distinct:
  assumes "queue_inv db" shows "distinct (map row_token (db_queue db))"
proof -
  have "distinct (map qr_id (db_queue db))" "\<forall>r\<in>set (db_queue db). uuid_ok (qr_id r)"
    using assms by (auto simp: queue_inv_def db_inv_def)
  then show ?thesis by (auto simp: distinct_map inj_on_def row_token_def uuid_bytes_inj)
qed

text \<open>A new queue column that keeps ids and references keeps the invariant.\<close>

lemma queue_inv_update:
  assumes "queue_inv db" "distinct (map qr_id qs)" "qr_id ` set qs \<subseteq> qr_id ` set (db_queue db)"
    "qr_email ` set qs \<subseteq> set (email_ids db)"
  shows "queue_inv (db\<lparr>db_queue := qs\<rparr>)"
proof -
  have "uuid_ok (qr_id r)" if "r \<in> set qs" for r
  proof -
    have "qr_id r \<in> qr_id ` set (db_queue db)" using that assms(3) by blast
    then show ?thesis using assms(1) unfolding queue_inv_def by force
  qed
  with assms(1,2,4) show ?thesis
    by (simp add: queue_inv_def db_inv_def email_ids_def email_keys_def)
qed

lemma claim_in_ids [simp]: "map qr_id (claim_in now q qs) = map qr_id qs"
  by (simp add: claim_in_def claimed_row_def comp_def)

lemma claim_in_emails: "q \<in> set qs \<Longrightarrow> qr_email ` set (claim_in now q qs) \<subseteq> qr_email ` set qs"
  by (auto simp: claim_in_def claimed_row_def)

lemma image_ids_map: "map qr_id qs' = map qr_id qs \<Longrightarrow> qr_id ` set qs' = qr_id ` set qs"
  by (metis set_map)

lemma queue_inv_claim:
  assumes "queue_inv db" "q \<in> set (db_queue db)"
  shows "queue_inv (db\<lparr>db_queue := claim_in now q (db_queue db)\<rparr>)"
proof (rule queue_inv_update [OF assms(1)])
  show "distinct (map qr_id (claim_in now q (db_queue db)))"
    using assms(1) by (simp add: queue_inv_def db_inv_def)
  show "qr_id ` set (claim_in now q (db_queue db)) \<subseteq> qr_id ` set (db_queue db)"
    using image_ids_map [OF claim_in_ids [of now q "db_queue db"]] by simp
  show "qr_email ` set (claim_in now q (db_queue db)) \<subseteq> set (email_ids db)"
    by (rule subset_trans [OF claim_in_emails [OF assms(2)] queue_inv_emails [OF assms(1)]])
qed

lemma oldest_claimable_Some:
  assumes "oldest_claimable now qs = Some q"
  shows "q \<in> set qs \<and> claimable now q \<and> (\<forall>r\<in>set qs. claimable now r \<longrightarrow> qr_enqueued q \<le> qr_enqueued r)"
proof -
  obtain rest where s: "sort_key qr_enqueued (filter (claimable now) qs) = q # rest"
    using assms by (auto simp: oldest_claimable_def split: list.splits)
  have set: "set (q # rest) = {r \<in> set qs. claimable now r}" by (simp flip: s)
  have "sorted (map qr_enqueued (q # rest))" unfolding s [symmetric] by simp
  then have "\<forall>r\<in>set (q # rest). qr_enqueued q \<le> qr_enqueued r" by simp
  with set show ?thesis by auto
qed

lemma oldest_claimable_None: "oldest_claimable now qs = None \<longleftrightarrow> (\<forall>r\<in>set qs. \<not> claimable now r)"
proof -
  have "oldest_claimable now qs = None \<longleftrightarrow> sort_key qr_enqueued (filter (claimable now) qs) = []"
    by (auto simp: oldest_claimable_def split: list.splits)
  also have "\<dots> \<longleftrightarrow> filter (claimable now) qs = []" by (metis set_empty set_sort)
  finally show ?thesis by (simp add: filter_empty_conv)
qed

lemma claim_stmt:
  assumes "stmt ctx (claim_next now) db = (Inr m, d)"
  shows "case m of
      None \<Rightarrow> same_tables d db \<and> (\<forall>r\<in>set (db_queue db). \<not> claimable now r)
    | Some c \<Rightarrow> (\<exists>q. oldest_claimable now (db_queue db) = Some q \<and> c = claimed_row now q \<and>
        same_tables d (db\<lparr>db_queue := claim_in now q (db_queue db)\<rparr>))"
  using stmt_Inr [OF assms] oldest_claimable_None [of now "db_queue db"]
  by (auto simp: claim_next_def same_tables_def split: option.splits)

text \<open>What one poll does: it finds nothing, or claims the oldest due entry and hands out its email or an error.\<close>

lemma sqlite_poll:
  assumes inv: "queue_inv db" and run: "sqlite_try_dequeue parse_url now db = (x, d)"
  obtains (idle) "x = Inr None" "same_tables d db" "\<forall>r\<in>set (db_queue db). \<not> claimable now r"
    | (offline) e where "x = Inl e" "same_tables d db"
    | (claimed) q where "oldest_claimable now (db_queue db) = Some q"
        "same_tables d (db\<lparr>db_queue := claim_in now q (db_queue db)\<rparr>)"
        "case x of Inl e \<Rightarrow> True | Inr None \<Rightarrow> False
         | Inr (Some it) \<Rightarrow> dq_token it = row_token q \<and> dq_id it = qr_email q \<and> dq_attempt it = qr_attempts q + 1 \<and>
             dq_trace it = deserialize_trace_context (qr_trace q) \<and>
             (\<exists>r. find_email (qr_email q) db = Some r \<and> parse_envelope parse_url r = Inr (dq_envelope it))"
proof -
  obtain m d1 where 1: "stmt ''claiming next queue entry'' (claim_next now) db = (m, d1)" by fastforce
  show thesis
  proof (cases m)
    case (Inl e)
    with 1 run have "x = Inl (QueueStorage e)" "d = d1"
      by (auto simp: sqlite_try_dequeue_def and_then_def map_err_st_def)
    with stmt_Inl [OF 1 [unfolded Inl]] offline show thesis by blast
  next
    case (Inr mo)
    note c = claim_stmt [OF 1 [unfolded Inr]]
    show thesis
    proof (cases mo)
      case None
      with 1 Inr run have "x = Inr None" "d = d1"
        by (auto simp: sqlite_try_dequeue_def and_then_def map_err_st_def done_with_def)
      with c None idle show thesis by auto
    next
      case (Some cq)
      then obtain q where q: "oldest_claimable now (db_queue db) = Some q" "cq = claimed_row now q"
        "same_tables d1 (db\<lparr>db_queue := claim_in now q (db_queue db)\<rparr>)" using c by auto
      note qs = oldest_claimable_Some [OF q(1)]
      have "queue_inv d1" using queue_inv_claim [OF inv] qs queue_inv_same [OF q(3)] by blast
      have em: "find_email i d1 = find_email i db" for i using q(3) by (simp add: same_tables_def find_email_def)
      have "qr_email q \<in> set (email_ids db)" using queue_inv_emails [OF inv] qs by blast
      then obtain r where r: "find_email (qr_email q) db = Some r" using find_email_None by fastforce
      show thesis
      proof (cases "u32_max < qr_attempts cq")
        case True
        with 1 Inr Some run have "x = Inl (QueueStorage ''attempt_count out of range'')" "d = d1"
          by (auto simp: sqlite_try_dequeue_def and_then_def map_err_st_def fail_with_def)
        with claimed q show thesis by simp
      next
        case small: False
        obtain y d2 where 2: "stmt ''fetching email for dequeue'' (select_email (qr_email cq)) d1 = (y, d2)" by fastforce
        show thesis
        proof (cases y)
          case (Inl e)
          with 1 \<open>m = Inr mo\<close> Some small 2 run have "x = Inl (QueueStorage e)" "d = d2"
            by (auto simp: sqlite_try_dequeue_def and_then_def map_err_st_def)
          moreover have "same_tables d2 d1" using stmt_Inl [OF 2 [unfolded Inl]] by simp
          ultimately show thesis using claimed q same_tables_trans by simp
        next
          case ok: (Inr ro)
          have ro: "ro = Some r" "same_tables d2 d1"
            using stmt_Inr [OF 2 [unfolded ok]] em r q(2)
            by (auto simp: select_email_def claimed_row_def find_email_def)
          have d: "same_tables d2 (db\<lparr>db_queue := claim_in now q (db_queue db)\<rparr>)"
            using ro(2) q(3) same_tables_trans by blast
          have id: "er_id r = qr_email q" using find_email_Some [OF r] by simp
          show thesis
          proof (cases "parse_envelope parse_url r")
            case (Inl e)
            with 1 \<open>m = Inr mo\<close> Some small 2 ok ro run have "x = Inl (QueueStorage e)" "d = d2"
              by (auto simp: sqlite_try_dequeue_def and_then_def map_err_st_def parse_row_def fail_with_def)
            with claimed [OF q(1)] d show thesis by simp
          next
            case (Inr env)
            with 1 \<open>m = Inr mo\<close> Some small 2 ok ro run
            have "x = Inr (Some \<lparr>dq_id = er_id r, dq_envelope = env, dq_attempt = qr_attempts cq,
                dq_token = AckToken (uuid_bytes (qr_id cq)), dq_trace = deserialize_trace_context (qr_trace cq)\<rparr>)" "d = d2"
              by (auto simp: sqlite_try_dequeue_def and_then_def map_err_st_def parse_row_def done_with_def)
            with claimed [OF q(1)] d id r Inr q(2) show thesis
              by (simp add: claimed_row_def row_token_def)
          qed
        qed
      qed
    qed
  qed
qed


lemma sqlite_poll_claim:
  assumes "queue_inv db" "sqlite_try_dequeue parse_url now db = (Inr (Some it), d)"
  shows "queue_inv d \<and> (\<exists>r\<in>set (db_queue db). claimable now r \<and> dq_token it = row_token r \<and> dq_id it = qr_email r \<and>
    dq_attempt it = qr_attempts r + 1 \<and> db_queue d = claim_in now r (db_queue db) \<and>
    (\<forall>r'\<in>set (db_queue db). claimable now r' \<longrightarrow> qr_enqueued r \<le> qr_enqueued r'))"
  using assms
proof (cases rule: sqlite_poll)
  case (claimed q)
  note q = oldest_claimable_Some [OF claimed(1)]
  have "queue_inv d" using queue_inv_claim [OF assms(1)] q queue_inv_same [OF claimed(2)] by blast
  with claimed q show ?thesis by (intro conjI bexI [of _ q]) (auto simp: same_tables_def)
qed simp_all

lemma sqlite_poll_none:
  assumes "queue_inv db" "sqlite_try_dequeue parse_url now db = (Inr None, d)"
  shows "queue_inv d \<and> db_queue d = db_queue db \<and> (\<forall>r\<in>set (db_queue db). \<not> claimable now r)"
  using assms
proof (cases rule: sqlite_poll)
  case idle
  then show ?thesis using assms(1) queue_inv_same [OF idle(2)] by (simp add: same_tables_def)
qed simp_all

lemma sqlite_poll_error:
  assumes "queue_inv db" "sqlite_try_dequeue parse_url now db = (Inl e, d)"
  shows "queue_inv d \<and> claimed_or_same now (db_queue db) (db_queue d)"
  using assms
proof (cases rule: sqlite_poll)
  case (offline e')
  then show ?thesis using assms(1) queue_inv_same [OF offline(2)] by (simp add: same_tables_def claimed_or_same_def)
next
  case (claimed q)
  note q = oldest_claimable_Some [OF claimed(1)]
  have "queue_inv d" using queue_inv_claim [OF assms(1)] q queue_inv_same [OF claimed(2)] by blast
  with claimed q show ?thesis by (auto simp: same_tables_def claimed_or_same_def)
qed simp_all

lemma queue_inv_filter: "queue_inv db \<Longrightarrow> queue_inv (db\<lparr>db_queue := filter P (db_queue db)\<rparr>)"
proof (rule queue_inv_update)
  assume "queue_inv db"
  then show "distinct (map qr_id (filter P (db_queue db)))"
    by (auto simp: queue_inv_def db_inv_def distinct_map inj_on_def)
  show "qr_email ` set (filter P (db_queue db)) \<subseteq> set (email_ids db)"
    using queue_inv_emails [OF \<open>queue_inv db\<close>] by auto
qed auto

lemma queue_inv_reclaim:
  assumes "queue_inv db"
  shows "queue_inv (db\<lparr>db_queue := map (\<lambda>r. if P r then r\<lparr>qr_claimed := c\<rparr> else r) (db_queue db)\<rparr>)"
proof -
  let ?qs = "map (\<lambda>r. if P r then r\<lparr>qr_claimed := c\<rparr> else r) (db_queue db)"
  have ids: "map qr_id ?qs = map qr_id (db_queue db)" and eml: "map qr_email ?qs = map qr_email (db_queue db)"
    by (simp_all add: comp_def if_distrib cong: if_cong)
  from eml have emails: "qr_email ` set ?qs = qr_email ` set (db_queue db)" by (metis set_map)
  show ?thesis
  proof (rule queue_inv_update [OF assms])
    show "distinct (map qr_id ?qs)" using assms unfolding ids by (simp add: queue_inv_def db_inv_def)
    show "qr_id ` set ?qs \<subseteq> qr_id ` set (db_queue db)" using image_ids_map [OF ids] by simp
    show "qr_email ` set ?qs \<subseteq> set (email_ids db)" unfolding emails by (rule queue_inv_emails [OF assms])
  qed
qed

lemma AckToken_eq: "AckToken bs = t \<longleftrightarrow> bs = token_bytes t"
  by (cases t) auto

lemma sqlite_ack_ok:
  assumes "queue_inv db" "sqlite_ack tok db = (Inr u, d)"
  shows "queue_inv d \<and> db_queue d = filter (\<lambda>r. row_token r \<noteq> tok) (db_queue db)"
proof -
  have st: "same_tables d (db\<lparr>db_queue := filter (\<lambda>r. row_token r \<noteq> tok) (db_queue db)\<rparr>)"
    using assms(2)
    by (auto simp: sqlite_ack_def st_results delete_entry_def same_tables_def row_token_def AckToken_eq dest!: stmt_Inr)
  then show ?thesis
    using queue_inv_same [OF st queue_inv_filter [OF assms(1)]] by (simp add: same_tables_def)
qed

lemma sqlite_ack_err: "queue_inv db \<Longrightarrow> sqlite_ack tok db = (Inl e, d) \<Longrightarrow> queue_inv d \<and> db_queue d = db_queue db"
  using queue_inv_same by (auto simp: sqlite_ack_def st_results same_tables_def dest!: stmt_Inl)

lemma sqlite_nack_ok:
  assumes "queue_inv db" "sqlite_nack now tok delay db = (Inr u, d)"
  shows "queue_inv d \<and> db_queue d =
    map (\<lambda>r. if row_token r = tok then r\<lparr>qr_claimed := Some (nack_until now delay)\<rparr> else r) (db_queue db)"
proof -
  have st: "same_tables d (db\<lparr>db_queue := map (\<lambda>r. if row_token r = tok then r\<lparr>qr_claimed := Some (nack_until now delay)\<rparr> else r) (db_queue db)\<rparr>)"
    using assms(2)
    by (auto simp: sqlite_nack_def st_results update_claim_def same_tables_def row_token_def AckToken_eq dest!: stmt_Inr)
  then show ?thesis
    using queue_inv_same [OF st queue_inv_reclaim [OF assms(1)]] by (simp add: same_tables_def)
qed

lemma sqlite_nack_err: "queue_inv db \<Longrightarrow> sqlite_nack now tok delay db = (Inl e, d) \<Longrightarrow> queue_inv d \<and> db_queue d = db_queue db"
  using queue_inv_same by (auto simp: sqlite_nack_def st_results same_tables_def dest!: stmt_Inl)

lemma sqlite_enqueue_ok:
  assumes "sqlite_enqueue now e ps i env db = (Inr u, d)"
  shows "same_tables d (db\<lparr>db_queue := db_queue db @ [queue_row_of now e ps i]\<rparr>) \<and>
    e \<notin> qr_id ` set (db_queue db) \<and> i \<in> set (email_ids db)"
  using assms
  by (auto simp: sqlite_enqueue_def st_results insert_entry_def same_tables_def queue_row_of_def email_ids_def
      dest!: stmt_Inr split: if_splits)

lemma sqlite_enqueue_err: "sqlite_enqueue now e ps i env db = (Inl er, d) \<Longrightarrow> same_tables d db"
  by (auto simp: sqlite_enqueue_def st_results dest!: stmt_Inl)

lemma queue_inv_enqueue:
  assumes "queue_inv db" "uuid_ok e" "e \<notin> qr_id ` set (db_queue db)" "i \<in> set (email_ids db)"
  shows "queue_inv (db\<lparr>db_queue := db_queue db @ [queue_row_of now e ps i]\<rparr>)"
  using assms by (auto simp: queue_inv_def db_inv_def email_ids_def email_keys_def queue_row_of_def)

lemma sqlite_enqueue_law:
  assumes "queue_inv db" "uuid_ok e" "sqlite_enqueue now e ps i env db = (x, d)"
  shows "queue_inv d \<and> (db_queue d = db_queue db \<or> db_queue d = db_queue db @ [queue_row_of now e ps i])"
proof (cases x)
  case (Inl er)
  with sqlite_enqueue_err assms have st: "same_tables d db" by blast
  then show ?thesis using queue_inv_same [OF st assms(1)] by (simp add: same_tables_def)
next
  case (Inr u)
  note ok = sqlite_enqueue_ok [OF assms(3) [unfolded Inr]]
  then have "queue_inv d" using queue_inv_enqueue [OF assms(1,2)] queue_inv_same by blast
  with ok show ?thesis by (simp add: same_tables_def)
qed

interpretation sqlite_queue: claim_queue sqlite_enqueue "sqlite_try_dequeue parse_url" sqlite_ack sqlite_nack db_queue queue_inv
  for parse_url
proof (unfold_locales, goal_cases)
  case 1 then show ?case by (rule queue_inv_distinct)
next
  case 2 then show ?case by (rule sqlite_enqueue_law)
next
  case 3 then show ?case by (rule sqlite_poll_claim)
next
  case 4 then show ?case by (rule sqlite_poll_none)
next
  case 5 then show ?case by (rule sqlite_poll_error)
next
  case 6 then show ?case by (rule sqlite_ack_ok)
next
  case 7 then show ?case by (rule sqlite_ack_err)
next
  case 8 then show ?case by (rule sqlite_nack_ok)
next
  case 9 then show ?case by (rule sqlite_nack_err)
qed

section \<open>Properties\<close>

text \<open>C10: A claim is exclusive: an email that a dequeue has handed out is handed out again, under its own entry or any
  other, only after the processing timeout has passed or after the delay of a negative acknowledgement of its entry that some
  party has sent meanwhile; whatever else the parties enqueue, dequeue, acknowledge or reschedule in between, and whichever of
  their statements fail.  The clock of the last dequeue is not behind those of the earlier ones, each email has one entry, and
  the ids generated meanwhile are new.\<close>

theorem sqlite_claim_exclusive:
  assumes "queue_inv db" "sqlite_try_dequeue parse_url now db = (Inr (Some it), d)" "distinct (map qr_email (db_queue db))"
    and "\<forall>s e ps j env. QEnqueue s e ps j env \<in> set calls \<longrightarrow>
      uuid_ok e \<and> uuid_bytes e \<noteq> token_bytes (dq_token it) \<and> j \<noteq> dq_id it"
    and "\<forall>s. QDequeue s \<in> set calls \<longrightarrow> s \<le> t"
    and "sqlite_try_dequeue parse_url t
      (snd (queue_run sqlite_enqueue (sqlite_try_dequeue parse_url) sqlite_ack sqlite_nack calls d)) = (Inr (Some it'), d')"
    and "dq_id it' = dq_id it \<or> dq_token it' = dq_token it"
  shows "now + 300000 < t \<or> (\<exists>s delay. QNack s (dq_token it) delay \<in> set calls \<and> nack_until s delay < t)"
  using sqlite_queue.handed_out_again [OF assms] by (simp add: processing_timeout_ms_def)

text \<open>A negative acknowledgement delays: after \<open>nack\<close> the entry is not handed out before its delay has passed
  (the sum saturates, so a huge delay means never).\<close>

theorem sqlite_nack_delays:
  assumes "queue_inv db" "sqlite_nack now tok delay db = (Inr u, d)"
    and "\<forall>c\<in>set calls. leaves_alone tok (nack_until now delay) c"
  shows "\<forall>it\<in>set (fst (queue_run sqlite_enqueue (sqlite_try_dequeue parse_url) sqlite_ack sqlite_nack calls d)).
    dq_token it \<noteq> tok"
  using sqlite_queue.held_nacked [OF assms(1,2)] sqlite_queue.held_alone [OF _ _ assms(3)] by blast

text \<open>An acknowledgement is final: the entry never comes back, at any later time, unless its id is generated anew.\<close>

theorem sqlite_ack_final:
  assumes "queue_inv db" "sqlite_ack tok db = (Inr u, d)"
    and "\<forall>now e ps i env. QEnqueue now e ps i env \<in> set calls \<longrightarrow> uuid_ok e \<and> uuid_bytes e \<noteq> token_bytes tok"
    and "\<forall>now delay. QNack now tok delay \<notin> set calls"
  shows "\<forall>it\<in>set (fst (queue_run sqlite_enqueue (sqlite_try_dequeue parse_url) sqlite_ack sqlite_nack calls d)).
    dq_token it \<noteq> tok"
proof -
  let ?times = "{t. QDequeue t \<in> set calls}"
  have "?times \<subseteq> (\<lambda>c. case c of QDequeue t \<Rightarrow> t | _ \<Rightarrow> 0) ` set calls" by force
  then have "finite ?times" by (rule finite_subset) simp
  then obtain u where u: "\<forall>t\<in>?times. t \<le> u" by (metis Max_ge)
  have "\<forall>c\<in>set calls. leaves_alone tok u c"
  proof
    fix c assume "c \<in> set calls"
    with assms(4) u show "leaves_alone tok u c"
    proof (cases c)
      case (QEnqueue now e ps i env)
      with assms(3) \<open>c \<in> set calls\<close> have "uuid_ok e \<and> uuid_bytes e \<noteq> token_bytes tok" by blast
      with QEnqueue show ?thesis by simp
    qed auto
  qed
  with sqlite_queue.held_acked [OF assms(1,2)] sqlite_queue.held_alone show ?thesis by blast
qed


text \<open>C13: No email is lost or altered on its way through the store: what is saved, given attachments and enqueued is
  dequeued with the same envelope, those attachments, the trace headers, and attempt number one.\<close>

theorem sqlite_store_roundtrip:
  assumes "queue_inv db" "db_faults db = []" "db_queue db = []" "env_ok env" "url_stable parse_url (env_body env)"
    and "\<forall>a\<in>set refs. size_fits a" "uuid_ok entry" "enq_at \<le> now"
    and "sqlite_save t i env db = (Inr (Created j), d1)" "db_faults d1 = []"
    and "sqlite_set_attachments i refs d1 = (Inr u, d2)" "db_faults d2 = []"
    and "sqlite_enqueue enq_at entry pairs i env d2 = (Inr u', d3)" "db_faults d3 = []"
  shows "fst (sqlite_try_dequeue parse_url now d3) =
    Inr (Some \<lparr>dq_id = i, dq_envelope = env\<lparr>env_attachments := refs\<rparr>, dq_attempt = 1,
      dq_token = AckToken (uuid_bytes entry), dq_trace = TraceCarrier pairs\<rparr>)"
proof -
  have inv: "db_inv db" using assms(1) by (simp add: queue_inv_def)
  note cr = SqlStore.save_created [OF assms(9)]
  have inv1: "db_inv d1" by (rule save_keeps_inv [OF inv assms(4,9)])
  let ?r = "email_row_of t i env"
  have "?r \<in> set (db_emails d1)" "er_id ?r = i" using cr by (simp_all add: same_tables_def email_row_of_def)
  with find_email_unique [OF inv1, of ?r] have f1: "find_email i d1 = Some ?r" by simp
  have body: "de_body_column (er_body ?r) = Some (body_source_to_dto (env_body env), env_attachments env)"
    using assms(4) by (simp add: email_row_of_def de_ser_body_column env_ok_def)
  have st2: "same_tables d2 (with_refs i refs d1)" using set_attachments_ok [OF inv1 assms(11)] by blast
  have inv2: "db_inv d2" by (rule set_attachments_keeps_inv [OF inv1 assms(6,11)])
  let ?r2 = "?r\<lparr>er_body := ser_body_column (env_body env) refs\<rparr>"
  have "?r2 \<in> set (db_emails (with_refs i refs d1))"
    using \<open>?r \<in> set (db_emails d1)\<close> \<open>er_id ?r = i\<close> body
    by (force simp: with_refs_def ser_body_column_def)
  with st2 have "?r2 \<in> set (db_emails d2)" by (simp add: same_tables_def)
  moreover have "er_id ?r2 = i" by (simp add: email_row_of_def)
  ultimately have f2: "find_email i d2 = Some ?r2" using find_email_unique [OF inv2, of ?r2] by simp
  have q2: "db_queue d2 = []" using st2 cr assms(3) by (simp add: same_tables_def)
  note en = sqlite_enqueue_ok [OF assms(13)]
  let ?q = "queue_row_of enq_at entry pairs i"
  have q3: "db_queue d3 = [?q]" using en q2 by (simp add: same_tables_def)
  have f3: "find_email i d3 = Some ?r2" using f2 en by (simp add: same_tables_def find_email_def)
  have cl: "stmt ''claiming next queue entry'' (claim_next now) d3 =
      (Inr (Some (claimed_row now ?q)), d3\<lparr>db_queue := [claimed_row now ?q]\<rparr>)"
    by (rule stmt_ok [OF assms(14)])
      (simp add: claim_next_def oldest_claimable_def q3 claimable_def queue_row_of_def claim_in_def)
  have se: "stmt ''fetching email for dequeue'' (select_email i) (d3\<lparr>db_queue := [claimed_row now ?q]\<rparr>) =
      (Inr (Some ?r2), d3\<lparr>db_queue := [claimed_row now ?q]\<rparr>)"
    by (rule stmt_ok) (use assms(14) f3 in \<open>simp_all add: select_email_def find_email_def\<close>)
  have pa: "parse_row parse_url ?r2 = Inr (i, env\<lparr>env_attachments := refs\<rparr>)"
    using parse_envelope_of_saved [OF assms(4,5,6)] by (simp add: parse_row_def email_row_of_def)
  show ?thesis
    using cl se pa
    by (auto simp: sqlite_try_dequeue_def and_then_def map_err_st_def done_with_def claimed_row_def queue_row_of_def
        deserialize_trace_context_def u32_max_def trace_carrier_new_def trace_carrier_default_def)
qed


section \<open>Reachable databases\<close>

text \<open>Any interleaving of complete operations, each with arbitrary arguments of the code's types and arbitrary
  statement failures.\<close>

inductive sql_step :: "(string \<Rightarrow> anyhow + url) \<Rightarrow> sql_db \<Rightarrow> sql_db \<Rightarrow> bool" for parse_url where
  step_save: "env_ok env \<Longrightarrow> sql_step parse_url db (snd (sqlite_save now i env db))"
| step_set: "\<forall>a\<in>set refs. size_fits a \<Longrightarrow> sql_step parse_url db (snd (sqlite_set_attachments i refs db))"
| step_delete: "sql_step parse_url db (snd (sqlite_delete i db))"
| step_publish: "sql_step parse_url db (snd (sqlite_publish now e ev db))"
| step_enqueue: "uuid_ok e \<Longrightarrow> sql_step parse_url db (snd (sqlite_enqueue now e ps i env db))"
| step_dequeue: "sql_step parse_url db (snd (sqlite_try_dequeue parse_url now db))"
| step_ack: "sql_step parse_url db (snd (sqlite_ack tok db))"
| step_nack: "sql_step parse_url db (snd (sqlite_nack now tok d db))"

inductive_cases sql_stepE: "sql_step parse_url db db'"

lemma queue_inv_weaken:
  assumes "queue_inv db" "db_inv d" "db_queue d = db_queue db" shows "queue_inv d"
  using assms by (simp add: queue_inv_def)

lemma repository_keeps_queue:
  "db_queue (snd (sqlite_save now i env db)) = db_queue db"
  "db_inv db \<Longrightarrow> db_queue (snd (sqlite_set_attachments i refs db)) = db_queue db"
  "db_inv db \<Longrightarrow> db_queue (snd (sqlite_delete i db)) = db_queue db"
  "db_queue (snd (sqlite_publish t e ev db)) = db_queue db"
proof -
  obtain x d where s: "sqlite_save now i env db = (x, d)" by fastforce
  consider e where "x = Inl e" | j where "x = Inr (Created j)" | j where "x = Inr (Duplicate j)"
    by (metis sum.exhaust save_result.exhaust)
  then show "db_queue (snd (sqlite_save now i env db)) = db_queue db"
    using s save_error SqlStore.save_created SqlStore.save_duplicate by cases (fastforce simp: same_tables_def)+
next
  assume inv: "db_inv db"
  obtain x d where s: "sqlite_set_attachments i refs db = (x, d)" by fastforce
  then show "db_queue (snd (sqlite_set_attachments i refs db)) = db_queue db"
    using set_attachments_error [of i refs db] set_attachments_ok [OF inv, of i refs]
    by (cases x) (fastforce simp: same_tables_def)+
next
  assume inv: "db_inv db"
  obtain x d where s: "sqlite_delete i db = (x, d)" by fastforce
  then show "db_queue (snd (sqlite_delete i db)) = db_queue db"
    using delete_error [of i db] delete_ok [OF inv, of i]
    by (cases x) (fastforce simp: same_tables_def without_email_def)+
next
  obtain x d where s: "sqlite_publish t e ev db = (x, d)" by fastforce
  then show "db_queue (snd (sqlite_publish t e ev db)) = db_queue db"
    using publish_error [of t e ev db] publish_ok [of t e ev db]
    by (cases x) (fastforce simp: same_tables_def)+
qed

lemma sql_step_inv:
  assumes "sql_step parse_url db db'" "queue_inv db" shows "queue_inv db'"
proof -
  have inv: "db_inv db" using assms(2) by (simp add: queue_inv_def)
  note keep = queue_inv_weaken [OF assms(2)]
  from assms(1) show ?thesis
  proof cases
    case (step_save env now i)
    with save_keeps_inv [OF inv] keep repository_keeps_queue(1) show ?thesis by (metis prod.collapse)
  next
    case (step_set refs i)
    with set_attachments_keeps_inv [OF inv] keep repository_keeps_queue(2) [OF inv] show ?thesis by (metis prod.collapse)
  next
    case (step_delete i)
    with delete_keeps_inv [OF inv] keep repository_keeps_queue(3) [OF inv] show ?thesis by (metis prod.collapse)
  next
    case (step_publish now e ev)
    with publish_keeps_inv [OF inv] keep repository_keeps_queue(4) show ?thesis by (metis prod.collapse)
  next
    case (step_enqueue e now ps i env)
    with sqlite_enqueue_law [OF assms(2)] show ?thesis by (metis prod.collapse)
  next
    case (step_dequeue now)
    obtain x d where s: "sqlite_try_dequeue parse_url now db = (x, d)" by fastforce
    consider e where "x = Inl e" | "x = Inr None" | it where "x = Inr (Some it)"
      by (metis sum.exhaust option.exhaust)
    then have "queue_inv d"
      using s sqlite_poll_claim [OF assms(2)] sqlite_poll_none [OF assms(2)] sqlite_poll_error [OF assms(2)] by cases auto
    with s step_dequeue show ?thesis by simp
  next
    case (step_ack tok)
    obtain x d where s: "sqlite_ack tok db = (x, d)" by fastforce
    with sqlite_ack_ok [OF assms(2)] sqlite_ack_err [OF assms(2)] step_ack show ?thesis by (cases x) auto
  next
    case (step_nack now tok dl)
    obtain x d where s: "sqlite_nack now tok dl db = (x, d)" by fastforce
    with sqlite_nack_ok [OF assms(2)] sqlite_nack_err [OF assms(2)] step_nack show ?thesis by (cases x) auto
  qed
qed

text \<open>C14: Whatever sequence of operations runs on a freshly migrated database, and whichever statements fail: ids and
  idempotency keys stay unique, every event and every queued job refers to a stored email, and every stored body and
  recipient list can be read back.\<close>

theorem reachable_database_ok:
  assumes "(sql_step parse_url)\<^sup>*\<^sup>* (empty_db\<lparr>db_faults := faults\<rparr>) db"
  shows "distinct (map er_id (db_emails db)) \<and> distinct (List.map_filter er_key (db_emails db)) \<and>
    vr_email ` set (db_events db) \<subseteq> er_id ` set (db_emails db) \<and>
    qr_email ` set (db_queue db) \<subseteq> er_id ` set (db_emails db) \<and>
    distinct (map qr_id (db_queue db)) \<and>
    (\<forall>r\<in>set (db_emails db). de_body_column (er_body r) \<noteq> None \<and> de_recipients (er_recipients r) \<noteq> None)"
proof -
  have "queue_inv db"
    using assms
  proof (induction rule: rtranclp_induct)
    case base
    show ?case using db_inv_empty by (simp add: queue_inv_def) (simp add: empty_db_def)
  next
    case (step d d')
    then show ?case using sql_step_inv by blast
  qed
  then show ?thesis by (auto simp: queue_inv_def db_inv_def email_ids_def email_keys_def row_ok_def)
qed


section \<open>Concrete instances\<close>

definition one_job_db :: sql_db where
  "one_job_db = one_email_db\<lparr>db_queue := [queue_row_of 7 9 [] (EmailId 1)]\<rparr>"

lemma enqueue_run:
  assumes "db_faults db = []" "e \<notin> qr_id ` set (db_queue db)" "i \<in> set (email_ids db)"
  shows "sqlite_enqueue now e ps i env db = (Inr (), db\<lparr>db_queue := db_queue db @ [queue_row_of now e ps i]\<rparr>)"
proof -
  have "stmt ''inserting into email_queue'' (insert_entry (queue_row_of now e ps i)) db =
      (Inr (), db\<lparr>db_queue := db_queue db @ [queue_row_of now e ps i]\<rparr>)"
    by (rule stmt_ok [OF assms(1)]) (use assms in \<open>simp add: insert_entry_def queue_row_of_def\<close>)
  then show ?thesis by (simp add: sqlite_enqueue_def map_err_st_def and_then_def done_with_def)
qed

lemma one_job_db: "queue_inv one_job_db"
proof -
  have "queue_inv one_email_db" using one_email_db(1) by (simp add: queue_inv_def) (simp add: one_email_db_def empty_db_def)
  from queue_inv_enqueue [OF this, of 9 "EmailId 1" 7 "[]"] show ?thesis
    by (simp add: one_job_db_def uuid_ok_def one_email_db_def empty_db_def email_ids_def email_row_of_def)
qed

lemma one_job_dequeue_at:
  assumes "claimable t q" "qr_email q = EmailId 1" "qr_trace q = None" "qr_attempts q < 100"
  shows "\<exists>it. sqlite_try_dequeue (\<lambda>s. Inl ''no url'') t (one_job_db\<lparr>db_queue := [q]\<rparr>) =
      (Inr (Some it), one_job_db\<lparr>db_queue := [claimed_row t q]\<rparr>) \<and> dq_id it = EmailId 1 \<and> dq_token it = row_token q"
proof -
  let ?d = "one_job_db\<lparr>db_queue := [claimed_row t q]\<rparr>"
  let ?r = "email_row_of 5 (EmailId 1) sample_envelope"
  have f: "db_faults (one_job_db\<lparr>db_queue := [q]\<rparr>) = []" by (simp add: one_job_db_def one_email_db_def empty_db_def)
  have 1: "stmt ''claiming next queue entry'' (claim_next t) (one_job_db\<lparr>db_queue := [q]\<rparr>) = (Inr (Some (claimed_row t q)), ?d)"
    by (rule stmt_ok [OF f]) (simp add: claim_next_def oldest_claimable_def assms(1) claim_in_def)
  have 2: "stmt ''fetching email for dequeue'' (select_email (EmailId 1)) ?d = (Inr (Some ?r), ?d)"
    by (rule stmt_ok)
      (simp_all add: select_email_def find_email_def one_job_db_def one_email_db_def empty_db_def email_row_of_def)
  have "?r\<lparr>er_body := ser_body_column (env_body sample_envelope) []\<rparr> = ?r"
    by (simp add: email_row_of_def sample_envelope_def)
  then have "parse_envelope (\<lambda>s. Inl ''no url'') ?r = Inr (sample_envelope\<lparr>env_attachments := []\<rparr>)"
    using parse_envelope_of_saved [OF env_ok_sample(2), of "\<lambda>s. Inl ''no url''" "[]" 5 "EmailId 1"]
    by (simp add: sample_envelope_def)
  with 1 2 assms(2-4) show ?thesis
    by (simp add: sqlite_try_dequeue_def and_then_def map_err_st_def done_with_def claimed_row_def row_token_def
        u32_max_def parse_row_def email_row_of_def)
qed

text \<open>The email handed out at 10 ms comes back when its claim has run out.\<close>

theorem sqlite_claim_exclusive_witness:
  "\<exists>it d it' d'. sqlite_try_dequeue (\<lambda>s. Inl ''no url'') 10 one_job_db = (Inr (Some it), d) \<and>
     sqlite_try_dequeue (\<lambda>s. Inl ''no url'') 300011 d = (Inr (Some it'), d') \<and> dq_id it' = dq_id it \<and> (10::int) + 300000 < 300011"
proof -
  let ?q = "queue_row_of 7 9 [] (EmailId 1)"
  have one: "one_job_db\<lparr>db_queue := [?q]\<rparr> = one_job_db" by (simp add: one_job_db_def)
  obtain it where it: "sqlite_try_dequeue (\<lambda>s. Inl ''no url'') 10 one_job_db = (Inr (Some it), one_job_db\<lparr>db_queue := [claimed_row 10 ?q]\<rparr>)"
    "dq_id it = EmailId 1"
    using one_job_dequeue_at [of 10 ?q] unfolding one by (auto simp: claimable_def queue_row_of_def)
  obtain it' d' where it': "sqlite_try_dequeue (\<lambda>s. Inl ''no url'') 300011 (one_job_db\<lparr>db_queue := [claimed_row 10 ?q]\<rparr>) = (Inr (Some it'), d')"
    "dq_id it' = EmailId 1"
    using one_job_dequeue_at [of 300011 "claimed_row 10 ?q"]
    by (auto simp: claimable_def queue_row_of_def claimed_row_def processing_timeout_ms_def)
  have "(10::int) + 300000 < 300011 \<or> (\<exists>s delay. QNack s (dq_token it) delay \<in> set [] \<and> nack_until s delay < 300011)"
    by (rule sqlite_claim_exclusive [OF one_job_db it(1), of _ _ it' d']) (use it it' in \<open>simp_all add: one_job_db_def\<close>)
  with it it' show ?thesis by auto
qed

theorem sqlite_nack_delays_witness:
  "AckToken (uuid_bytes 9) \<notin> dq_token ` set (fst (queue_run sqlite_enqueue (sqlite_try_dequeue (\<lambda>s. Inl ''no url'')) sqlite_ack sqlite_nack
      [QDequeue 100, QDequeue 1010] (snd (sqlite_nack 10 (AckToken (uuid_bytes 9)) 1000 one_job_db))))"
proof -
  obtain d where d: "sqlite_nack 10 (AckToken (uuid_bytes 9)) 1000 one_job_db = (Inr (), d)"
    using stmt_ok [of one_job_db "update_claim (uuid_bytes 9) (nack_until 10 1000)"]
    by (simp add: sqlite_nack_def map_err_st_def and_then_def done_with_def update_claim_def one_job_db_def
        one_email_db_def empty_db_def)
  from sqlite_nack_delays [OF one_job_db d, of "[QDequeue 100, QDequeue 1010]" "\<lambda>s. Inl ''no url''"] show ?thesis
    by (auto simp: d nack_until_def sat_i64_def int_limits simp del: queue_run.simps)
qed

theorem sqlite_ack_final_witness:
  "AckToken (uuid_bytes 9) \<notin> dq_token ` set (fst (queue_run sqlite_enqueue (sqlite_try_dequeue (\<lambda>s. Inl ''no url'')) sqlite_ack sqlite_nack
      [QDequeue 10000000] (snd (sqlite_ack (AckToken (uuid_bytes 9)) one_job_db))))"
proof -
  obtain d where d: "sqlite_ack (AckToken (uuid_bytes 9)) one_job_db = (Inr (), d)"
    using stmt_ok [of one_job_db "delete_entry (uuid_bytes 9)"]
    by (simp add: sqlite_ack_def map_err_st_def and_then_def done_with_def delete_entry_def one_job_db_def
        one_email_db_def empty_db_def)
  from sqlite_ack_final [OF one_job_db d, of "[QDequeue 10000000]" "\<lambda>s. Inl ''no url''"] show ?thesis
    by (auto simp: d simp del: queue_run.simps)
qed

theorem sqlite_store_roundtrip_witness:
  "fst (sqlite_try_dequeue (\<lambda>s. Inl ''no url'') 20
     (snd (sqlite_enqueue 7 9 [(''traceparent'', ''x'')] (EmailId 1) sample_envelope
       (snd (sqlite_set_attachments (EmailId 1) [\<lparr>ar_filename = ''f'', ar_content_type = ''t'', ar_size_bytes = 3,
          ar_blob = \<lparr>blob_backend = ''fs'', blob_key = ''k''\<rparr>\<rparr>] one_email_db))))) =
   Inr (Some \<lparr>dq_id = EmailId 1, dq_envelope = sample_envelope\<lparr>env_attachments := [\<lparr>ar_filename = ''f'',
       ar_content_type = ''t'', ar_size_bytes = 3, ar_blob = \<lparr>blob_backend = ''fs'', blob_key = ''k''\<rparr>\<rparr>]\<rparr>,
     dq_attempt = 1, dq_token = AckToken (uuid_bytes 9), dq_trace = TraceCarrier [(''traceparent'', ''x'')]\<rparr>)"
proof -
  let ?refs = "[\<lparr>ar_filename = ''f'', ar_content_type = ''t'', ar_size_bytes = 3,
    ar_blob = \<lparr>blob_backend = ''fs'', blob_key = ''k''\<rparr>\<rparr>]"
  let ?ps = "[(''traceparent'', ''x'')]"
  have e: "queue_inv empty_db" "db_faults empty_db = []" "db_queue empty_db = []"
    using db_inv_empty by (simp_all add: queue_inv_def) (simp_all add: empty_db_def)
  have save: "sqlite_save 5 (EmailId 1) sample_envelope empty_db = (Inr (Created (EmailId 1)), one_email_db)"
    using save_sample_empty [of 5 "EmailId 1" None] by (simp add: one_email_db_def sample_envelope_def)
  have "find_email (EmailId 1) one_email_db = Some (email_row_of 5 (EmailId 1) sample_envelope)"
    by (simp add: find_email_def one_email_db_def email_row_of_def)
  from set_attachments_run [OF one_email_db this]
  have set: "sqlite_set_attachments (EmailId 1) ?refs one_email_db = (Inr (), with_refs (EmailId 1) ?refs one_email_db)" .
  have w: "db_faults (with_refs (EmailId 1) ?refs one_email_db) = []" "db_queue (with_refs (EmailId 1) ?refs one_email_db) = []"
    using one_email_db(2) by (simp_all add: with_refs_def) (simp add: one_email_db_def empty_db_def)
  have ids: "EmailId 1 \<in> set (email_ids (with_refs (EmailId 1) ?refs one_email_db))"
    unfolding with_refs_ids by (simp add: one_email_db_def email_ids_def email_row_of_def)
  let ?d3 = "(with_refs (EmailId 1) ?refs one_email_db)\<lparr>db_queue := [queue_row_of 7 9 ?ps (EmailId 1)]\<rparr>"
  have enq: "sqlite_enqueue 7 9 ?ps (EmailId 1) sample_envelope (with_refs (EmailId 1) ?refs one_email_db) = (Inr (), ?d3)"
    using enqueue_run [OF w(1), of 9 "EmailId 1" 7 ?ps sample_envelope] w ids by simp
  have "fst (sqlite_try_dequeue (\<lambda>s. Inl ''no url'') 20 ?d3) =
      Inr (Some \<lparr>dq_id = EmailId 1, dq_envelope = sample_envelope\<lparr>env_attachments := ?refs\<rparr>, dq_attempt = 1,
        dq_token = AckToken (uuid_bytes 9), dq_trace = TraceCarrier ?ps\<rparr>)"
    by (rule sqlite_store_roundtrip [OF e env_ok_sample(2) _ _ _ _ save one_email_db(2) set w(1) enq])
      (use w in \<open>simp_all add: sample_envelope_def size_fits_def u64_max_def uuid_ok_def\<close>)
  then show ?thesis unfolding set enq snd_conv .
qed

theorem reachable_database_ok_witness:
  "distinct (map er_id (db_emails (snd (sqlite_save 5 (EmailId 1) sample_envelope (empty_db\<lparr>db_faults := []\<rparr>)))))"
proof -
  have "(sql_step (\<lambda>s. Inl ''no url''))\<^sup>*\<^sup>* (empty_db\<lparr>db_faults := []\<rparr>)
      (snd (sqlite_save 5 (EmailId 1) sample_envelope (empty_db\<lparr>db_faults := []\<rparr>)))"
    by (rule r_into_rtranclp) (rule sql_step.step_save [OF env_ok_sample(2)])
  from reachable_database_ok [OF this] show ?thesis by simp
qed

end
