(* ===== verification/PgStore.thy ===== *)
theory PgStore
  imports SqlQueue
begin

text \<open>
  The PostgreSQL adapter (\<open>adapter/outbound-postgres/src/\<close>).  Its tables, its JSON columns and most of
  its statements are those of the SQLite adapter, so the model shares the tables and the decoding of
  \<open>SqlStore\<close> and \<open>SqlQueue\<close>; this theory holds its operations and what differs: a duplicate id is an
  error instead of an ignored insert, \<open>LIKE\<close> has an escape character, the dequeue is a transaction that skips
  rows locked by others, ack tokens have to be UUIDs, text and JSON with a NUL character are refused, and the usage query
  counts other event types.

  The rows locked by concurrent transactions are an argument of the dequeue.  Letters are compared as
  \<open>ILIKE\<close> does in the C locale.
\<close>

section \<open>Parameters\<close>

text \<open>PostgreSQL stores no NUL character: neither \<open>TEXT\<close> takes one nor \<open>JSONB\<close>, in a string or in a key.  A statement with
  such a parameter fails.\<close>

definition text_ok :: "string \<Rightarrow> bool" where
  "text_ok s \<longleftrightarrow> CHR 0x00 \<notin> set s"

primrec jsonb_ok :: "json \<Rightarrow> bool" where
  "jsonb_ok JNull = True"
| "jsonb_ok (JBool b) = True"
| "jsonb_ok (JNum n) = True"
| "jsonb_ok (JStr s) = text_ok s"
| "jsonb_ok (JArr xs) = list_all id (map jsonb_ok xs)"
| "jsonb_ok (JObj kvs) = list_all (\<lambda>p. text_ok (fst p) \<and> snd p) (map (map_prod id jsonb_ok) kvs)"

definition pg_params :: "bool \<Rightarrow> (sql_db \<Rightarrow> ('a \<times> sql_db) option) \<Rightarrow> sql_db \<Rightarrow> ('a \<times> sql_db) option" where
  "pg_params ok f db = (if ok then f db else None)"

lemma pg_params_True [simp]: "pg_params True f = f"
  by (intro ext) (simp add: pg_params_def)

lemma pg_params_False: "stmt ctx (pg_params False f) db = (Err ctx, db\<lparr>db_faults := tl (db_faults db)\<rparr>)"
  by (simp add: stmt_def pg_params_def Let_def)

definition email_row_text_ok :: "email_row \<Rightarrow> bool" where
  "email_row_text_ok r \<longleftrightarrow>
     opt_filter (er_key r) text_ok \<and> opt_filter (er_corr r) text_ok \<and> opt_filter (er_subject r) text_ok \<and>
     text_ok (er_sender r) \<and> jsonb_ok (er_recipients r) \<and> jsonb_ok (er_body r) \<and> jsonb_ok (JObj (er_variables r))"

definition event_row_text_ok :: "event_row \<Rightarrow> bool" where
  "event_row_text_ok v \<longleftrightarrow> text_ok (vr_type v) \<and> opt_filter (vr_payload v) jsonb_ok \<and> opt_filter (vr_sender v) text_ok"

section \<open>Emails\<close>

text \<open>\<open>ON CONFLICT (idempotency_key) DO NOTHING\<close>: the key decides first, a duplicate id is an error.\<close>

definition insert_email_on_conflict :: "email_row \<Rightarrow> sql_db \<Rightarrow> (nat \<times> sql_db) option" where
  "insert_email_on_conflict r db =
     (if (case er_key r of None \<Rightarrow> False | Some k \<Rightarrow> k \<in> set (email_keys db)) then Some (0, db)
      else if er_id r \<in> set (email_ids db) then None
      else Some (1, db\<lparr>db_emails := db_emails db @ [r]\<rparr>))"

definition pg_save :: "int \<Rightarrow> email_id \<Rightarrow> envelope \<Rightarrow> sql_db \<Rightarrow> (email_repository_error + save_result) \<times> sql_db" where
  "pg_save now i env =
     map_err_st RepoStorage
       (and_then (stmt ''inserting email''
           (pg_params (email_row_text_ok (email_row_of now i env)) (insert_email_on_conflict (email_row_of now i env)))) (\<lambda>affected.
          if affected = 1 then done_with (Created i)
          else case env_idempotency_key env of
             None \<Rightarrow> fail_with ''insert skipped with no idempotency key (unexpected id collision)''
           | Some key \<Rightarrow>
               and_then (stmt ''fetching existing email by idempotency key'' (select_id_by_key key))
                 (\<lambda>existing. done_with (Duplicate existing))))"

text \<open>\<open>ILIKE\<close>: a backslash makes the next character literal.\<close>

fun pg_ilike :: "string \<Rightarrow> string \<Rightarrow> bool" where
  "pg_ilike [] [] \<longleftrightarrow> True"
| "pg_ilike [] (c # cs) \<longleftrightarrow> False"
| "pg_ilike (p # ps) [] \<longleftrightarrow> p = CHR ''%'' \<and> pg_ilike ps []"
| "pg_ilike (p # ps) (c # cs) \<longleftrightarrow>
     (if p = CHR ''%'' then pg_ilike ps (c # cs) \<or> pg_ilike (p # ps) cs
      else if p = CHR 0x5C then
        (case ps of [] \<Rightarrow> False | q # qs \<Rightarrow> ascii_lower q = ascii_lower c \<and> pg_ilike qs cs)
      else (p = CHR ''_'' \<or> ascii_lower p = ascii_lower c) \<and> pg_ilike ps cs)"

definition pg_list_emails :: "list_emails_params \<Rightarrow> sql_db \<Rightarrow> (email_repository_error + email_record list) \<times> sql_db" where
  "pg_list_emails p =
     map_err_st RepoStorage
       (and_then (stmt ''listing emails''
           (pg_params (opt_filter (le_recipient p) text_ok \<and> opt_filter (le_template p) text_ok) (select_emails pg_ilike p)))
          (\<lambda>rows d. (collect_results (row_to_email_record d) rows, d)))"

definition pg_set_attachments :: "email_id \<Rightarrow> attachment_ref list \<Rightarrow> sql_db \<Rightarrow> (email_repository_error + unit) \<times> sql_db" where
  "pg_set_attachments i refs =
     map_err_st RepoStorage (in_tx
       (and_then (stmt ''starting transaction'' nop) (\<lambda>_.
        and_then (stmt ''reading body for set_attachments'' (select_body i)) (\<lambda>row.
          case row of
            None \<Rightarrow> fail_with not_found_msg
          | Some (source, _) \<Rightarrow>
              and_then (stmt ''writing body for set_attachments''
                  (pg_params (jsonb_ok (ser_envelope_body source (map attachment_ref_to_dto refs)))
                    (update_body i (ser_envelope_body source (map attachment_ref_to_dto refs))))) (\<lambda>affected.
                if affected = 0 then fail_with not_found_msg
                else stmt ''committing set_attachments transaction'' nop)))))"

definition pg_delete :: "email_id \<Rightarrow> sql_db \<Rightarrow> (email_repository_error + unit) \<times> sql_db" where
  "pg_delete i = map_err_st RepoStorage (and_then (stmt ''deleting email'' (delete_email_row i)) (\<lambda>_. done_with ()))"

definition pg_list_all_attachment_blobs :: "sql_db \<Rightarrow> (email_repository_error + blob_ref list) \<times> sql_db" where
  "pg_list_all_attachment_blobs =
     map_err_st RepoStorage
       (and_then (stmt ''listing email bodies for attachment blobs'' select_active_bodies) (\<lambda>bodies.
          done_with (concat (map (\<lambda>j. case de_body_column j of None \<Rightarrow> [] | Some (_, as) \<Rightarrow> map ar_blob as) bodies))))"

section \<open>Events, statistics, health\<close>

definition pg_publish :: "int \<Rightarrow> uuid \<Rightarrow> lifecycle_event \<Rightarrow> sql_db \<Rightarrow> (event_publisher_error + unit) \<times> sql_db" where
  "pg_publish now ev_id ev =
     map_err_st PublishError
       (and_then (stmt ''inserting lifecycle event''
           (pg_params (event_row_text_ok (event_row_of now ev_id ev)) (insert_event (event_row_of now ev_id ev)))) (\<lambda>_. done_with ()))"

definition pg_list_events :: "list_events_params \<Rightarrow> sql_db \<Rightarrow> (event_repository_error + event_record list) \<times> sql_db" where
  "pg_list_events p =
     map_err_st EventStorage
       (and_then (stmt ''listing lifecycle events''
           (pg_params (opt_filter (lv_event_type p) text_ok \<and> opt_filter (lv_sender_name p) text_ok) (select_events p))) (\<lambda>rows. done_with (map row_to_event_record rows)))"

definition pg_get_stats :: "sender_name list \<Rightarrow> int \<Rightarrow> sql_db \<Rightarrow> (sender_usage_error + sender_stats list) \<times> sql_db" where
  "pg_get_stats names since db =
     (if names = [] then (Ok [], db)
      else map_err_st UsageStorage
        (and_then (stmt ''querying sender stats''
            (pg_params (\<forall>n\<in>set names. text_ok (sender_str n))
              (\<lambda>d. Some (stats_rows ''sent'' ''failed'' (map sender_str names) since d, d))))
          (\<lambda>m. done_with (take_stats m names))) db)"

definition pg_check :: "sql_db \<Rightarrow> (health_check_error + unit) \<times> sql_db" where
  "pg_check = map_err_st Unavailable (stmt ''postgres readiness probe failed'' nop)"

record pg_config =
  pg_url :: string
  pg_max_connections :: nat
  pg_acquire_timeout_secs :: nat

definition pg_config_from_env :: "(string \<Rightarrow> env_var) \<Rightarrow> string \<Rightarrow> anyhow + pg_config" where
  "pg_config_from_env env prefix =
     (case env (prefix @ ''_URL'') of
        Present url \<Rightarrow>
          (case env_uint env (prefix @ ''_MAX_CONNECTIONS'') 10 u32_max of
             Inl e \<Rightarrow> Err e
           | Inr mx \<Rightarrow>
               (case env_uint env (prefix @ ''_ACQUIRE_TIMEOUT_SECS'') 30 u64_max of
                  Inl e \<Rightarrow> Err e
                | Inr secs \<Rightarrow> Ok \<lparr>pg_url = url, pg_max_connections = mx, pg_acquire_timeout_secs = secs\<rparr>))
      | _ \<Rightarrow> Err (''missing env var '' @ prefix @ ''_URL''))"

section \<open>The queue\<close>

definition pg_pending :: "int \<Rightarrow> sql_db \<Rightarrow> (anyhow + nat) \<times> sql_db" where
  "pg_pending now = stmt ''counting pending email_queue entries'' (select_pending now)"

text \<open>\<open>FOR UPDATE SKIP LOCKED\<close>: the oldest due entry that no other transaction holds.\<close>

definition select_next :: "uuid set \<Rightarrow> int \<Rightarrow> sql_db \<Rightarrow> (queue_row option \<times> sql_db) option" where
  "select_next locked now db = Some (oldest_claimable now (filter (\<lambda>r. qr_id r \<notin> locked) (db_queue db)), db)"

text \<open>\<open>attempt_count\<close> is an \<open>INTEGER\<close>, so adding to its largest value is an error.\<close>

definition i32_max :: nat where
  "i32_max = 2147483647"

definition update_claimed :: "int \<Rightarrow> queue_row \<Rightarrow> sql_db \<Rightarrow> (unit \<times> sql_db) option" where
  "update_claimed now q db =
     (if i32_max \<le> qr_attempts q then None else Some ((), db\<lparr>db_queue := claim_in now q (db_queue db)\<rparr>))"

definition delete_entry_id :: "uuid \<Rightarrow> sql_db \<Rightarrow> (unit \<times> sql_db) option" where
  "delete_entry_id u db = Some ((), db\<lparr>db_queue := filter (\<lambda>r. qr_id r \<noteq> u) (db_queue db)\<rparr>)"

definition pg_claim_tx :: "uuid set \<Rightarrow> int \<Rightarrow> sql_db \<Rightarrow> (anyhow + (queue_row \<times> email_row) option) \<times> sql_db" where
  "pg_claim_tx locked now =
     in_tx (and_then (stmt ''beginning transaction'' nop) (\<lambda>_.
       and_then (stmt ''finding next queue entry'' (select_next locked now)) (\<lambda>maybe.
         case maybe of
           None \<Rightarrow> and_then (stmt ''rolling back empty dequeue'' nop) (\<lambda>_. done_with None)
         | Some q \<Rightarrow>
             and_then (stmt ''claiming queue entry'' (update_claimed now q)) (\<lambda>_.
             and_then (stmt ''fetching email for dequeue'' (select_email (qr_email q))) (\<lambda>row.
               case row of
                 None \<Rightarrow>
                   and_then (stmt ''deleting orphaned queue entry'' (delete_entry_id (qr_id q))) (\<lambda>_.
                   and_then (stmt ''committing orphan cleanup transaction'' nop) (\<lambda>_. done_with None))
               | Some r \<Rightarrow>
                   and_then (stmt ''committing dequeue transaction'' nop) (\<lambda>_. done_with (Some (q, r))))))))"

text \<open>The row is parsed after the commit: an entry whose email cannot be decoded stays claimed until its timeout.\<close>

definition pg_try_dequeue :: "(string \<Rightarrow> anyhow + url) \<Rightarrow> uuid set \<Rightarrow> int \<Rightarrow> sql_db \<Rightarrow> (email_queue_error + dequeued_email option) \<times> sql_db" where
  "pg_try_dequeue parse_url locked now =
     map_err_st QueueStorage (and_then (pg_claim_tx locked now) (\<lambda>claimed.
       case claimed of
         None \<Rightarrow> done_with None
       | Some (q, r) \<Rightarrow>
           (case parse_envelope parse_url r of
              Inl e \<Rightarrow> fail_with e
            | Inr env \<Rightarrow>
                done_with (Some \<lparr>dq_id = qr_email q, dq_envelope = env, dq_attempt = qr_attempts q + 1,
                  dq_token = AckToken (uuid_bytes (qr_id q)), dq_trace = deserialize_trace_context (qr_trace q)\<rparr>))))"

fun pg_dequeue :: "(string \<Rightarrow> anyhow + url) \<Rightarrow> (uuid set \<times> int \<times> (sql_db \<Rightarrow> sql_db)) list \<Rightarrow> sql_db \<Rightarrow>
    (email_queue_error + dequeued_email) option \<times> sql_db" where
  "pg_dequeue parse_url [] db = (None, db)"
| "pg_dequeue parse_url ((locked, now, others) # polls) db =
     (case pg_try_dequeue parse_url locked now db of
        (Inl e, d) \<Rightarrow> (Some (Err e), d)
      | (Inr (Some item), d) \<Rightarrow> (Some (Ok item), d)
      | (Inr None, d) \<Rightarrow> pg_dequeue parse_url polls (others d))"

definition pg_enqueue :: "int \<Rightarrow> uuid \<Rightarrow> (string \<times> string) list \<Rightarrow> email_id \<Rightarrow> envelope \<Rightarrow> sql_db \<Rightarrow>
    (email_queue_error + unit) \<times> sql_db" where
  "pg_enqueue now entry pairs i env =
     map_err_st QueueStorage
       (and_then (stmt ''inserting into email_queue'' (insert_entry (queue_row_of now entry pairs i))) (\<lambda>_. done_with ()))"

definition pg_ack :: "ack_token \<Rightarrow> sql_db \<Rightarrow> (email_queue_error + unit) \<times> sql_db" where
  "pg_ack tok =
     map_err_st QueueStorage
       (case uuid_from_slice (token_bytes tok) of
          None \<Rightarrow> fail_with ''invalid ack token''
        | Some u \<Rightarrow> and_then (stmt ''deleting from email_queue'' (delete_entry_id u)) (\<lambda>_. done_with ()))"

definition update_claim_id :: "uuid \<Rightarrow> int \<Rightarrow> sql_db \<Rightarrow> (unit \<times> sql_db) option" where
  "update_claim_id u until db =
     Some ((), db\<lparr>db_queue := map (\<lambda>r. if qr_id r = u then r\<lparr>qr_claimed := Some until\<rparr> else r) (db_queue db)\<rparr>)"

definition pg_nack :: "int \<Rightarrow> ack_token \<Rightarrow> nat \<Rightarrow> sql_db \<Rightarrow> (email_queue_error + unit) \<times> sql_db" where
  "pg_nack now tok delay_ms =
     map_err_st QueueStorage
       (case uuid_from_slice (token_bytes tok) of
          None \<Rightarrow> fail_with ''invalid nack token''
        | Some u \<Rightarrow>
            and_then (stmt ''nacking email_queue entry'' (update_claim_id u (nack_until now delay_ms))) (\<lambda>_. done_with ()))"

section \<open>Where the two adapters agree\<close>

lemma stmt_same: "(\<And>t. f (db\<lparr>db_faults := t\<rparr>) = g (db\<lparr>db_faults := t\<rparr>)) \<Longrightarrow> stmt c f db = stmt c g db"
  by (simp add: stmt_def Let_def)

lemma pg_save_fresh:
  assumes i: "i \<notin> set (email_ids db)" and ok: "email_row_text_ok (email_row_of now i env)"
  shows "pg_save now i env db = sqlite_save now i env db"
proof -
  let ?r = "email_row_of now i env"
  have "er_id ?r = i" by (simp add: email_row_of_def)
  with i have "insert_email_on_conflict ?r (db\<lparr>db_faults := f\<rparr>) = insert_or_ignore_email ?r (db\<lparr>db_faults := f\<rparr>)" for f
    by (auto simp: insert_email_on_conflict_def insert_or_ignore_email_def email_conflict_def email_ids_def email_keys_def
        split: option.splits)
  then have "stmt c (insert_email_on_conflict ?r) db = stmt c (insert_or_ignore_email ?r) db" for c by (rule stmt_same)
  with ok show ?thesis by (simp add: pg_save_def sqlite_save_def map_err_st_def and_then_def)
qed

text \<open>Where they differ: SQLite stores an email with a NUL character, PostgreSQL refuses it.\<close>

lemma pg_save_nul:
  assumes "\<not> email_row_text_ok (email_row_of now i env)"
  shows "pg_save now i env db = (Err (RepoStorage ''inserting email''), db\<lparr>db_faults := tl (db_faults db)\<rparr>)"
  using assms by (simp add: pg_save_def map_err_st_def and_then_def pg_params_False)

lemma pg_ilike_plain: "CHR 0x5C \<notin> set p \<Longrightarrow> pg_ilike p s = sql_like p s"
  by (induction p s rule: pg_ilike.induct) auto

lemma pg_list_emails_plain:
  assumes "\<forall>x. le_recipient p = Some x \<longrightarrow> CHR 0x5C \<notin> set x" "opt_filter (le_recipient p) text_ok" "opt_filter (le_template p) text_ok"
  shows "pg_list_emails p db = sqlite_list_emails p db"
proof -
  have "recipient_matches pg_ilike x j = recipient_matches sql_like x j" if "CHR 0x5C \<notin> set x" for x j
    using that by (auto simp: recipient_matches_def pg_ilike_plain split: json.splits option.splits)
  with assms(1) have "email_selected pg_ilike p d r = email_selected sql_like p d r" for d r
    by (auto simp: email_selected_def opt_filter_def split: option.splits)
  then have "email_selected pg_ilike p = email_selected sql_like p" by (intro ext)
  then have "select_emails pg_ilike p = select_emails sql_like p" by (intro ext) (simp add: select_emails_def)
  with assms(2,3) show ?thesis by (simp add: pg_list_emails_def sqlite_list_emails_def)
qed

lemma token_names:
  assumes "queue_inv db" "uuid_from_slice bs = Some u" "r \<in> set (db_queue db)"
  shows "uuid_bytes (qr_id r) = bs \<longleftrightarrow> qr_id r = u"
proof -
  have "uuid_ok (qr_id r)" using assms(1,3) by (simp add: queue_inv_def)
  then show ?thesis using uuid_from_slice_Some [OF assms(2)] assms(2) by (metis uuid_from_slice_bytes option.inject)
qed

lemma pg_ack_token:
  assumes "queue_inv db" "length (token_bytes tok) = 16" shows "pg_ack tok db = sqlite_ack tok db"
proof -
  obtain u where u: "uuid_from_slice (token_bytes tok) = Some u" using assms(2) by (simp add: uuid_from_slice_def)
  note tok = token_names [OF assms(1) u]
  from tok have "delete_entry_id u (db\<lparr>db_faults := f\<rparr>) = delete_entry (token_bytes tok) (db\<lparr>db_faults := f\<rparr>)" for f
    by (simp add: delete_entry_id_def delete_entry_def cong: filter_cong)
  then have "stmt c (delete_entry_id u) db = stmt c (delete_entry (token_bytes tok)) db" for c by (rule stmt_same)
  then show ?thesis by (simp add: pg_ack_def sqlite_ack_def u map_err_st_def and_then_def)
qed

lemma pg_nack_token:
  assumes "queue_inv db" "length (token_bytes tok) = 16" shows "pg_nack now tok delay db = sqlite_nack now tok delay db"
proof -
  obtain u where u: "uuid_from_slice (token_bytes tok) = Some u" using assms(2) by (simp add: uuid_from_slice_def)
  note tok = token_names [OF assms(1) u]
  from tok have "update_claim_id u t (db\<lparr>db_faults := f\<rparr>) = update_claim (token_bytes tok) t (db\<lparr>db_faults := f\<rparr>)" for f t
    by (simp add: update_claim_id_def update_claim_def cong: map_cong)
  then have "stmt c (update_claim_id u t) db = stmt c (update_claim (token_bytes tok) t) db" for c t by (rule stmt_same)
  then show ?thesis by (simp add: pg_nack_def sqlite_nack_def u map_err_st_def and_then_def)
qed

lemma pg_publish_text: "event_row_text_ok (event_row_of now u ev) \<Longrightarrow> pg_publish now u ev db = sqlite_publish now u ev db"
  by (simp add: pg_publish_def sqlite_publish_def)

lemma pg_list_events_text:
  "opt_filter (lv_event_type p) text_ok \<Longrightarrow> opt_filter (lv_sender_name p) text_ok \<Longrightarrow> pg_list_events p db = sqlite_list_events p db"
  by (simp add: pg_list_events_def sqlite_list_events_def)

section \<open>PostgreSQL keeps the queue's promise\<close>

definition unlocked :: "uuid set \<Rightarrow> sql_db \<Rightarrow> queue_row list" where
  "unlocked locked db = filter (\<lambda>r. qr_id r \<notin> locked) (db_queue db)"

text \<open>One transaction: it finds nothing, fails and changes nothing, or claims the oldest due entry that is not locked.\<close>

lemma pg_claim:
  assumes inv: "queue_inv db" and run: "pg_claim_tx locked now db = (x, d)"
  obtains (failed) e where "x = Inl e" "same_tables d db"
    | (idle) "x = Inr None" "same_tables d db" "oldest_claimable now (unlocked locked db) = None"
    | (claimed) q r where "x = Inr (Some (q, r))" "oldest_claimable now (unlocked locked db) = Some q"
        "find_email (qr_email q) db = Some r" "same_tables d (db\<lparr>db_queue := claim_in now q (db_queue db)\<rparr>)"
proof (cases x)
  case (Inl e)
  with in_tx_Inl [OF run [unfolded pg_claim_tx_def Inl]] show thesis by (intro failed) auto
next
  case (Inr m)
  obtain d1 d2 mq where
    1: "stmt ''beginning transaction'' nop db = (Inr (), d1)" and
    2: "stmt ''finding next queue entry'' (select_next locked now) d1 = (Inr mq, d2)"
    using run Inr by (auto simp: pg_claim_tx_def in_tx_Inr and_then_Inr)
  have s1: "same_tables d1 db" by (rule stmt_nop_Inr [OF 1])
  have s2: "same_tables d2 d1" "mq = oldest_claimable now (unlocked locked d1)"
    using stmt_Inr [OF 2] by (auto simp: select_next_def unlocked_def)
  have mq: "mq = oldest_claimable now (unlocked locked db)" using s1 s2(2) by (simp add: unlocked_def same_tables_def)
  have s12: "same_tables d2 db" using s1 s2(1) same_tables_trans by blast
  show thesis
  proof (cases mq)
    case None
    with run Inr 1 2 obtain d3 where 3: "stmt ''rolling back empty dequeue'' nop d2 = (Inr (), d3)" "m = None" "d = d3"
      by (auto simp: pg_claim_tx_def in_tx_Inr and_then_def done_with_def split: prod.splits sum.splits)
    have "same_tables d db" using stmt_nop_Inr [OF 3(1)] 3(3) s12 same_tables_trans by blast
    with idle Inr 3(2) mq None show thesis by simp
  next
    case (Some q)
    with run Inr 1 2 obtain d3 d4 row where
      3: "stmt ''claiming queue entry'' (update_claimed now q) d2 = (Inr (), d3)" and
      4: "stmt ''fetching email for dequeue'' (select_email (qr_email q)) d3 = (Inr row, d4)"
      by (auto simp: pg_claim_tx_def in_tx_Inr and_then_Inr)
    have s3: "same_tables d3 (db\<lparr>db_queue := claim_in now q (db_queue db)\<rparr>)"
      using stmt_Inr [OF 3] s12 by (auto simp: update_claimed_def same_tables_def split: if_splits)
    have s4: "same_tables d4 d3" "row = find_email (qr_email q) d3"
      using stmt_Inr [OF 4] by (auto simp: select_email_def find_email_def)
    have row: "row = find_email (qr_email q) db" using s4(2) s3 by (simp add: same_tables_def find_email_def)
    have "q \<in> set (db_queue db)" using oldest_claimable_Some [of now "unlocked locked db" q] mq Some by (auto simp: unlocked_def)
    then have "qr_email q \<in> set (email_ids db)" using queue_inv_emails [OF inv] by blast
    then obtain r where r: "row = Some r" using row find_email_None [of "qr_email q" db] by (cases row) auto
    with run Inr 1 2 Some 3 4 obtain d5 where
      5: "stmt ''committing dequeue transaction'' nop d4 = (Inr (), d5)" "m = Some (q, r)" "d = d5"
      by (auto simp: pg_claim_tx_def in_tx_Inr and_then_def done_with_def split: prod.splits sum.splits)
    have "same_tables d (db\<lparr>db_queue := claim_in now q (db_queue db)\<rparr>)"
      using stmt_nop_Inr [OF 5(1)] 5(3) s4(1) s3 same_tables_trans by blast
    with claimed Inr 5(2) mq Some row r show thesis by simp
  qed
qed

text \<open>The poll around it.\<close>

lemma pg_poll:
  assumes inv: "queue_inv db" and run: "pg_try_dequeue parse_url locked now db = (x, d)"
  obtains (idle) "x = Inr None" "same_tables d db" "oldest_claimable now (unlocked locked db) = None"
    | (offline) e where "x = Inl e" "same_tables d db"
    | (claimed) q r where "oldest_claimable now (unlocked locked db) = Some q"
        "same_tables d (db\<lparr>db_queue := claim_in now q (db_queue db)\<rparr>)" "find_email (qr_email q) db = Some r"
        "case x of Inl e \<Rightarrow> \<exists>e'. parse_envelope parse_url r = Inl e' | Inr None \<Rightarrow> False
         | Inr (Some it) \<Rightarrow> parse_envelope parse_url r = Inr (dq_envelope it) \<and> dq_token it = row_token q \<and> dq_id it = qr_email q \<and> dq_attempt it = qr_attempts q + 1"
proof -
  obtain y d1 where c: "pg_claim_tx locked now db = (y, d1)" by fastforce
  show thesis
    using inv c
  proof (cases rule: pg_claim)
    case (failed e)
    with c run offline show thesis by (auto simp: pg_try_dequeue_def map_err_st_def and_then_def)
  next
    case idle2: idle
    with c run idle show thesis by (auto simp: pg_try_dequeue_def map_err_st_def and_then_def done_with_def)
  next
    case cl: (claimed q r)
    with c run have "d = d1"
      by (auto simp: pg_try_dequeue_def map_err_st_def and_then_def done_with_def fail_with_def split: sum.splits)
    moreover have "case x of Inl e \<Rightarrow> \<exists>e'. parse_envelope parse_url r = Inl e' | Inr None \<Rightarrow> False
         | Inr (Some it) \<Rightarrow> parse_envelope parse_url r = Inr (dq_envelope it) \<and> dq_token it = row_token q \<and> dq_id it = qr_email q \<and> dq_attempt it = qr_attempts q + 1"
      using c run cl
      by (auto simp: pg_try_dequeue_def map_err_st_def and_then_def done_with_def fail_with_def row_token_def split: sum.splits)
    ultimately show thesis using claimed cl by blast
  qed
qed

lemma unlocked_none [simp]: "unlocked {} db = db_queue db"
  by (simp add: unlocked_def)

lemma unlocked_oldest: "oldest_claimable now (unlocked locked db) = Some q \<Longrightarrow> q \<in> set (db_queue db) \<and> claimable now q \<and> qr_id q \<notin> locked"
  using oldest_claimable_Some [of now "unlocked locked db" q] by (auto simp: unlocked_def)

lemma queue_inv_claimed:
  assumes "queue_inv db" "oldest_claimable now (unlocked locked db) = Some q" "same_tables d (db\<lparr>db_queue := claim_in now q (db_queue db)\<rparr>)"
  shows "queue_inv d"
  using queue_inv_same [OF assms(3)] queue_inv_claim [OF assms(1)] unlocked_oldest [OF assms(2)] by blast

lemma pg_ack_laws:
  assumes "queue_inv db" "pg_ack tok db = (x, d)"
  shows "queue_inv d \<and> db_queue d = (if is_ok x then filter (\<lambda>r. row_token r \<noteq> tok) (db_queue db) else db_queue db)"
proof (cases "length (token_bytes tok) = 16")
  case True
  with assms pg_ack_token have run: "sqlite_ack tok db = (x, d)" by metis
  show ?thesis
  proof (cases x)
    case (Inl e)
    with sqlite_ack_err [OF assms(1)] run show ?thesis by auto
  next
    case (Inr u)
    with sqlite_ack_ok [OF assms(1)] run show ?thesis by auto
  qed
next
  case False
  with assms show ?thesis by (auto simp: pg_ack_def uuid_from_slice_def map_err_st_def fail_with_def)
qed

lemma pg_nack_laws:
  assumes "queue_inv db" "pg_nack now tok delay db = (x, d)"
  shows "queue_inv d \<and> db_queue d = (if is_ok x then
    map (\<lambda>r. if row_token r = tok then r\<lparr>qr_claimed := Some (nack_until now delay)\<rparr> else r) (db_queue db) else db_queue db)"
proof (cases "length (token_bytes tok) = 16")
  case True
  with assms pg_nack_token have run: "sqlite_nack now tok delay db = (x, d)" by metis
  show ?thesis
  proof (cases x)
    case (Inl e)
    with sqlite_nack_err [OF assms(1)] run show ?thesis by auto
  next
    case (Inr u)
    with sqlite_nack_ok [OF assms(1)] run show ?thesis by auto
  qed
next
  case False
  with assms show ?thesis by (auto simp: pg_nack_def uuid_from_slice_def map_err_st_def fail_with_def)
qed

interpretation pg_queue: claim_queue pg_enqueue "pg_try_dequeue parse_url {}" pg_ack pg_nack db_queue queue_inv
  for parse_url
proof (unfold_locales, goal_cases)
  case 1 then show ?case by (rule queue_inv_distinct)
next
  case (2 q e now ps i env ue q')
  then show ?case using sqlite_enqueue_law [of q e now ps i env ue q'] by (simp add: pg_enqueue_def sqlite_enqueue_def)
next
  case (3 db now it d)
  then show ?case
  proof (cases rule: pg_poll)
    case (claimed q r)
    have "queue_inv d" by (rule queue_inv_claimed [OF 3(1) claimed(1,2)])
    with claimed oldest_claimable_Some [of now "db_queue db" q] show ?thesis
      by (intro conjI bexI [of _ q]) (auto simp: same_tables_def)
  qed simp_all
next
  case (4 db now d)
  then show ?case
  proof (cases rule: pg_poll)
    case idle
    then show ?thesis using 4(1) queue_inv_same [OF idle(2)] oldest_claimable_None [of now "db_queue db"]
      by (simp add: same_tables_def)
  qed simp_all
next
  case (5 db now e d)
  then show ?case
  proof (cases rule: pg_poll)
    case (offline e')
    then show ?thesis using 5(1) queue_inv_same [OF offline(2)] by (simp add: same_tables_def claimed_or_same_def)
  next
    case (claimed q r)
    have "queue_inv d" by (rule queue_inv_claimed [OF 5(1) claimed(1,2)])
    with claimed oldest_claimable_Some [of now "db_queue db" q] show ?thesis by (auto simp: same_tables_def claimed_or_same_def)
  qed simp_all
next
  case (6 q tok u q')
  then show ?case using pg_ack_laws by fastforce
next
  case (7 q tok e q')
  then show ?case using pg_ack_laws by fastforce
next
  case (8 q now tok d u q')
  then show ?case using pg_nack_laws by fastforce
next
  case (9 q now tok d e q')
  then show ?case using pg_nack_laws by fastforce
qed

interpretation pg_usage: sender_usage pg_get_stats
  by unfold_locales
    (auto simp: pg_get_stats_def st_results take_stats_names split: if_splits)

section \<open>What the usage query counts\<close>

lemma pg_stats_zero:
  assumes "\<forall>v\<in>set (db_events db). \<exists>ev. vr_type v = event_type ev" "pg_get_stats names since db = (Inr stats, d)"
  shows "stats = map (\<lambda>n. \<lparr>ss_name = n, ss_sent_in_range = 0, ss_failed_in_range = 0\<rparr>) names \<and> same_tables d db"
proof -
  have t: "event_type ev \<noteq> ''sent''" "event_type ev \<noteq> ''failed''" for ev by (cases ev; simp)+
  have "vr_type v \<noteq> ''sent''" "vr_type v \<noteq> ''failed''" if "v \<in> set (db_events db)" for v
    using assms(1) t that by metis+
  then have "count_events ''sent'' n since (db\<lparr>db_faults := f\<rparr>) = 0" "count_events ''failed'' n since (db\<lparr>db_faults := f\<rparr>) = 0" for n f
    by (auto simp: count_events_def filter_empty_conv)
  then have rows: "stats_rows ''sent'' ''failed'' ns since (db\<lparr>db_faults := f\<rparr>) = Map.empty" for ns f
    by (simp add: stats_rows_def fun_eq_iff)
  have "take_stats Map.empty ns = map (\<lambda>n. \<lparr>ss_name = n, ss_sent_in_range = 0, ss_failed_in_range = 0\<rparr>) ns" for ns
    by (induction ns) simp_all
  with assms(2) rows show ?thesis
    by (auto simp: pg_get_stats_def st_results pg_params_def dest!: stmt_Inr split: if_splits)
qed

lemma pg_stats_error: "pg_get_stats names since db = (Inl e, d) \<Longrightarrow> same_tables d db"
  by (auto simp: pg_get_stats_def st_results dest!: stmt_Inl split: if_splits)

definition all_zero :: "(sender_name \<rightharpoonup> nat) \<Rightarrow> bool" where
  "all_zero m \<longleftrightarrow> ran m \<subseteq> {0}"

lemma all_zero_insert: "all_zero m \<Longrightarrow> \<forall>s\<in>set ss. ss_sent_in_range s = 0 \<Longrightarrow> all_zero (insert_stats ss m)"
proof (induction ss arbitrary: m)
  case (Cons s ss)
  then have "all_zero (m(ss_name s \<mapsto> ss_sent_in_range s))" by (auto simp: all_zero_def ran_def split: if_splits)
  with Cons show ?case by simp
qed simp

lemma pg_usage_zero:
  "\<forall>v\<in>set (db_events db). \<exists>ev. vr_type v = event_type ev \<Longrightarrow> all_zero m \<Longrightarrow>
     all_zero (fst (load_usage pg_get_stats groups m db))"
proof (induction groups arbitrary: m db)
  case (Cons g gs)
  obtain since names where g: "g = (since, names)" by fastforce
  obtain x d where x: "pg_get_stats names since db = (x, d)" by fastforce
  show ?case
  proof (cases x)
    case (Inl e)
    then have "db_events d = db_events db" using pg_stats_error x by (simp add: same_tables_def)
    with Cons.IH [of d m] Cons.prems show ?thesis by (simp add: g x Inl)
  next
    case (Inr stats)
    note z = pg_stats_zero [OF Cons.prems(1) x [unfolded Inr]]
    have "all_zero (insert_stats stats m)" by (rule all_zero_insert [OF Cons.prems(2)]) (simp add: z)
    moreover have "db_events d = db_events db" using z by (simp add: same_tables_def)
    ultimately show ?thesis using Cons.IH [of d "insert_stats stats m"] Cons.prems(1) by (simp add: g x Inr)
  qed
qed simp

section \<open>Properties\<close>

text \<open>C23: What one poll of the queue does on PostgreSQL, whichever of its statements fail.  It leaves emails, events and the
  entries locked by other transactions as they are.  It hands out the oldest due entry that nobody has locked, with its email
  as stored and one more attempt, and that entry alone changes: it is claimed for five minutes.  It finds nothing only when no
  unlocked entry is due, and then changes nothing.  When it fails it has changed nothing, or it has claimed the oldest due
  entry, whose email cannot be read back, and which stays claimed for the five minutes.\<close>

theorem pg_dequeue_exact:
  assumes "queue_inv db" "pg_try_dequeue parse_url locked now db = (x, d)"
  shows "db_emails d = db_emails db \<and> db_events d = db_events db \<and>
    filter (\<lambda>r. qr_id r \<in> locked) (db_queue d) = filter (\<lambda>r. qr_id r \<in> locked) (db_queue db) \<and>
    (db_queue d = db_queue db \<and> (\<forall>it. x \<noteq> Inr (Some it)) \<and>
       (x = Inr None \<longrightarrow> (\<forall>r\<in>set (db_queue db). claimable now r \<longrightarrow> qr_id r \<in> locked)) \<or>
     (\<exists>q\<in>set (db_queue db). \<exists>r. qr_id q \<notin> locked \<and> claimable now q \<and>
       (\<forall>r\<in>set (db_queue db). qr_id r \<notin> locked \<and> claimable now r \<longrightarrow> qr_enqueued q \<le> qr_enqueued r) \<and>
       db_queue d = map (\<lambda>r. if qr_id r = qr_id q then r\<lparr>qr_attempts := qr_attempts r + 1, qr_claimed := Some (now + 300000)\<rparr> else r)
         (db_queue db) \<and>
       find_email (qr_email q) db = Some r \<and>
       (case x of
          Inl e \<Rightarrow> \<exists>e'. parse_envelope parse_url r = Inl e'
        | Inr None \<Rightarrow> False
        | Inr (Some it) \<Rightarrow> parse_envelope parse_url r = Inr (dq_envelope it) \<and> dq_token it = AckToken (uuid_bytes (qr_id q)) \<and>
            dq_id it = qr_email q \<and> dq_attempt it = qr_attempts q + 1)))"
  using assms
proof (cases rule: pg_poll)
  case idle
  then show ?thesis using oldest_claimable_None [of now "unlocked locked db"] by (auto simp: same_tables_def unlocked_def)
next
  case (offline e)
  then show ?thesis by (simp add: same_tables_def)
next
  case (claimed q r)
  note q = unlocked_oldest [OF claimed(1)]
  have "filter (\<lambda>r. qr_id r \<in> locked) (claim_in now q qs) = filter (\<lambda>r. qr_id r \<in> locked) qs" for qs
    using q by (induction qs) (auto simp: claim_in_def claimed_row_def)
  then have "filter (\<lambda>r. qr_id r \<in> locked) (db_queue d) = filter (\<lambda>r. qr_id r \<in> locked) (db_queue db)"
    using claimed(2) by (simp add: same_tables_def)
  moreover have "\<forall>r\<in>set (db_queue db). qr_id r \<notin> locked \<and> claimable now r \<longrightarrow> qr_enqueued q \<le> qr_enqueued r"
    using oldest_claimable_Some [OF claimed(1)] by (auto simp: unlocked_def)
  moreover have "claim_in now q (db_queue db) =
      map (\<lambda>r. if qr_id r = qr_id q then r\<lparr>qr_attempts := qr_attempts r + 1, qr_claimed := Some (now + 300000)\<rparr> else r) (db_queue db)"
    by (simp add: claim_in_def claimed_row_def processing_timeout_ms_def)
  ultimately show ?thesis using claimed(2,3,4) q unfolding same_tables_def row_token_def
    by (intro conjI disjI2 bexI [of _ q] exI [of _ r]) simp_all
qed

text \<open>The one due entry is locked by another worker.\<close>

theorem pg_dequeue_exact_witness:
  "db_queue (snd (pg_try_dequeue (\<lambda>s. Inl ''no url'') {9} 10 one_job_db)) = db_queue one_job_db"
proof -
  obtain x d where run: "pg_try_dequeue (\<lambda>s. Inl ''no url'') {9} 10 one_job_db = (x, d)" by fastforce
  have "qr_id q \<in> {9}" if "q \<in> set (db_queue one_job_db)" for q
    using that by (simp add: one_job_db_def queue_row_of_def)
  with pg_dequeue_exact [OF one_job_db run] run show ?thesis by fastforce
qed



end
