(* ===== verification/MemoryQueue.thy ===== *)
theory MemoryQueue
  imports Ports
begin

text \<open>
  The in-memory queue (\<open>adapter/outbound-queue-memory/src/lib.rs\<close>): an unbounded channel, the map of
  items in flight under \<open>u64\<close> tokens, and the counter \<open>ready_count\<close>, with both counters 64-bit words that
  wrap.  A \<open>nack\<close> spawns a timer; \<open>mem_timer\<close> is the moment one of them fires.  A closed channel (its receiver
  dropped) is \<open>mq_open = False\<close>.

  First the operations, each as one step, and the accounting of emails across any run of them; then the
  four atomic actions of concurrent callers, and why the counter never underflows.
\<close>

section \<open>State and operations\<close>

record queue_item =
  qi_id :: email_id
  qi_envelope :: envelope
  qi_attempt :: nat
  qi_trace :: trace_carrier

record mem_queue =
  mq_channel :: "queue_item list"
  mq_open :: bool
  mq_pending :: "64 word \<rightharpoonup> queue_item"
  mq_next :: "64 word"
  mq_ready :: "64 word"
  mq_timers :: "(nat \<times> queue_item) list"

definition mem_new :: mem_queue where
  "mem_new = \<lparr>mq_channel = [], mq_open = True, mq_pending = Map.empty, mq_next = 0, mq_ready = 0, mq_timers = []\<rparr>"

definition mem_pending :: "mem_queue \<Rightarrow> 64 word" where
  "mem_pending q = mq_ready q"

text \<open>\<open>fetch_add\<close> before the send, rolled back when the send fails.\<close>

definition mem_send :: "queue_item \<Rightarrow> mem_queue \<Rightarrow> bool \<times> mem_queue" where
  "mem_send x q =
     (let q1 = q\<lparr>mq_ready := mq_ready q + 1\<rparr> in
      if mq_open q1 then (True, q1\<lparr>mq_channel := mq_channel q1 @ [x]\<rparr>)
      else (False, q1\<lparr>mq_ready := mq_ready q1 - 1\<rparr>))"

definition mem_enqueue :: "(string \<times> string) list \<Rightarrow> email_id \<Rightarrow> envelope \<Rightarrow> mem_queue \<Rightarrow> (email_queue_error + unit) \<times> mem_queue" where
  "mem_enqueue pairs i env q =
     (case mem_send \<lparr>qi_id = i, qi_envelope = env, qi_attempt = 1, qi_trace = trace_carrier_new pairs\<rparr> q of
        (True, q') \<Rightarrow> (Ok (), q')
      | (False, q') \<Rightarrow> (Err (QueueStorage ''memory queue channel closed''), q'))"

text \<open>\<open>None\<close>: the call waits on the empty channel.\<close>

definition mem_dequeue :: "mem_queue \<Rightarrow> (email_queue_error + dequeued_email) option \<times> mem_queue" where
  "mem_dequeue q =
     (case mq_channel q of
        [] \<Rightarrow> if mq_open q then (None, q) else (Some (Err (QueueStorage ''memory queue channel closed'')), q)
      | x # xs \<Rightarrow>
          (let q1 = q\<lparr>mq_channel := xs, mq_ready := mq_ready q - 1\<rparr>;
               t = mq_next q1;
               q2 = q1\<lparr>mq_next := t + 1, mq_pending := (mq_pending q1)(t \<mapsto> x)\<rparr>
           in (Some (Ok \<lparr>dq_id = qi_id x, dq_envelope = qi_envelope x, dq_attempt = qi_attempt x,
                dq_token = AckToken (le_bytes 8 (unat t)), dq_trace = qi_trace x\<rparr>), q2)))"

definition token_id :: "string \<Rightarrow> ack_token \<Rightarrow> email_queue_error + 64 word" where
  "token_id what tok =
     (if length (token_bytes tok) = 8 then Ok (word_of_nat (le_value (token_bytes tok)))
      else Err (QueueStorage (''invalid '' @ what @ '' token length'')))"

definition mem_ack :: "ack_token \<Rightarrow> mem_queue \<Rightarrow> (email_queue_error + unit) \<times> mem_queue" where
  "mem_ack tok q =
     (case token_id ''ack'' tok of
        Inl e \<Rightarrow> (Err e, q)
      | Inr t \<Rightarrow> (Ok (), q\<lparr>mq_pending := (mq_pending q)(t := None)\<rparr>))"

definition mem_nack :: "ack_token \<Rightarrow> nat \<Rightarrow> mem_queue \<Rightarrow> (email_queue_error + unit) \<times> mem_queue" where
  "mem_nack tok delay_ms q =
     (case token_id ''nack'' tok of
        Inl e \<Rightarrow> (Err e, q)
      | Inr t \<Rightarrow>
          (let entry = mq_pending q t; q1 = q\<lparr>mq_pending := (mq_pending q)(t := None)\<rparr> in
           case entry of
             None \<Rightarrow> (Ok (), q1)
           | Some x \<Rightarrow> (Ok (), q1\<lparr>mq_timers := mq_timers q1 @ [(delay_ms, x)]\<rparr>)))"

text \<open>The \<open>n\<close>-th timer fires.\<close>

definition mem_timer :: "nat \<Rightarrow> mem_queue \<Rightarrow> mem_queue" where
  "mem_timer n q =
     (if n < length (mq_timers q) then
        (let x = snd (mq_timers q ! n);
             q1 = q\<lparr>mq_timers := take n (mq_timers q) @ drop (Suc n) (mq_timers q)\<rparr>
         in snd (mem_send (x\<lparr>qi_attempt := qi_attempt x + 1\<rparr>) q1))
      else q)"

lemma token_roundtrip: "token_id what (AckToken (le_bytes 8 (unat t))) = Inr t"
proof -
  have "unat t < 2 ^ LENGTH(64)" by (rule unsigned_less)
  then have "unat t < 256 ^ 8" by simp
  then show ?thesis by (simp add: token_id_def le_value_bytes)
qed

section \<open>Accounting\<close>

text \<open>The ids of the emails the queue holds: waiting, in flight and behind a timer.\<close>

definition pending_ids :: "mem_queue \<Rightarrow> email_id multiset" where
  "pending_ids q = image_mset (\<lambda>t. qi_id (the (mq_pending q t))) (mset_set (dom (mq_pending q)))"

definition mem_contents :: "mem_queue \<Rightarrow> email_id multiset" where
  "mem_contents q = mset (map qi_id (mq_channel q)) + pending_ids q + mset (map (qi_id \<circ> snd) (mq_timers q))"

datatype mem_call =
    MEnqueue "(string \<times> string) list" email_id envelope
  | MDequeue
  | MAck ack_token
  | MNack ack_token nat
  | MTimer nat

text \<open>One call, with the ids it brings in and the ids it settles.\<close>

fun mem_call_step :: "mem_call \<Rightarrow> mem_queue \<Rightarrow> email_id multiset \<times> email_id multiset \<times> mem_queue" where
  "mem_call_step (MEnqueue ps i env) q =
     (case mem_enqueue ps i env q of (Inr _, q') \<Rightarrow> ({#i#}, {#}, q') | (Inl _, q') \<Rightarrow> ({#}, {#}, q'))"
| "mem_call_step MDequeue q = ({#}, {#}, snd (mem_dequeue q))"
| "mem_call_step (MAck tok) q =
     ({#}, (case token_id ''ack'' tok of
        Inr t \<Rightarrow> (case mq_pending q t of Some x \<Rightarrow> {#qi_id x#} | None \<Rightarrow> {#}) | Inl _ \<Rightarrow> {#}), snd (mem_ack tok q))"
| "mem_call_step (MNack tok d) q = ({#}, {#}, snd (mem_nack tok d q))"
| "mem_call_step (MTimer n) q = ({#}, {#}, mem_timer n q)"

fun mem_run :: "mem_call list \<Rightarrow> mem_queue \<Rightarrow> email_id multiset \<times> email_id multiset \<times> mem_queue" where
  "mem_run [] q = ({#}, {#}, q)"
| "mem_run (c # cs) q =
     (let (a, s, q1) = mem_call_step c q; (a', s', q2) = mem_run cs q1 in (a + a', s + s', q2))"

text \<open>Tokens handed out so far, \<open>n\<close> of them, have not wrapped.\<close>

definition mem_inv :: "nat \<Rightarrow> mem_queue \<Rightarrow> bool" where
  "mem_inv n q \<longleftrightarrow> n < 2 ^ 64 \<and> mq_open q \<and> mq_next q = word_of_nat n \<and>
     dom (mq_pending q) \<subseteq> word_of_nat ` {..<n} \<and> mq_ready q = word_of_nat (length (mq_channel q))"

lemma mem_inv_finite: "mem_inv n q \<Longrightarrow> finite (dom (mq_pending q))"
  unfolding mem_inv_def by (meson finite_imageI finite_lessThan finite_subset)

lemma mem_inv_next: "mem_inv n q \<Longrightarrow> mq_pending q (mq_next q) = None"
proof -
  assume inv: "mem_inv n q"
  have "word_of_nat n \<noteq> (word_of_nat m :: 64 word)" if "m < n" for m
  proof
    assume eq: "word_of_nat n = (word_of_nat m :: 64 word)"
    have "n < 2 ^ 64" using inv by (simp add: mem_inv_def)
    then have "unat (word_of_nat n :: 64 word) = n" "unat (word_of_nat m :: 64 word) = m"
      using that by (simp_all add: unsigned_of_nat take_bit_nat_eq_self)
    with eq that show False by simp
  qed
  then show ?thesis using inv unfolding mem_inv_def by force
qed

lemma pending_ids_upd:
  assumes "finite (dom (mq_pending q))" "mq_pending q t = None"
  shows "pending_ids (q\<lparr>mq_pending := (mq_pending q)(t \<mapsto> x)\<rparr>) = add_mset (qi_id x) (pending_ids q)"
proof -
  have "t \<notin> dom (mq_pending q)" using assms(2) by auto
  let ?m = "(mq_pending q)(t \<mapsto> x)"
  have "image_mset (\<lambda>s. qi_id (the (?m s))) (mset_set (dom (mq_pending q))) = pending_ids q"
    unfolding pending_ids_def using \<open>t \<notin> dom (mq_pending q)\<close> assms(1) by (intro image_mset_cong) auto
  moreover have "mset_set (dom ?m) = add_mset t (mset_set (dom (mq_pending q)))"
    using \<open>t \<notin> dom (mq_pending q)\<close> assms(1) by simp
  ultimately show ?thesis by (simp add: pending_ids_def)
qed

lemma pending_ids_del:
  assumes "finite (dom (mq_pending q))"
  shows "pending_ids q = pending_ids (q\<lparr>mq_pending := (mq_pending q)(t := None)\<rparr>) +
    (case mq_pending q t of None \<Rightarrow> {#} | Some x \<Rightarrow> {#qi_id x#})"
proof (cases "mq_pending q t")
  case None
  then have "(mq_pending q)(t := None) = mq_pending q" by auto
  with None show ?thesis by (simp add: pending_ids_def)
next
  case (Some x)
  let ?q = "q\<lparr>mq_pending := (mq_pending q)(t := None)\<rparr>"
  have "q = ?q\<lparr>mq_pending := (mq_pending ?q)(t \<mapsto> x)\<rparr>" using Some by (simp add: fun_upd_idem)
  then have "pending_ids q = pending_ids (?q\<lparr>mq_pending := (mq_pending ?q)(t \<mapsto> x)\<rparr>)" by simp
  also have "\<dots> = add_mset (qi_id x) (pending_ids ?q)" using assms by (intro pending_ids_upd) auto
  finally show ?thesis using Some by simp
qed

lemma pending_ids_other [simp]:
  "pending_ids (q\<lparr>mq_channel := c\<rparr>) = pending_ids q" "pending_ids (q\<lparr>mq_ready := r\<rparr>) = pending_ids q"
  "pending_ids (q\<lparr>mq_timers := ts\<rparr>) = pending_ids q" "pending_ids (q\<lparr>mq_next := m\<rparr>) = pending_ids q"
  by (simp_all add: pending_ids_def)

lemma mem_send_open:
  assumes "mem_inv n q"
  shows "mem_send x q = (True, q\<lparr>mq_ready := mq_ready q + 1, mq_channel := mq_channel q @ [x]\<rparr>)"
    and "mem_inv n (snd (mem_send x q))"
    and "mem_contents (snd (mem_send x q)) = add_mset (qi_id x) (mem_contents q)"
  using assms by (simp_all add: mem_send_def mem_inv_def mem_contents_def)

lemma mem_step_account:
  assumes "mem_inv n q" "Suc n < 2 ^ 64" "mem_call_step c q = (a, s, q')"
  shows "mem_contents q + a = mem_contents q' + s \<and> (mem_inv n q' \<or> c = MDequeue \<and> mem_inv (Suc n) q')"
proof (cases c)
  case (MEnqueue ps i env)
  with assms(3) mem_send_open [OF assms(1)] show ?thesis by (auto simp: mem_enqueue_def)
next
  case MDequeue
  show ?thesis
  proof (cases "mq_channel q")
    case Nil
    with assms MDequeue show ?thesis by (auto simp: mem_dequeue_def split: if_splits)
  next
    case (Cons x xs)
    let ?q1 = "q\<lparr>mq_channel := xs, mq_ready := mq_ready q - 1\<rparr>"
    have q': "q' = ?q1\<lparr>mq_next := mq_next q + 1, mq_pending := (mq_pending q)(mq_next q \<mapsto> x)\<rparr>" "a = {#}" "s = {#}"
      using assms(3) MDequeue Cons by (simp_all add: mem_dequeue_def Let_def)
    have "pending_ids q' = add_mset (qi_id x) (pending_ids q)"
      using pending_ids_upd [of q "mq_next q" x] mem_inv_next [OF assms(1)] mem_inv_finite [OF assms(1)] q'(1)
      by (simp add: pending_ids_def)
    then have "mem_contents q + a = mem_contents q' + s"
      using Cons q' by (simp add: mem_contents_def)
    moreover have "mem_inv (Suc n) q'"
      using assms(1,2) q'(1) Cons by (auto simp: mem_inv_def lessThan_Suc)
    ultimately show ?thesis using MDequeue by simp
  qed
next
  case (MAck tok)
  show ?thesis
  proof (cases "token_id ''ack'' tok")
    case (Inl e)
    with assms(1,3) MAck show ?thesis by (auto simp: mem_ack_def)
  next
    case (Inr t)
    have q': "q' = q\<lparr>mq_pending := (mq_pending q)(t := None)\<rparr>" "a = {#}"
      "s = (case mq_pending q t of Some x \<Rightarrow> {#qi_id x#} | None \<Rightarrow> {#})"
      using assms(3) MAck Inr by (simp_all add: mem_ack_def)
    then have "mem_contents q + a = mem_contents q' + s"
      using pending_ids_del [OF mem_inv_finite [OF assms(1)], of t] by (simp add: mem_contents_def split: option.splits)
    moreover have "mem_inv n q'" using assms(1) q'(1) by (auto simp: mem_inv_def)
    ultimately show ?thesis by simp
  qed
next
  case (MNack tok d)
  show ?thesis
  proof (cases "token_id ''nack'' tok")
    case (Inl e)
    with assms(1,3) MNack show ?thesis by (auto simp: mem_nack_def)
  next
    case (Inr t)
    have q': "q' = (q\<lparr>mq_pending := (mq_pending q)(t := None)\<rparr>)\<lparr>mq_timers := mq_timers q @
        (case mq_pending q t of None \<Rightarrow> [] | Some x \<Rightarrow> [(d, x)])\<rparr>" "a = {#}" "s = {#}"
      using assms(3) MNack Inr by (simp_all add: mem_nack_def Let_def split: option.splits)
    then have "mem_contents q + a = mem_contents q' + s"
      using pending_ids_del [OF mem_inv_finite [OF assms(1)], of t] by (simp add: mem_contents_def split: option.splits)
    moreover have "mem_inv n q'" using assms(1) q'(1) by (auto simp: mem_inv_def)
    ultimately show ?thesis by simp
  qed
next
  case (MTimer k)
  show ?thesis
  proof (cases "k < length (mq_timers q)")
    case False
    with assms(1,3) MTimer show ?thesis by (auto simp: mem_timer_def)
  next
    case True
    let ?x = "snd (mq_timers q ! k)"
    let ?q1 = "q\<lparr>mq_timers := take k (mq_timers q) @ drop (Suc k) (mq_timers q)\<rparr>"
    let ?y = "?x\<lparr>qi_attempt := qi_attempt ?x + 1\<rparr>"
    have inv1: "mem_inv n ?q1" using assms(1) by (simp add: mem_inv_def)
    have q': "q' = snd (mem_send ?y ?q1)" "a = {#}" "s = {#}"
      using assms(3) MTimer True by (simp_all add: mem_timer_def Let_def)
    have "mq_timers q = take k (mq_timers q) @ mq_timers q ! k # drop (Suc k) (mq_timers q)"
      using True by (rule id_take_nth_drop)
    then have "mset (map (qi_id \<circ> snd) (mq_timers q)) =
        mset (map (qi_id \<circ> snd) (take k (mq_timers q) @ mq_timers q ! k # drop (Suc k) (mq_timers q)))" by simp
    then have "mem_contents q = add_mset (qi_id ?x) (mem_contents ?q1)" by (simp add: mem_contents_def)
    moreover have "mem_contents q' = add_mset (qi_id ?x) (mem_contents ?q1)"
      using mem_send_open(3) [OF inv1, of ?y] q'(1) by simp
    ultimately show ?thesis using q' mem_send_open(2) [OF inv1, of ?y] by simp
  qed
qed

lemma mem_run_account:
  "mem_inv n q \<Longrightarrow> n + length cs < 2 ^ 64 \<Longrightarrow> mem_run cs q = (a, s, q') \<Longrightarrow>
     mem_contents q + a = mem_contents q' + s \<and> (\<exists>m. mem_inv m q')"
proof (induction cs arbitrary: n q a s)
  case Nil
  then show ?case by auto
next
  case (Cons c cs)
  obtain a1 s1 q1 where c: "mem_call_step c q = (a1, s1, q1)" by (metis prod_cases3)
  obtain a2 s2 where cs: "mem_run cs q1 = (a2, s2, q')" "a = a1 + a2" "s = s1 + s2"
    using Cons.prems(3) c by (auto split: prod.splits)
  have "Suc n < 2 ^ 64" using Cons.prems(2) by simp
  note st = mem_step_account [OF Cons.prems(1) this c]
  then obtain m where m: "mem_inv m q1" "m + length cs < 2 ^ 64"
    using Cons.prems(2) by (metis add_Suc_right length_Cons add_Suc less_Suc_eq not_less_eq)
  from Cons.IH [OF m cs(1)] st cs(2,3) show ?case
    by (metis (no_types, lifting) add.assoc add.commute)
qed

section \<open>The counter under concurrency\<close>

text \<open>Callers of \<open>enqueue\<close> increment, then send; callers of \<open>dequeue\<close> receive, then decrement.  The state counts the
  callers between their two actions.\<close>

record ready_state =
  rs_ready :: int
  rs_channel :: nat
  rs_sending :: nat
  rs_received :: nat

inductive ready_step :: "ready_state \<Rightarrow> ready_state \<Rightarrow> bool" where
  increment: "ready_step s (s\<lparr>rs_ready := rs_ready s + 1, rs_sending := rs_sending s + 1\<rparr>)"
| send: "0 < rs_sending s \<Longrightarrow> ready_step s (s\<lparr>rs_sending := rs_sending s - 1, rs_channel := rs_channel s + 1\<rparr>)"
| roll_back: "0 < rs_sending s \<Longrightarrow> ready_step s (s\<lparr>rs_sending := rs_sending s - 1, rs_ready := rs_ready s - 1\<rparr>)"
| receive: "0 < rs_channel s \<Longrightarrow> ready_step s (s\<lparr>rs_channel := rs_channel s - 1, rs_received := rs_received s + 1\<rparr>)"
| decrement: "0 < rs_received s \<Longrightarrow> ready_step s (s\<lparr>rs_received := rs_received s - 1, rs_ready := rs_ready s - 1\<rparr>)"

inductive_cases ready_stepE: "ready_step s s'"

definition ready_start :: ready_state where
  "ready_start = \<lparr>rs_ready = 0, rs_channel = 0, rs_sending = 0, rs_received = 0\<rparr>"

section \<open>Properties\<close>

text \<open>C20: The memory queue neither loses nor duplicates an email: over any run of calls (fewer than \<open>2^64\<close>, so that
  tokens do not wrap), what was accepted is what is still held, waiting, in flight or behind a timer, plus what was
  acknowledged; and \<open>pending\<close> reports the number of waiting items.\<close>

theorem memory_queue_conserves:
  assumes "length calls < 2 ^ 64" "mem_run calls mem_new = (accepted, acked, q)"
  shows "accepted = mem_contents q + acked \<and> mem_pending q = word_of_nat (length (mq_channel q))"
proof -
  have new: "mem_inv 0 mem_new" "mem_contents mem_new = {#}"
    by (simp_all add: mem_inv_def mem_new_def mem_contents_def pending_ids_def)
  from mem_run_account [OF new(1) _ assms(2)] assms(1) new(2) show ?thesis
    by (auto simp: mem_inv_def mem_pending_def)
qed

text \<open>Two emails: the first is acknowledged, the second is rescheduled and waits again after its timer.\<close>

definition queued_mail :: envelope where
  "queued_mail =
     \<lparr>env_idempotency_key = None, env_correlation_id = None, env_subject = None, env_sender = ''a@x.org'',
      env_recipients = [(To, ''b@x.org'')], env_body = BodyMjml (MjmlNamed ''welcome''), env_variables = [], env_attachments = []\<rparr>"

definition two_emails :: "mem_call list" where
  "two_emails =
     [MEnqueue [] (EmailId 1) queued_mail, MEnqueue [] (EmailId 2) queued_mail, MDequeue, MAck (AckToken (le_bytes 8 (unat (0 :: 64 word)))),
      MDequeue, MNack (AckToken (le_bytes 8 (unat (1 :: 64 word)))) 5, MTimer 0]"

theorem memory_queue_conserves_witness:
  "\<exists>q. mem_run two_emails mem_new = ({#EmailId 1, EmailId 2#}, {#EmailId 1#}, q) \<and>
     {#EmailId 1, EmailId 2#} = mem_contents q + {#EmailId 1#} \<and> mem_pending q = 1"
proof -
  obtain q where run: "mem_run two_emails mem_new = ({#EmailId 1, EmailId 2#}, {#EmailId 1#}, q)" and one: "length (mq_channel q) = 1"
    by (simp add: two_emails_def mem_new_def mem_enqueue_def mem_send_def mem_dequeue_def mem_ack_def mem_nack_def mem_timer_def
        token_roundtrip del: unsigned_0 unsigned_1)
  from memory_queue_conserves [OF _ run] run one show ?thesis by (simp add: two_emails_def)
qed

text \<open>Incrementing before the send and decrementing after the receive is enough: however callers interleave, the
  counter is never below the number of waiting items, never negative, and exact when no call is under way.\<close>

theorem ready_count_never_underflows:
  assumes "ready_step\<^sup>*\<^sup>* ready_start s"
  shows "rs_ready s = int (rs_channel s + rs_sending s + rs_received s) \<and> int (rs_channel s) \<le> rs_ready s \<and>
    (\<forall>s'. ready_step s s' \<longrightarrow> 0 \<le> rs_ready s')"
proof -
  have inv: "rs_ready t = int (rs_channel t + rs_sending t + rs_received t)" if "ready_step\<^sup>*\<^sup>* ready_start t" for t
    using that by (induction rule: rtranclp_induct) (auto simp: ready_start_def elim!: ready_stepE)
  have "0 \<le> rs_ready s'" if "ready_step s s'" for s'
    using inv [of s'] assms that by (simp add: rtranclp.rtrancl_into_rtrancl)
  with inv [OF assms] show ?thesis by simp
qed

theorem ready_count_never_underflows_witness:
  "rs_ready (ready_start\<lparr>rs_ready := 1, rs_sending := 1\<rparr>) = 1 \<and> ready_step\<^sup>*\<^sup>* ready_start (ready_start\<lparr>rs_ready := 1, rs_sending := 1\<rparr>)"
proof -
  have "ready_step\<^sup>*\<^sup>* ready_start (ready_start\<lparr>rs_ready := 1, rs_sending := 1\<rparr>)"
    using ready_step.increment [of ready_start] by (intro r_into_rtranclp) (simp add: ready_start_def)
  from ready_count_never_underflows [OF this] this show ?thesis by (simp add: ready_start_def)
qed

end
