(* ===== verification/FsStore.thy ===== *)
theory FsStore
  imports Ports "HOL-Library.AList"
begin

text \<open>
  The filesystem attachment store (\<open>adapter/outbound-attachment-fs/src/store.rs\<close>) and the contract of
  every attachment store, the locale \<open>blob_store\<close>.

  The file system is the root directory and its \<open>.tmp\<close> directory, as lists of named entries, and a list
  of outcomes of system calls: each call that can fail takes the next one, and every theorem
  holds for all such lists.  Modification times are milliseconds, \<open>None\<close> when the metadata cannot be read.  A file
  larger than an \<open>off_t\<close> cannot be written.  Names come from \<open>Uuid::now_v7().simple()\<close>; the clock
  and the generated ids belong to \<open>fs_world\<close>.
\<close>

section \<open>The file system\<close>

datatype fs_entry = FileEntry "byte list" "int option" | DirEntry

record fs_state =
  fs_root :: "(string \<times> fs_entry) list"
  fs_tmp :: "(string \<times> fs_entry) list"
  fs_faults :: "bool list"

definition io :: "anyhow \<Rightarrow> (fs_state \<Rightarrow> (unit + 'a) \<times> fs_state) \<Rightarrow> fs_state \<Rightarrow> (anyhow + 'a) \<times> fs_state" where
  "io ctx f s =
     (let d = s\<lparr>fs_faults := tl (fs_faults s)\<rparr> in
      if fs_faults s \<noteq> [] \<and> hd (fs_faults s) then (Err ctx, d)
      else case f d of (Inl _, d') \<Rightarrow> (Err ctx, d') | (Inr a, d') \<Rightarrow> (Ok a, d'))"

definition quiet :: "fs_state \<Rightarrow> (unit + unit) \<times> fs_state" where
  "quiet d = (Inr (), d)"

definition is_dangerous_key :: "string \<Rightarrow> bool" where
  "is_dangerous_key key \<longleftrightarrow>
     strip_prefix ''.'' key \<noteq> None \<or> CHR ''/'' \<in> set key \<or> CHR 0x5C \<in> set key"

definition max_file_size :: nat where
  "max_file_size = 9223372036854775807"

definition create_tmp :: "string \<Rightarrow> int \<Rightarrow> fs_state \<Rightarrow> (unit + unit) \<times> fs_state" where
  "create_tmp tmp now d = (Inr (), d\<lparr>fs_tmp := AList.update tmp (FileEntry [] (Some now)) (fs_tmp d)\<rparr>)"

text \<open>\<open>tokio::io::copy\<close>: what could be read was written, also when the reader then fails.\<close>

definition copy_to_tmp :: "string \<Rightarrow> reader \<Rightarrow> int \<Rightarrow> fs_state \<Rightarrow> (unit + nat) \<times> fs_state" where
  "copy_to_tmp tmp rd now d =
     (let bs = take max_file_size (reader_bytes rd);
          d' = d\<lparr>fs_tmp := AList.update tmp (FileEntry bs (Some now)) (fs_tmp d)\<rparr>
      in if reader_error rd \<noteq> None \<or> max_file_size < length (reader_bytes rd) then (Inl (), d') else (Inr (length bs), d'))"

definition rename_tmp :: "string \<Rightarrow> string \<Rightarrow> fs_state \<Rightarrow> (unit + unit) \<times> fs_state" where
  "rename_tmp tmp key d =
     (case map_of (fs_tmp d) tmp of
        None \<Rightarrow> (Inl (), d)
      | Some e \<Rightarrow> (Inr (), d\<lparr>fs_tmp := AList.delete tmp (fs_tmp d), fs_root := AList.update key e (fs_root d)\<rparr>))"

definition write_committed :: "string \<Rightarrow> reader \<Rightarrow> string \<Rightarrow> int \<Rightarrow> fs_state \<Rightarrow> (attachment_store_error + nat) \<times> fs_state" where
  "write_committed tmp rd key now =
     map_err_st StoreIo
       (and_then (io ''failed to create tmp file'' (create_tmp tmp now)) (\<lambda>_.
        and_then (io ''failed to write to tmp file'' (copy_to_tmp tmp rd now)) (\<lambda>size_bytes.
        and_then (io ''failed to flush tmp file'' quiet) (\<lambda>_.
        and_then (io ''failed to fsync tmp file'' quiet) (\<lambda>_.
        and_then (io ''failed to rename tmp file to final path'' (rename_tmp tmp key)) (\<lambda>_.
        and_then (io ''failed to open root dir for fsync'' quiet) (\<lambda>_.
        and_then (io ''failed to fsync root directory'' quiet) (\<lambda>_.
        done_with size_bytes))))))))"

definition remove_tmp :: "string \<Rightarrow> fs_state \<Rightarrow> (unit + unit) \<times> fs_state" where
  "remove_tmp tmp d =
     (if map_of (fs_tmp d) tmp = None then (Inl (), d) else (Inr (), d\<lparr>fs_tmp := AList.delete tmp (fs_tmp d)\<rparr>))"

definition fs_put :: "string \<Rightarrow> string \<Rightarrow> int \<Rightarrow> reader \<Rightarrow> fs_state \<Rightarrow> (attachment_store_error + put_result) \<times> fs_state" where
  "fs_put key tmp now rd s =
     (case write_committed tmp rd key now s of
        (Inl e, d) \<Rightarrow> (Err e, snd (io [] (remove_tmp tmp) d))
      | (Inr size_bytes, d) \<Rightarrow> (Ok \<lparr>pr_blob = \<lparr>blob_backend = ''fs'', blob_key = key\<rparr>, pr_size_bytes = size_bytes\<rparr>, d))"

text \<open>Opening a directory succeeds, reading from it does not.\<close>

definition open_file :: "string \<Rightarrow> fs_state \<Rightarrow> (unit + reader option) \<times> fs_state" where
  "open_file key d =
     (case map_of (fs_root d) key of
        None \<Rightarrow> (Inr None, d)
      | Some (FileEntry bs _) \<Rightarrow> (Inr (Some (Reader bs None)), d)
      | Some DirEntry \<Rightarrow> (Inr (Some (Reader [] (Some ''is a directory''))), d))"

definition fs_get :: "blob_ref \<Rightarrow> fs_state \<Rightarrow> (attachment_store_error + reader) \<times> fs_state" where
  "fs_get b =
     (if is_dangerous_key (blob_key b) then fail_with StoreNotFound
      else and_then (map_err_st StoreIo (io ''failed to open blob file'' (open_file (blob_key b)))) (\<lambda>r.
        case r of None \<Rightarrow> fail_with StoreNotFound | Some rd \<Rightarrow> done_with rd))"

definition remove_blob :: "string \<Rightarrow> fs_state \<Rightarrow> (unit + unit) \<times> fs_state" where
  "remove_blob key d =
     (case map_of (fs_root d) key of
        None \<Rightarrow> (Inr (), d)
      | Some (FileEntry _ _) \<Rightarrow> (Inr (), d\<lparr>fs_root := AList.delete key (fs_root d)\<rparr>)
      | Some DirEntry \<Rightarrow> (Inl (), d))"

definition fs_delete :: "blob_ref \<Rightarrow> fs_state \<Rightarrow> (attachment_store_error + unit) \<times> fs_state" where
  "fs_delete b =
     (if is_dangerous_key (blob_key b) then fail_with StoreNotFound
      else map_err_st StoreIo (io ''failed to delete blob file'' (remove_blob (blob_key b))))"

section \<open>Listing and cleaning\<close>

definition is_plain_file :: "fs_entry \<Rightarrow> bool" where
  "is_plain_file e \<longleftrightarrow> (case e of FileEntry _ _ \<Rightarrow> True | DirEntry \<Rightarrow> False)"

definition hidden :: "string \<Rightarrow> bool" where
  "hidden name \<longleftrightarrow> strip_prefix ''.'' name \<noteq> None"

definition fs_list_keys :: "fs_state \<Rightarrow> (anyhow + string list) \<times> fs_state" where
  "fs_list_keys =
     io ''failed to read directory'' (\<lambda>d. (Inr (map fst (filter (\<lambda>(n, e). \<not> hidden n \<and> is_plain_file e) (fs_root d))), d))"

text \<open>\<open>SystemTime::elapsed\<close> fails on a time in the future; the two callers replace it differently.\<close>

definition elapsed :: "int \<Rightarrow> int \<Rightarrow> int option" where
  "elapsed now modified = (if modified \<le> now then Some (now - modified) else None)"

definition old_enough :: "int \<Rightarrow> int \<Rightarrow> fs_entry \<Rightarrow> bool" where
  "old_enough now age e \<longleftrightarrow>
     (case e of
        FileEntry _ (Some m) \<Rightarrow> age \<le> (case elapsed now m of None \<Rightarrow> 0 | Some d \<Rightarrow> d)
      | _ \<Rightarrow> False)"

definition fs_list_keys_older_than :: "int \<Rightarrow> int \<Rightarrow> fs_state \<Rightarrow> (anyhow + string list) \<times> fs_state" where
  "fs_list_keys_older_than now age =
     io ''failed to read directory''
       (\<lambda>d. (Inr (map fst (filter (\<lambda>(n, e). \<not> hidden n \<and> old_enough now age e) (fs_root d))), d))"

text \<open>\<open>Duration::MAX\<close> for a time in the future: such a tempfile counts as old.\<close>

definition tmp_expired :: "int \<Rightarrow> int \<Rightarrow> fs_entry \<Rightarrow> bool" where
  "tmp_expired now age e \<longleftrightarrow>
     (case e of
        FileEntry _ (Some m) \<Rightarrow> (case elapsed now m of None \<Rightarrow> True | Some d \<Rightarrow> age \<le> d)
      | _ \<Rightarrow> False)"

fun cleanup_entries :: "int \<Rightarrow> int \<Rightarrow> (string \<times> fs_entry) list \<Rightarrow> nat \<Rightarrow> fs_state \<Rightarrow> nat \<times> fs_state" where
  "cleanup_entries now age [] removed d = (removed, d)"
| "cleanup_entries now age ((n, e) # es) removed d =
     (if tmp_expired now age e then
        (case io [] (remove_tmp n) d of
           (Inr _, d') \<Rightarrow> cleanup_entries now age es (removed + 1) d'
         | (Inl _, d') \<Rightarrow> cleanup_entries now age es removed d')
      else cleanup_entries now age es removed d)"

definition fs_cleanup_temp :: "int \<Rightarrow> int \<Rightarrow> fs_state \<Rightarrow> (anyhow + nat) \<times> fs_state" where
  "fs_cleanup_temp now age =
     and_then (io ''failed to read tmp directory'' (\<lambda>d. (Inr (fs_tmp d), d)))
       (\<lambda>es d. let (n, d') = cleanup_entries now age es 0 d in (Ok n, d'))"

definition fs_config_from_env :: "(string \<Rightarrow> env_var) \<Rightarrow> string \<Rightarrow> anyhow + string" where
  "fs_config_from_env env prefix =
     (case env (prefix @ ''_ROOT'') of Present r \<Rightarrow> Ok r | _ \<Rightarrow> Err (''missing env var '' @ prefix @ ''_ROOT''))"

section \<open>What an attachment store promises\<close>

text \<open>Calls by anyone, in order.\<close>

datatype blob_call = BPut reader | BGet blob_ref | BDelete blob_ref

fun blob_run ::
    "(reader \<Rightarrow> 's \<Rightarrow> (attachment_store_error + put_result) \<times> 's) \<Rightarrow>
     (blob_ref \<Rightarrow> 's \<Rightarrow> (attachment_store_error + reader) \<times> 's) \<Rightarrow>
     (blob_ref \<Rightarrow> 's \<Rightarrow> (attachment_store_error + unit) \<times> 's) \<Rightarrow> blob_call list \<Rightarrow> 's \<Rightarrow> 's" where
  "blob_run put get del [] s = s"
| "blob_run put get del (BPut rd # cs) s = blob_run put get del cs (snd (put rd s))"
| "blob_run put get del (BGet b # cs) s = blob_run put get del cs (snd (get b s))"
| "blob_run put get del (BDelete b # cs) s = blob_run put get del cs (snd (del b s))"

fun call_on :: "(blob_ref \<Rightarrow> bool) \<Rightarrow> blob_call \<Rightarrow> bool" where
  "call_on own (BPut rd) \<longleftrightarrow> True"
| "call_on own (BGet b) \<longleftrightarrow> own b"
| "call_on own (BDelete b) \<longleftrightarrow> own b"

text \<open>\<open>own b\<close>: the reference is one this store hands out.\<close>

locale blob_store =
  fixes put :: "reader \<Rightarrow> 's \<Rightarrow> (attachment_store_error + put_result) \<times> 's"
    and get :: "blob_ref \<Rightarrow> 's \<Rightarrow> (attachment_store_error + reader) \<times> 's"
    and del :: "blob_ref \<Rightarrow> 's \<Rightarrow> (attachment_store_error + unit) \<times> 's"
    and stored :: "'s \<Rightarrow> (blob_ref \<rightharpoonup> byte list)"
    and sinv :: "'s \<Rightarrow> bool"
    and own :: "blob_ref \<Rightarrow> bool"
  assumes put_ok: "sinv s \<Longrightarrow> put rd s = (Inr r, s') \<Longrightarrow>
      sinv s' \<and> own (pr_blob r) \<and> reader_error rd = None \<and> stored s (pr_blob r) = None \<and>
      pr_size_bytes r = length (reader_bytes rd) \<and> pr_size_bytes r \<le> u64_max \<and>
      stored s' = (stored s)(pr_blob r \<mapsto> reader_bytes rd)"
    and put_err: "sinv s \<Longrightarrow> put rd s = (Inl e, s') \<Longrightarrow> sinv s' \<and> stored s \<subseteq>\<^sub>m stored s'"
    and get_ok: "sinv s \<Longrightarrow> own b \<Longrightarrow> get b s = (Inr rd, s') \<Longrightarrow>
      sinv s' \<and> stored s' = stored s \<and> (\<exists>bs. stored s b = Some bs \<and> rd = cursor bs)"
    and get_err: "sinv s \<Longrightarrow> own b \<Longrightarrow> get b s = (Inl e, s') \<Longrightarrow>
      sinv s' \<and> stored s' = stored s \<and> (e = StoreNotFound \<longrightarrow> stored s b = None)"
    and del_ok: "sinv s \<Longrightarrow> own b \<Longrightarrow> del b s = (Inr u, s') \<Longrightarrow> sinv s' \<and> stored s' = (stored s)(b := None)"
    and del_err: "sinv s \<Longrightarrow> own b \<Longrightarrow> del b s = (Inl e, s') \<Longrightarrow>
      sinv s' \<and> (stored s' = stored s \<or> stored s' = (stored s)(b := None))"
begin

lemma put_keeps: "sinv s \<Longrightarrow> put rd s = (x, s') \<Longrightarrow> sinv s' \<and> stored s \<subseteq>\<^sub>m stored s'"
  using put_ok [of s rd _ s'] put_err [of s rd _ s'] by (cases x) (auto simp: map_le_def)

lemma del_others: "sinv s \<Longrightarrow> own b \<Longrightarrow> del b s = (x, s') \<Longrightarrow> sinv s' \<and> (\<forall>c. c \<noteq> b \<longrightarrow> stored s' c = stored s c)"
  using del_ok [of s b _ s'] del_err [of s b _ s'] by (cases x) auto

lemma get_same: "sinv s \<Longrightarrow> own b \<Longrightarrow> get b s = (x, s') \<Longrightarrow> sinv s' \<and> stored s' = stored s"
  using get_ok [of s b _ s'] get_err [of s b _ s'] by (cases x) auto

lemma get_stored: "sinv s \<Longrightarrow> own b \<Longrightarrow> stored s b = Some bs \<Longrightarrow> get b s = (x, s') \<Longrightarrow>
    x = Inr (cursor bs) \<or> (\<exists>e. x = Inl e \<and> e \<noteq> StoreNotFound)"
  using get_ok [of s b _ s'] get_err [of s b _ s'] by (cases x) auto

text \<open>A stored blob stays readable, unchanged, until its own reference is deleted.\<close>

lemma run_keeps:
  "sinv s \<Longrightarrow> stored s b = Some bs \<Longrightarrow> \<forall>c\<in>set cs. call_on own c \<and> c \<noteq> BDelete b \<Longrightarrow>
     sinv (blob_run put get del cs s) \<and> stored (blob_run put get del cs s) b = Some bs"
proof (induction cs arbitrary: s)
  case Nil
  then show ?case by simp
next
  case (Cons c cs)
  have "sinv (blob_run put get del [c] s) \<and> stored (blob_run put get del [c] s) b = Some bs"
  proof (cases c)
    case (BPut rd)
    with put_keeps [OF Cons.prems(1), of rd] Cons.prems(2) show ?thesis
      by (cases "put rd s") (auto dest: map_le_SomeD)
  next
    case (BGet b')
    with get_same [OF Cons.prems(1), of b'] Cons.prems(2,3) show ?thesis by (cases "get b' s") auto
  next
    case (BDelete b')
    with del_others [OF Cons.prems(1), of b'] Cons.prems(2,3) show ?thesis by (cases "del b' s") auto
  qed
  moreover have "blob_run put get del (c # cs) s = blob_run put get del cs (blob_run put get del [c] s)"
    by (cases c) simp_all
  ultimately show ?case using Cons.IH Cons.prems(3) by simp
qed

lemma put_run_get:
  assumes "sinv s" "put rd s = (Inr r, s1)" "\<forall>c\<in>set cs. call_on own c \<and> c \<noteq> BDelete (pr_blob r)"
    "get (pr_blob r) (blob_run put get del cs s1) = (x, s2)"
  shows "x = Inr (cursor (reader_bytes rd)) \<or> (\<exists>e. x = Inl e \<and> e \<noteq> StoreNotFound)"
proof -
  note p = put_ok [OF assms(1,2)]
  then have "stored s1 (pr_blob r) = Some (reader_bytes rd)" by simp
  with run_keeps [of s1 "pr_blob r" "reader_bytes rd" cs] p assms(3)
  have "sinv (blob_run put get del cs s1)" "stored (blob_run put get del cs s1) (pr_blob r) = Some (reader_bytes rd)" by auto
  with get_stored p assms(4) show ?thesis by blast
qed

end

section \<open>The filesystem keeps the promise\<close>

record fs_world =
  fw_fs :: fs_state
  fw_now :: int
  fw_next :: uuid

text \<open>The id generator gives each call the next ids; an exhausted generator (after \<open>2^128\<close> ids) fails.\<close>

definition fsw_put :: "reader \<Rightarrow> fs_world \<Rightarrow> (attachment_store_error + put_result) \<times> fs_world" where
  "fsw_put rd w =
     (if uuid_ok (fw_next w + 1) then
        (let (r, d) = fs_put (uuid_simple (fw_next w)) (uuid_simple (fw_next w + 1)) (fw_now w) rd (fw_fs w)
         in (r, w\<lparr>fw_fs := d, fw_next := fw_next w + 2\<rparr>))
      else (Err (StoreIo ''no more ids''), w))"

definition fsw_get :: "blob_ref \<Rightarrow> fs_world \<Rightarrow> (attachment_store_error + reader) \<times> fs_world" where
  "fsw_get b w = (let (r, d) = fs_get b (fw_fs w) in (r, w\<lparr>fw_fs := d\<rparr>))"

definition fsw_delete :: "blob_ref \<Rightarrow> fs_world \<Rightarrow> (attachment_store_error + unit) \<times> fs_world" where
  "fsw_delete b w = (let (r, d) = fs_delete b (fw_fs w) in (r, w\<lparr>fw_fs := d\<rparr>))"

definition fs_own :: "blob_ref \<Rightarrow> bool" where
  "fs_own b \<longleftrightarrow> blob_backend b = ''fs'' \<and> \<not> is_dangerous_key (blob_key b) \<and> blob_key b \<noteq> []"

definition fs_stored :: "fs_state \<Rightarrow> blob_ref \<rightharpoonup> byte list" where
  "fs_stored s b =
     (if fs_own b then (case map_of (fs_root s) (blob_key b) of Some (FileEntry bs _) \<Rightarrow> Some bs | _ \<Rightarrow> None) else None)"

text \<open>Names are unique, only hidden entries of the root are directories, and the ids still to come are unused.\<close>

definition fs_ok :: "fs_state \<Rightarrow> bool" where
  "fs_ok s \<longleftrightarrow> distinct (map fst (fs_root s)) \<and> distinct (map fst (fs_tmp s)) \<and>
     (\<forall>k e. map_of (fs_root s) k = Some e \<longrightarrow> is_plain_file e \<or> hidden k) \<and>
     (\<forall>k e. map_of (fs_tmp s) k = Some e \<longrightarrow> is_plain_file e)"

definition fsw_inv :: "fs_world \<Rightarrow> bool" where
  "fsw_inv w \<longleftrightarrow> fs_ok (fw_fs w) \<and> (\<forall>u. fw_next w \<le> u \<longrightarrow> uuid_ok u \<longrightarrow> map_of (fs_root (fw_fs w)) (uuid_simple u) = None)"

lemma uuid_simple_plain: "\<not> is_dangerous_key (uuid_simple u)" "uuid_simple u \<noteq> []"
proof -
  have sub: "set (uuid_simple u) \<subseteq> set ''0123456789abcdef''" using set_le_hex by (simp add: uuid_simple_def)
  have len: "length (uuid_simple u) = 32" by (simp add: uuid_simple_def)
  then show "uuid_simple u \<noteq> []" by auto
  have no: "c \<notin> set (uuid_simple u)" if "c \<notin> set ''0123456789abcdef''" for c using sub that by blast
  have "strip_prefix ''.'' (uuid_simple u) = None"
  proof (cases "uuid_simple u")
    case (Cons c cs)
    then have "c \<noteq> CHR ''.''" using no [of "CHR ''.''"] by auto
    with Cons show ?thesis by simp
  qed simp
  moreover have "CHR ''/'' \<notin> set (uuid_simple u)" "CHR 0x5C \<notin> set (uuid_simple u)"
    by (rule no; simp)+
  ultimately show "\<not> is_dangerous_key (uuid_simple u)" by (simp add: is_dangerous_key_def)
qed

lemma fs_own_uuid: "fs_own \<lparr>blob_backend = ''fs'', blob_key = uuid_simple u\<rparr>"
  using uuid_simple_plain by (simp add: fs_own_def)


lemmas alist_maps = AList.update_conv' AList.delete_conv'

lemma io_Inr: "io ctx f s = (Inr a, d) \<Longrightarrow> f (s\<lparr>fs_faults := tl (fs_faults s)\<rparr>) = (Inr a, d)"
  by (auto simp: io_def Let_def split: if_splits prod.splits sum.splits)

lemma io_Inl: "io ctx f s = (Inl e, d) \<Longrightarrow>
    e = ctx \<and> (d = s\<lparr>fs_faults := tl (fs_faults s)\<rparr> \<or> f (s\<lparr>fs_faults := tl (fs_faults s)\<rparr>) = (Inl (), d))"
  by (auto simp: io_def Let_def split: if_splits prod.splits sum.splits)

lemma fs_ok_faults [simp]: "fs_ok (s\<lparr>fs_faults := f\<rparr>) = fs_ok s"
  by (simp add: fs_ok_def)

lemma fs_ok_tmp:
  assumes "fs_ok s" shows "fs_ok (s\<lparr>fs_tmp := AList.update k (FileEntry bs m) (fs_tmp s)\<rparr>)" "fs_ok (s\<lparr>fs_tmp := AList.delete k (fs_tmp s)\<rparr>)"
  using assms by (auto simp: fs_ok_def alist_maps AList.distinct_update AList.distinct_delete is_plain_file_def split: if_splits)

lemma fs_ok_root:
  assumes "fs_ok s" shows "fs_ok (s\<lparr>fs_root := AList.update k (FileEntry bs m) (fs_root s)\<rparr>)" "fs_ok (s\<lparr>fs_root := AList.delete k (fs_root s)\<rparr>)"
  using assms by (auto simp: fs_ok_def alist_maps AList.distinct_update AList.distinct_delete is_plain_file_def split: if_splits)

text \<open>The steps of a write that leave the root alone.\<close>

lemma quiet_step: "io ctx quiet s = (x, d) \<Longrightarrow> fs_root d = fs_root s \<and> fs_tmp d = fs_tmp s \<and> (fs_ok s \<longrightarrow> fs_ok d)"
  by (cases x) (auto dest!: io_Inr io_Inl simp: quiet_def)

lemma create_step:
  "io ctx (create_tmp t now) s = (x, d) \<Longrightarrow> fs_root d = fs_root s \<and> (fs_ok s \<longrightarrow> fs_ok d)"
  by (cases x) (auto dest!: io_Inr io_Inl simp: create_tmp_def fs_ok_tmp(1) [of "s\<lparr>fs_faults := tl (fs_faults s)\<rparr>", simplified])

lemma copy_step:
  assumes "io ctx (copy_to_tmp t rd now) s = (x, d)"
  shows "fs_root d = fs_root s \<and> (fs_ok s \<longrightarrow> fs_ok d) \<and>
    (\<forall>n. x = Inr n \<longrightarrow> reader_error rd = None \<and> n = length (reader_bytes rd) \<and> n \<le> max_file_size \<and>
       map_of (fs_tmp d) t = Some (FileEntry (reader_bytes rd) (Some now)))"
proof -
  note tmp = fs_ok_tmp(1) [of "s\<lparr>fs_faults := tl (fs_faults s)\<rparr>", simplified]
  show ?thesis
  proof (cases x)
    case (Inl e)
    with assms tmp show ?thesis
      by (auto dest!: io_Inl simp: copy_to_tmp_def Let_def split: if_splits)
  next
    case (Inr n)
    with assms have "copy_to_tmp t rd now (s\<lparr>fs_faults := tl (fs_faults s)\<rparr>) = (Inr n, d)" by (auto dest: io_Inr)
    with Inr tmp show ?thesis
      by (auto simp: copy_to_tmp_def Let_def alist_maps split: if_splits)
  qed
qed

lemma rename_step:
  assumes "io ctx (rename_tmp t key) s = (x, d)" "map_of (fs_tmp s) t = Some (FileEntry bs m)"
  shows "(fs_ok s \<longrightarrow> fs_ok d) \<and>
    (case x of Inl e \<Rightarrow> fs_root d = fs_root s | Inr u \<Rightarrow> fs_root d = AList.update key (FileEntry bs m) (fs_root s))"
proof (cases x)
  case (Inl e)
  with assms show ?thesis by (auto dest!: io_Inl simp: rename_tmp_def)
next
  case (Inr u)
  with assms have d: "d = (s\<lparr>fs_faults := tl (fs_faults s)\<rparr>)\<lparr>fs_tmp := AList.delete t (fs_tmp s), fs_root := AList.update key (FileEntry bs m) (fs_root s)\<rparr>"
    by (auto dest!: io_Inr simp: rename_tmp_def)
  have "fs_ok d" if "fs_ok s"
    using fs_ok_root(1) [OF fs_ok_tmp(2) [of "s\<lparr>fs_faults := tl (fs_faults s)\<rparr>" t, simplified, OF that], of key bs m]
    by (simp add: d)
  with Inr d show ?thesis by simp
qed

text \<open>A write either leaves the root as it was or adds exactly the new file; it may have added the file and still
  report an error, when the directory could not be synced.\<close>

lemma write_committed_effect:
  assumes "write_committed tmp rd key now s = (x, d)"
  shows "(fs_ok s \<longrightarrow> fs_ok d) \<and>
    (case x of
       Inr n \<Rightarrow> reader_error rd = None \<and> n = length (reader_bytes rd) \<and> n \<le> max_file_size \<and>
         fs_root d = AList.update key (FileEntry (reader_bytes rd) (Some now)) (fs_root s)
     | Inl e \<Rightarrow> fs_root d = fs_root s \<or>
         reader_error rd = None \<and> fs_root d = AList.update key (FileEntry (reader_bytes rd) (Some now)) (fs_root s))"
proof -
  obtain x1 d1 where 1: "io ''failed to create tmp file'' (create_tmp tmp now) s = (x1, d1)" by fastforce
  note c1 = create_step [OF 1]
  show ?thesis
  proof (cases x1)
    case (Inl e)
    with 1 c1 assms show ?thesis by (auto simp: write_committed_def and_then_def map_err_st_def)
  next
    case (Inr u1)
    note x1 = Inr
    obtain x2 d2 where 2: "io ''failed to write to tmp file'' (copy_to_tmp tmp rd now) d1 = (x2, d2)" by fastforce
    note c2 = copy_step [OF 2]
    show ?thesis
    proof (cases x2)
      case (Inl e)
      with 1 2 x1 c1 c2 assms show ?thesis by (auto simp: write_committed_def and_then_def map_err_st_def)
    next
      case (Inr n)
      note x2 = Inr
      obtain x3 d3 where 3: "io ''failed to flush tmp file'' quiet d2 = (x3, d3)" by fastforce
      note c3 = quiet_step [OF 3]
      obtain x4 d4 where 4: "io ''failed to fsync tmp file'' quiet d3 = (x4, d4)" by fastforce
      note c4 = quiet_step [OF 4]
      obtain x5 d5 where 5: "io ''failed to rename tmp file to final path'' (rename_tmp tmp key) d4 = (x5, d5)" by fastforce
      have "map_of (fs_tmp d4) tmp = Some (FileEntry (reader_bytes rd) (Some now))" using c2 x2 c3 c4 by simp
      note c5 = rename_step [OF 5 this]
      obtain x6 d6 where 6: "io ''failed to open root dir for fsync'' quiet d5 = (x6, d6)" by fastforce
      note c6 = quiet_step [OF 6]
      obtain x7 d7 where 7: "io ''failed to fsync root directory'' quiet d6 = (x7, d7)" by fastforce
      note c7 = quiet_step [OF 7]
      have root4: "fs_root d4 = fs_root s" using c1 c2 c3 c4 by simp
      have ok: "fs_ok s \<longrightarrow> fs_ok d2 \<and> fs_ok d3 \<and> fs_ok d4 \<and> fs_ok d5 \<and> fs_ok d6 \<and> fs_ok d7"
        using c1 c2 c3 c4 c5 c6 c7 by blast
      have rd: "reader_error rd = None" "n = length (reader_bytes rd)" "n \<le> max_file_size" using c2 x2 by auto
      have run: "(x, d) = (case x3 of Inl e \<Rightarrow> (Inl (StoreIo e), d3) | Inr _ \<Rightarrow> (case x4 of Inl e \<Rightarrow> (Inl (StoreIo e), d4) | Inr _ \<Rightarrow>
          (case x5 of Inl e \<Rightarrow> (Inl (StoreIo e), d5) | Inr _ \<Rightarrow> (case x6 of Inl e \<Rightarrow> (Inl (StoreIo e), d6) | Inr _ \<Rightarrow>
          (case x7 of Inl e \<Rightarrow> (Inl (StoreIo e), d7) | Inr _ \<Rightarrow> (Inr n, d7))))))"
        using assms 1 2 3 4 5 6 7 x1 x2
        by (auto simp: write_committed_def and_then_def map_err_st_def done_with_def split: sum.splits)
      have root3: "fs_root d3 = fs_root s" using c1 c2 c3 by simp
      show ?thesis
        using run root3 root4 ok rd c5 c6 c7 by (auto split: sum.splits)
    qed
  qed
qed


lemma fs_stored_root: "fs_root d = fs_root s \<Longrightarrow> fs_stored d = fs_stored s"
  by (simp add: fs_stored_def fun_eq_iff)

lemma fs_stored_update:
  assumes "fs_own \<lparr>blob_backend = ''fs'', blob_key = key\<rparr>" "fs_root d = AList.update key (FileEntry bs m) (fs_root s)"
  shows "fs_stored d = (fs_stored s)(\<lparr>blob_backend = ''fs'', blob_key = key\<rparr> \<mapsto> bs)"
proof
  fix b :: blob_ref
  show "fs_stored d b = ((fs_stored s)(\<lparr>blob_backend = ''fs'', blob_key = key\<rparr> \<mapsto> bs)) b"
  proof (cases "b = \<lparr>blob_backend = ''fs'', blob_key = key\<rparr>")
    case True
    then show ?thesis using assms by (simp add: fs_stored_def alist_maps)
  next
    case False
    then have "fs_own b \<Longrightarrow> blob_key b \<noteq> key" by (cases b) (simp add: fs_own_def)
    with False show ?thesis by (simp add: fs_stored_def alist_maps assms(2))
  qed
qed

lemma remove_tmp_step: "io ctx (remove_tmp t) s = (x, d) \<Longrightarrow> fs_root d = fs_root s \<and> (fs_ok s \<longrightarrow> fs_ok d)"
  using fs_ok_tmp(2) [of "s\<lparr>fs_faults := tl (fs_faults s)\<rparr>" t, simplified]
  by (cases x) (auto dest!: io_Inr io_Inl simp: remove_tmp_def split: if_splits)

lemma fs_put_effect:
  assumes "fs_put key tmp now rd s = (x, d)"
  shows "(fs_ok s \<longrightarrow> fs_ok d) \<and>
    (case x of
       Inr r \<Rightarrow> pr_blob r = \<lparr>blob_backend = ''fs'', blob_key = key\<rparr> \<and> reader_error rd = None \<and>
         pr_size_bytes r = length (reader_bytes rd) \<and> pr_size_bytes r \<le> max_file_size \<and>
         fs_root d = AList.update key (FileEntry (reader_bytes rd) (Some now)) (fs_root s)
     | Inl e \<Rightarrow> fs_root d = fs_root s \<or>
         fs_root d = AList.update key (FileEntry (reader_bytes rd) (Some now)) (fs_root s))"
proof -
  obtain y d1 where w: "write_committed tmp rd key now s = (y, d1)" by fastforce
  obtain z d2 where r: "io [] (remove_tmp tmp) d1 = (z, d2)" by fastforce
  show ?thesis
    using assms w r write_committed_effect [OF w] remove_tmp_step [OF r]
    by (cases y) (auto simp: fs_put_def)
qed

lemma fsw_put_law:
  assumes inv: "fsw_inv w" and run: "fsw_put rd w = (x, w')"
  shows "fsw_inv w' \<and>
    (case x of
       Inr r \<Rightarrow> fs_own (pr_blob r) \<and> reader_error rd = None \<and> fs_stored (fw_fs w) (pr_blob r) = None \<and>
         pr_size_bytes r = length (reader_bytes rd) \<and> pr_size_bytes r \<le> u64_max \<and>
         fs_stored (fw_fs w') = (fs_stored (fw_fs w))(pr_blob r \<mapsto> reader_bytes rd)
     | Inl e \<Rightarrow> fs_stored (fw_fs w) \<subseteq>\<^sub>m fs_stored (fw_fs w'))"
proof (cases "uuid_ok (fw_next w + 1)")
  case False
  with assms show ?thesis by (auto simp: fsw_put_def)
next
  case True
  let ?key = "uuid_simple (fw_next w)"
  let ?b = "\<lparr>blob_backend = ''fs'', blob_key = ?key\<rparr>"
  obtain y d where p: "fs_put ?key (uuid_simple (fw_next w + 1)) (fw_now w) rd (fw_fs w) = (y, d)" by fastforce
  with run True have w': "x = y" "w' = w\<lparr>fw_fs := d, fw_next := fw_next w + 2\<rparr>" by (auto simp: fsw_put_def)
  note eff = fs_put_effect [OF p]
  have nx: "uuid_ok (fw_next w)" using True by (simp add: uuid_ok_def)
  have free: "map_of (fs_root (fw_fs w)) ?key = None" using inv nx by (simp add: fsw_inv_def)
  have "fs_root d = fs_root (fw_fs w) \<or> (\<exists>e. fs_root d = AList.update ?key e (fs_root (fw_fs w)))"
    using eff by (cases y) auto
  then have "map_of (fs_root d) (uuid_simple u) = None" if "fw_next w + 2 \<le> u" "uuid_ok u" for u
    using that inv nx uuid_simple_inj [of u "fw_next w"] by (auto simp: fsw_inv_def alist_maps)
  moreover have "fs_ok d" using eff inv by (simp add: fsw_inv_def)
  ultimately have inv': "fsw_inv w'" by (simp add: fsw_inv_def w'(2))
  have none: "fs_stored (fw_fs w) ?b = None" using free by (simp add: fs_stored_def)
  have upd: "fs_stored d = (fs_stored (fw_fs w))(?b \<mapsto> bs)"
    if "fs_root d = AList.update ?key (FileEntry bs m) (fs_root (fw_fs w))" for bs m
    by (rule fs_stored_update [OF fs_own_uuid that])
  show ?thesis
  proof (cases y)
    case (Inr r)
    with eff have r: "pr_blob r = ?b" "reader_error rd = None" "pr_size_bytes r = length (reader_bytes rd)"
      "pr_size_bytes r \<le> max_file_size"
      "fs_root d = AList.update ?key (FileEntry (reader_bytes rd) (Some (fw_now w))) (fs_root (fw_fs w))" by auto
    with upd [OF r(5)] none inv' w' Inr fs_own_uuid show ?thesis
      by (simp add: max_file_size_def u64_max_def)
  next
    case (Inl e)
    with eff have "fs_root d = fs_root (fw_fs w) \<or>
        fs_root d = AList.update ?key (FileEntry (reader_bytes rd) (Some (fw_now w))) (fs_root (fw_fs w))" by simp
    then have "fs_stored (fw_fs w) \<subseteq>\<^sub>m fs_stored d"
      using upd [of "reader_bytes rd" "Some (fw_now w)"] none fs_stored_root [of d "fw_fs w"]
      by (auto simp: map_le_def)
    with inv' w' Inl show ?thesis by simp
  qed
qed

lemma open_step: "io ctx (open_file k) s = (x, d) \<Longrightarrow> fs_root d = fs_root s \<and> (fs_ok s \<longrightarrow> fs_ok d)"
  by (cases x) (auto dest!: io_Inr io_Inl simp: open_file_def split: option.splits fs_entry.splits)

lemma fs_get_law:
  assumes "fs_ok s" "fs_own b" "fs_get b s = (x, d)"
  shows "fs_ok d \<and> fs_root d = fs_root s \<and>
    (case x of
       Inr rd \<Rightarrow> (\<exists>bs. fs_stored s b = Some bs \<and> rd = cursor bs)
     | Inl e \<Rightarrow> e = StoreNotFound \<longrightarrow> fs_stored s b = None)"
proof -
  have safe: "\<not> is_dangerous_key (blob_key b)" "\<not> hidden (blob_key b)"
    using assms(2) by (auto simp: fs_own_def is_dangerous_key_def hidden_def)
  obtain y d1 where o: "io ''failed to open blob file'' (open_file (blob_key b)) s = (y, d1)" by fastforce
  note st = open_step [OF o]
  show ?thesis
  proof (cases y)
    case (Inl e)
    with assms(1,3) safe o st show ?thesis by (auto simp: fs_get_def and_then_def map_err_st_def)
  next
    case (Inr r)
    with o have op: "open_file (blob_key b) (s\<lparr>fs_faults := tl (fs_faults s)\<rparr>) = (Inr r, d1)" by (auto dest: io_Inr)
    show ?thesis
    proof (cases r)
      case None
      with assms(1,3) safe o st Inr op show ?thesis
        by (auto simp: fs_get_def and_then_def map_err_st_def fail_with_def open_file_def fs_stored_def
            split: option.splits fs_entry.splits)
    next
      case (Some rd)
      have "map_of (fs_root s) (blob_key b) \<noteq> Some DirEntry"
        using assms(1) safe(2) by (auto simp: fs_ok_def is_plain_file_def split: fs_entry.splits)
      with op Some obtain bs m where "map_of (fs_root s) (blob_key b) = Some (FileEntry bs m)" "rd = Reader bs None"
        by (auto simp: open_file_def split: option.splits fs_entry.splits)
      with assms safe o st Inr Some show ?thesis
        by (auto simp: fs_get_def and_then_def map_err_st_def done_with_def fs_stored_def cursor_def)
    qed
  qed
qed

lemma fs_delete_law:
  assumes "fs_ok s" "\<not> is_dangerous_key (blob_key b)" "fs_delete b s = (x, d)"
  shows "fs_ok d \<and> (case x of
       Inr u \<Rightarrow> fs_root d = AList.delete (blob_key b) (fs_root s) \<or>
         map_of (fs_root s) (blob_key b) = None \<and> fs_root d = fs_root s
     | Inl e \<Rightarrow> fs_root d = fs_root s)"
proof -
  obtain y d1 where o: "io ''failed to delete blob file'' (remove_blob (blob_key b)) s = (y, d1)" by fastforce
  have d: "x = map_err StoreIo y" "d = d1" using assms(2,3) o by (simp_all add: fs_delete_def map_err_st_def)
  note root = fs_ok_root(2) [of "s\<lparr>fs_faults := tl (fs_faults s)\<rparr>" "blob_key b", simplified, OF assms(1)]
  show ?thesis
  proof (cases y)
    case (Inl e)
    with io_Inl [OF o [unfolded Inl]] d assms(1) show ?thesis
      by (auto simp: remove_blob_def split: option.splits fs_entry.splits)
  next
    case (Inr u)
    with io_Inr [OF o [unfolded Inr]] d assms(1) root show ?thesis
      by (auto simp: remove_blob_def split: option.splits fs_entry.splits)
  qed
qed

lemma fs_stored_delete:
  assumes "fs_own b" "fs_root d = AList.delete (blob_key b) (fs_root s)"
  shows "fs_stored d = (fs_stored s)(b := None)"
proof
  fix c :: blob_ref
  show "fs_stored d c = ((fs_stored s)(b := None)) c"
  proof (cases "c = b")
    case True
    then show ?thesis by (simp add: fs_stored_def alist_maps assms(2))
  next
    case False
    then have "fs_own c \<Longrightarrow> blob_key c \<noteq> blob_key b"
      using assms(1) by (cases c; cases b) (simp add: fs_own_def)
    with False show ?thesis by (simp add: fs_stored_def alist_maps assms(2))
  qed
qed

lemma fsw_inv_shrink:
  assumes "fsw_inv w" "fs_ok d" "fs_root d = fs_root (fw_fs w) \<or> fs_root d = AList.delete k (fs_root (fw_fs w))"
  shows "fsw_inv (w\<lparr>fw_fs := d\<rparr>)"
  using assms by (auto simp: fsw_inv_def alist_maps)

lemma fsw_get_law:
  assumes "fsw_inv w" "fs_own b" "fsw_get b w = (x, w')"
  shows "fsw_inv w' \<and> fs_stored (fw_fs w') = fs_stored (fw_fs w) \<and>
    (case x of
       Inr rd \<Rightarrow> (\<exists>bs. fs_stored (fw_fs w) b = Some bs \<and> rd = cursor bs)
     | Inl e \<Rightarrow> e = StoreNotFound \<longrightarrow> fs_stored (fw_fs w) b = None)"
proof -
  obtain y d where g: "fs_get b (fw_fs w) = (y, d)" by fastforce
  with assms(3) have w': "x = y" "w' = w\<lparr>fw_fs := d\<rparr>" by (auto simp: fsw_get_def)
  have "fs_ok (fw_fs w)" using assms(1) by (simp add: fsw_inv_def)
  note law = fs_get_law [OF this assms(2) g]
  with fsw_inv_shrink [OF assms(1), of d] w' fs_stored_root [of d "fw_fs w"] show ?thesis by simp
qed

lemma fsw_delete_law:
  assumes "fsw_inv w" "fs_own b" "fsw_delete b w = (x, w')"
  shows "fsw_inv w' \<and> fs_stored (fw_fs w') = (if is_ok x then (fs_stored (fw_fs w))(b := None) else fs_stored (fw_fs w))"
proof -
  obtain y d where g: "fs_delete b (fw_fs w) = (y, d)" by fastforce
  with assms(3) have w': "x = y" "w' = w\<lparr>fw_fs := d\<rparr>" by (auto simp: fsw_delete_def)
  have ok: "fs_ok (fw_fs w)" using assms(1) by (simp add: fsw_inv_def)
  have "\<not> is_dangerous_key (blob_key b)" using assms(2) by (simp add: fs_own_def)
  note law = fs_delete_law [OF ok this g]
  have inv: "fsw_inv w'"
    using fsw_inv_shrink [OF assms(1), of d "blob_key b"] law w'(2) by (cases y) auto
  show ?thesis
  proof (cases y)
    case (Inl e)
    with law inv w' fs_stored_root [of d "fw_fs w"] show ?thesis by simp
  next
    case (Inr u)
    have "fs_stored d = (fs_stored (fw_fs w))(b := None)"
    proof (cases "fs_root d = AList.delete (blob_key b) (fs_root (fw_fs w))")
      case True
      then show ?thesis by (rule fs_stored_delete [OF assms(2)])
    next
      case False
      with law Inr have "map_of (fs_root (fw_fs w)) (blob_key b) = None" "fs_root d = fs_root (fw_fs w)" by auto
      then show ?thesis using fs_stored_root [of d "fw_fs w"] by (auto simp: fs_stored_def fun_eq_iff)
    qed
    with inv w' Inr show ?thesis by simp
  qed
qed

text \<open>Any reference, also one this store did not hand out.\<close>

lemma fsw_delete_any:
  assumes "fsw_inv w" "blob_backend b = ''fs''" "fsw_delete b w = (x, w')"
  shows "fsw_inv w' \<and> fw_now w' = fw_now w \<and>
    (fs_root (fw_fs w') = fs_root (fw_fs w) \<or> fs_root (fw_fs w') = AList.delete (blob_key b) (fs_root (fw_fs w))) \<and>
    (\<forall>c. fs_stored (fw_fs w') c = fs_stored (fw_fs w) c \<or> c = b \<and> fs_stored (fw_fs w') c = None)"
proof -
  obtain y d where g: "fs_delete b (fw_fs w) = (y, d)" by fastforce
  with assms(3) have w': "x = y" "w' = w\<lparr>fw_fs := d\<rparr>" by (auto simp: fsw_delete_def)
  have ok: "fs_ok (fw_fs w)" using assms(1) by (simp add: fsw_inv_def)
  show ?thesis
  proof (cases "is_dangerous_key (blob_key b)")
    case True
    then show ?thesis using g w' assms(1) by (auto simp: fs_delete_def fail_with_def)
  next
    case False
    note law = fs_delete_law [OF ok False g]
    have root: "fs_root d = fs_root (fw_fs w) \<or> fs_root d = AList.delete (blob_key b) (fs_root (fw_fs w))"
      using law by (cases y) auto
    have "fs_stored d c = fs_stored (fw_fs w) c \<or> c = b \<and> fs_stored d c = None" for c
    proof (cases "c = b")
      case True
      with root show ?thesis by (auto simp: fs_stored_def alist_maps)
    next
      case False
      then have "fs_own c \<Longrightarrow> blob_key c \<noteq> blob_key b" using assms(2) by (cases c; cases b) (simp add: fs_own_def)
      with root show ?thesis by (auto simp: fs_stored_def alist_maps)
    qed
    moreover have "fsw_inv w'" using fsw_inv_shrink [OF assms(1), of d "blob_key b"] law root w'(2) by (cases y) auto
    ultimately show ?thesis using w'(2) root by simp
  qed
qed

interpretation fs_blobs: blob_store fsw_put fsw_get fsw_delete "\<lambda>w. fs_stored (fw_fs w)" fsw_inv fs_own
proof (unfold_locales, goal_cases)
  case 1 with fsw_put_law show ?case by fastforce
next
  case 2 with fsw_put_law show ?case by fastforce
next
  case 3 with fsw_get_law show ?case by fastforce
next
  case 4 with fsw_get_law show ?case by fastforce
next
  case 5 with fsw_delete_law show ?case by fastforce
next
  case 6 with fsw_delete_law show ?case by fastforce
qed


section \<open>Properties\<close>

text \<open>C17: A stored attachment is durable: once a \<open>put\<close> succeeded, whatever other parties store, read or delete (their
  own references), and whichever system calls fail, a later \<open>get\<close> of its reference yields exactly the bytes
  written, or reports an I/O error, but never that the blob is missing.\<close>

theorem fs_put_then_get:
  assumes "fsw_inv w" "fsw_put rd w = (Inr r, w1)"
    and "\<forall>c\<in>set calls. call_on fs_own c \<and> c \<noteq> BDelete (pr_blob r)"
  shows "fst (fsw_get (pr_blob r) (blob_run fsw_put fsw_get fsw_delete calls w1)) \<in>
    {Inr (cursor (reader_bytes rd))} \<union> {Inl e |e. e \<noteq> StoreNotFound}"
proof -
  obtain x w2 where g: "fsw_get (pr_blob r) (blob_run fsw_put fsw_get fsw_delete calls w1) = (x, w2)" by fastforce
  from fs_blobs.put_run_get [OF assms g] g show ?thesis by auto
qed

definition empty_fs :: fs_world where
  "empty_fs = \<lparr>fw_fs = \<lparr>fs_root = [(''.tmp'', DirEntry)], fs_tmp = [], fs_faults = []\<rparr>, fw_now = 1000, fw_next = 0\<rparr>"

lemma hidden_uuid: "\<not> hidden (uuid_simple u)"
  using uuid_simple_plain(1) [of u] by (auto simp: is_dangerous_key_def hidden_def)

lemma empty_fs_inv: "fsw_inv empty_fs"
proof -
  have "uuid_simple u \<noteq> ''.tmp''" for u using hidden_uuid [of u] by (auto simp: hidden_def)
  then show ?thesis by (auto simp: fsw_inv_def fs_ok_def empty_fs_def hidden_def)
qed

lemma empty_fs_put: "\<exists>r w. fsw_put (Reader [1, 2, 3] None) empty_fs = (Inr r, w)"
  by (simp add: fsw_put_def empty_fs_def uuid_ok_def fs_put_def write_committed_def map_err_st_def and_then_def
      io_def create_tmp_def copy_to_tmp_def max_file_size_def quiet_def rename_tmp_def done_with_def)

theorem fs_put_then_get_witness:
  "\<exists>r w. fsw_put (Reader [1, 2, 3] None) empty_fs = (Inr r, w) \<and>
     fst (fsw_get (pr_blob r) (blob_run fsw_put fsw_get fsw_delete [BPut (Reader [9] None)] w)) \<in>
       {Inr (cursor [1, 2, 3])} \<union> {Inl e |e. e \<noteq> StoreNotFound}"
proof -
  obtain r w where r: "fsw_put (Reader [1, 2, 3] None) empty_fs = (Inr r, w)" using empty_fs_put by blast
  from fs_put_then_get [OF empty_fs_inv r, of "[BPut (Reader [9] None)]"] r show ?thesis by fastforce
qed

text \<open>No path traversal: a reference whose key starts with a dot or contains a path separator is answered with
  "not found" without touching the file system, and any other reference reads or removes at most the entry
  of its own name in the root directory.\<close>

theorem fs_confined:
  "(if is_dangerous_key (blob_key b)
    then fs_get b s = (Inl StoreNotFound, s) \<and> fs_delete b s = (Inl StoreNotFound, s)
    else fs_root (snd (fs_get b s)) = fs_root s \<and> fs_tmp (snd (fs_delete b s)) = fs_tmp s \<and>
      (fs_root (snd (fs_delete b s)) = fs_root s \<or>
       fs_root (snd (fs_delete b s)) = AList.delete (blob_key b) (fs_root s)))"
proof (cases "is_dangerous_key (blob_key b)")
  case True
  then show ?thesis by (simp add: fs_get_def fs_delete_def fail_with_def)
next
  case False
  obtain y d where o: "io ''failed to open blob file'' (open_file (blob_key b)) s = (y, d)" by fastforce
  have g: "fs_root (snd (fs_get b s)) = fs_root s"
    using False o open_step [OF o]
    by (auto simp: fs_get_def and_then_def map_err_st_def fail_with_def done_with_def split: sum.splits option.splits)
  obtain z e where r: "io ''failed to delete blob file'' (remove_blob (blob_key b)) s = (z, e)" by fastforce
  have "fs_tmp e = fs_tmp s \<and> (fs_root e = fs_root s \<or> fs_root e = AList.delete (blob_key b) (fs_root s))"
    using r by (cases z) (auto dest!: io_Inl io_Inr simp: remove_blob_def split: option.splits fs_entry.splits)
  with False g r show ?thesis by (simp add: fs_delete_def map_err_st_def)
qed

end
