(* ===== verification/System.thy ===== *)
theory System
  imports SubmitEmail SqlQueue FsStore UseCases
begin

text \<open>
  The adapters put together as the binary's default configuration does: SQLite for emails, events and
  the queue, the filesystem for attachments.  The world is the database and the file system with its
  clock and id generator; fetching a remote attachment is a parameter.

  The locales \<open>submit_laws\<close> and \<open>submit_reliable\<close> are interpreted here, which gives what a submission does to
  this system on success and on every failure, and the garbage collector is shown to spare what is in use.
\<close>

section \<open>The world\<close>

record world =
  w_db :: sql_db
  w_files :: fs_world

definition w_now :: "world \<Rightarrow> int" where
  "w_now w = fw_now (w_files w)"

definition on_db :: "(sql_db \<Rightarrow> 'r \<times> sql_db) \<Rightarrow> world \<Rightarrow> 'r \<times> world" where
  "on_db f w = (let (r, d) = f (w_db w) in (r, w\<lparr>w_db := d\<rparr>))"

definition on_files :: "(fs_world \<Rightarrow> 'r \<times> fs_world) \<Rightarrow> world \<Rightarrow> 'r \<times> world" where
  "on_files f w = (let (r, d) = f (w_files w) in (r, w\<lparr>w_files := d\<rparr>))"

text \<open>Take the next generated id; after \<open>2^128\<close> of them the generator fails.\<close>

definition with_id :: "'e \<Rightarrow> (uuid \<Rightarrow> world \<Rightarrow> ('e + 'a) \<times> world) \<Rightarrow> world \<Rightarrow> ('e + 'a) \<times> world" where
  "with_id e f w =
     (let u = fw_next (w_files w) in
      if uuid_ok u then f u (w\<lparr>w_files := (w_files w)\<lparr>fw_next := u + 1\<rparr>\<rparr>) else (Err e, w))"

definition sys_ports :: "(url \<Rightarrow> attachment_fetch_error + reader) \<Rightarrow> world submit_ports" where
  "sys_ports fetch =
     \<lparr>sp_save = (\<lambda>i env w. on_db (sqlite_save (w_now w) i env) w),
      sp_set_attachments = (\<lambda>i refs. on_db (sqlite_set_attachments i refs)),
      sp_delete_email = (\<lambda>i. on_db (sqlite_delete i)),
      sp_enqueue = (\<lambda>i env. with_id (QueueStorage ''no more ids'')
         (\<lambda>u w. on_db (sqlite_enqueue (w_now w) u [] i env) w)),
      sp_publish = (\<lambda>ev. with_id (PublishError ''no more ids'') (\<lambda>u w. on_db (sqlite_publish (w_now w) u ev) w)),
      sp_put = (\<lambda>rd. on_files (fsw_put rd)),
      sp_delete_blob = (\<lambda>b. on_files (fsw_delete b)),
      sp_fetch = (\<lambda>u w. (fetch u, w))\<rparr>"

definition row_refs :: "email_row \<Rightarrow> attachment_ref list" where
  "row_refs r = (case de_body_column (er_body r) of None \<Rightarrow> [] | Some (_, refs) \<Rightarrow> refs)"

definition sys_view :: "world \<Rightarrow> store_view" where
  "sys_view w =
     \<lparr>v_rows = (\<lambda>i. map_option (\<lambda>r. (er_key r, row_refs r)) (find_email i (w_db w))),
      v_blobs = fs_stored (fw_fs (w_files w)),
      v_jobs = map qr_email (db_queue (w_db w)),
      v_events = map (\<lambda>v. (vr_email v, vr_type v, the (vr_payload v))) (db_events (w_db w))\<rparr>"

definition sys_inv :: "world \<Rightarrow> bool" where
  "sys_inv w \<longleftrightarrow> queue_inv (w_db w) \<and> fsw_inv (w_files w)"

text \<open>A database seen through its tables only.\<close>

definition db_view :: "sql_db \<Rightarrow> (email_id \<rightharpoonup> string option \<times> attachment_ref list) \<times> email_id list \<times> (email_id \<times> string \<times> json) list" where
  "db_view d = (\<lambda>i. map_option (\<lambda>r. (er_key r, row_refs r)) (find_email i d), map qr_email (db_queue d),
     map (\<lambda>v. (vr_email v, vr_type v, the (vr_payload v))) (db_events d))"

lemma sys_view_db:
  "sys_view w = \<lparr>v_rows = fst (db_view (w_db w)), v_blobs = fs_stored (fw_fs (w_files w)),
     v_jobs = fst (snd (db_view (w_db w))), v_events = snd (snd (db_view (w_db w)))\<rparr>"
  by (simp add: sys_view_def db_view_def)

lemma db_view_same: "same_tables d d' \<Longrightarrow> db_view d = db_view d'"
  by (simp add: db_view_def same_tables_def find_email_def)

lemma on_db_run: "on_db f w = (r, w') \<longleftrightarrow> (\<exists>d. f (w_db w) = (r, d) \<and> w' = w\<lparr>w_db := d\<rparr>)"
  by (auto simp: on_db_def split: prod.splits)

lemma on_files_run: "on_files f w = (r, w') \<longleftrightarrow> (\<exists>d. f (w_files w) = (r, d) \<and> w' = w\<lparr>w_files := d\<rparr>)"
  by (auto simp: on_files_def split: prod.splits)

lemma fsw_inv_next: "fsw_inv f \<Longrightarrow> fsw_inv (f\<lparr>fw_next := fw_next f + 1\<rparr>)"
  by (simp add: fsw_inv_def)

lemma with_id_run:
  assumes "sys_inv w" "with_id e f w = (r, w')"
  obtains (used) w1 where "uuid_ok (fw_next (w_files w))" "f (fw_next (w_files w)) w1 = (r, w')" "sys_inv w1"
      "sys_view w1 = sys_view w" "w_db w1 = w_db w" "fw_fs (w_files w1) = fw_fs (w_files w)"
    | (exhausted) "r = Inl e" "w' = w"
proof (cases "uuid_ok (fw_next (w_files w))")
  case True
  let ?w1 = "w\<lparr>w_files := (w_files w)\<lparr>fw_next := fw_next (w_files w) + 1\<rparr>\<rparr>"
  have "sys_inv ?w1" using assms(1) fsw_inv_next by (simp add: sys_inv_def)
  moreover have "f (fw_next (w_files w)) ?w1 = (r, w')" using assms(2) True by (simp add: with_id_def Let_def)
  ultimately show thesis using used [of ?w1] True by (simp add: sys_view_def)
next
  case False
  with assms(2) exhausted show thesis by (simp add: with_id_def Let_def)
qed

lemma find_email_append:
  "find_email i (d\<lparr>db_emails := db_emails d @ [r]\<rparr>) = (case find_email i d of Some x \<Rightarrow> Some x | None \<Rightarrow> if er_id r = i then Some r else None)"
proof -
  have "List.find P (xs @ [x]) = (case List.find P xs of Some y \<Rightarrow> Some y | None \<Rightarrow> if P x then Some x else None)" for P and xs :: "email_row list" and x
    by (induction xs) auto
  then show ?thesis by (simp add: find_email_def)
qed

lemma db_view_insert:
  assumes "er_id r \<notin> set (email_ids d)"
  shows "db_view (d\<lparr>db_emails := db_emails d @ [r]\<rparr>) = ((fst (db_view d))(er_id r \<mapsto> (er_key r, row_refs r)), snd (db_view d))"
proof -
  have none: "find_email (er_id r) d = None" using assms find_email_None by blast
  have "map_option (\<lambda>r. (er_key r, row_refs r)) (find_email i (d\<lparr>db_emails := db_emails d @ [r]\<rparr>)) =
      ((fst (db_view d))(er_id r \<mapsto> (er_key r, row_refs r))) i" for i
    using none by (cases "find_email i d") (auto simp: find_email_append db_view_def)
  then show ?thesis by (auto simp: db_view_def)
qed

lemma find_email_without: "find_email i (without_email j d) = (if i = j then None else find_email i d)"
proof -
  have "List.find (\<lambda>r. er_id r = i) (filter (\<lambda>r. er_id r \<noteq> j) xs) = (if i = j then None else List.find (\<lambda>r. er_id r = i) xs)" for xs
    by (induction xs) auto
  from this [of "db_emails d"] show ?thesis by (simp add: find_email_def without_email_def)
qed

lemma db_view_without: "db_view (without_email j d) = ((fst (db_view d))(j := None), snd (db_view d))"
proof -
  have "db_queue (without_email j d) = db_queue d" "db_events (without_email j d) = db_events d"
    by (simp_all add: without_email_def)
  then show ?thesis by (auto simp: db_view_def find_email_without fun_eq_iff)
qed

lemma find_email_with_refs:
  "find_email i (with_refs j refs d) = map_option (\<lambda>r. if er_id r = j then
      r\<lparr>er_body := (case de_body_column (er_body r) of None \<Rightarrow> er_body r
          | Some (source, _) \<Rightarrow> ser_envelope_body source (map attachment_ref_to_dto refs))\<rparr> else r) (find_email i d)"
proof -
  have "List.find (\<lambda>r. er_id r = i) (map (\<lambda>r. if er_id r = j then r\<lparr>er_body := f r\<rparr> else r) xs) =
      map_option (\<lambda>r. if er_id r = j then r\<lparr>er_body := f r\<rparr> else r) (List.find (\<lambda>r. er_id r = i) xs)" for f xs
    by (induction xs) auto
  then show ?thesis by (simp add: find_email_def with_refs_def)
qed

lemma db_view_with_refs:
  assumes "find_email j d = Some r" "de_body_column (er_body r) = Some (src, old)" "\<forall>a\<in>set refs. size_fits a"
  shows "db_view (with_refs j refs d) = ((fst (db_view d))(j \<mapsto> (er_key r, refs)), snd (db_view d))"
proof -
  have refs: "row_refs (r\<lparr>er_body := ser_envelope_body src (map attachment_ref_to_dto refs)\<rparr>) = refs"
    using de_ser_refs [OF assms(3)] by (simp add: row_refs_def)
  have "map_option (\<lambda>r. (er_key r, row_refs r)) (find_email i (with_refs j refs d)) =
      ((fst (db_view d))(j \<mapsto> (er_key r, refs))) i" for i
  proof (cases "i = j")
    case True
    then show ?thesis using assms(1,2) refs find_email_Some [OF assms(1)] by (simp add: find_email_with_refs)
  next
    case False
    then have "er_id x \<noteq> j" if "find_email i d = Some x" for x using find_email_Some [OF that] by simp
    with False show ?thesis by (cases "find_email i d") (simp_all add: find_email_with_refs db_view_def)
  qed
  then show ?thesis by (auto simp: db_view_def)
qed


section \<open>The adapters keep the promises\<close>

lemma sys_save_law:
  assumes "sys_inv w" "env_attachments env = []" "body_ok (env_body env)" "on_db (sqlite_save (w_now w) i env) w = (r, w')"
  shows "sys_inv w' \<and> (case r of
      Inl e \<Rightarrow> sys_view w' = sys_view w
    | Inr (Created j) \<Rightarrow> j = i \<and> v_rows (sys_view w) i = None \<and> key_free (env_idempotency_key env) (sys_view w) \<and>
        sys_view w' = (sys_view w)\<lparr>v_rows := (v_rows (sys_view w))(i \<mapsto> (env_idempotency_key env, []))\<rparr>
    | Inr (Duplicate j) \<Rightarrow> sys_view w' = sys_view w \<and> env_idempotency_key env \<noteq> None \<and>
        (\<exists>refs. v_rows (sys_view w) j = Some (env_idempotency_key env, refs)))"
proof -
  obtain d where d: "sqlite_save (w_now w) i env (w_db w) = (r, d)" "w' = w\<lparr>w_db := d\<rparr>"
    using assms(4) by (auto simp: on_db_run)
  have db: "db_inv (w_db w)" using assms(1) by (simp add: sys_inv_def queue_inv_def)
  have env: "env_ok env" using assms(2,3) by (simp add: env_ok_def)
  have "db_inv d" by (rule save_keeps_inv [OF db env d(1)])
  moreover have "db_queue d = db_queue (w_db w)" using repository_keeps_queue(1) [of "w_now w" i env "w_db w"] d(1) by simp
  ultimately have inv: "sys_inv w'" using assms(1) d(2) queue_inv_weaken by (auto simp: sys_inv_def)
  consider (e) e where "r = Inl e" | (c) j where "r = Inr (Created j)" | (dup) j where "r = Inr (Duplicate j)"
    by (metis sum.exhaust save_result.exhaust)
  then show ?thesis
  proof cases
    case e
    with db_view_same [OF save_error [OF d(1) [unfolded e]]] inv d(2) show ?thesis by (simp add: sys_view_db)
  next
    case c
    let ?row = "email_row_of (w_now w) i env"
    note cr = SqlStore.save_created [OF d(1) [unfolded c]]
    have id: "er_id ?row = i" "er_key ?row = env_idempotency_key env" by (simp_all add: email_row_of_def)
    have refs: "row_refs ?row = []" using assms(2) by (simp add: row_refs_def email_row_of_def de_ser_body_column)
    have fresh: "i \<notin> set (email_ids (w_db w))" using cr id by (simp add: email_conflict_def)
    then have none: "find_email i (w_db w) = None" using find_email_None by blast
    have "db_view d = db_view ((w_db w)\<lparr>db_emails := db_emails (w_db w) @ [?row]\<rparr>)" using cr db_view_same by blast
    also have "\<dots> = ((fst (db_view (w_db w)))(i \<mapsto> (env_idempotency_key env, [])), snd (db_view (w_db w)))"
      using db_view_insert [of ?row "w_db w"] fresh id refs by simp
    finally have vw: "sys_view w' = (sys_view w)\<lparr>v_rows := (v_rows (sys_view w))(i \<mapsto> (env_idempotency_key env, []))\<rparr>"
      using d(2) by (simp add: sys_view_db)
    have "key_free (env_idempotency_key env) (sys_view w)"
      unfolding key_free_def
    proof (cases "env_idempotency_key env")
      case (Some k)
      then have "k \<notin> set (email_keys (w_db w))" using cr id by (simp add: email_conflict_def)
      then have "er_key x \<noteq> Some k" if "find_email j (w_db w) = Some x" for j x
        using find_email_Some [OF that] by (auto simp: email_keys_def set_map_filter)
      with Some show "env_idempotency_key env = None \<or> (\<forall>i refs. v_rows (sys_view w) i \<noteq> Some (env_idempotency_key env, refs))"
        by (auto simp: sys_view_def)
    qed simp
    with cr vw inv none c show ?thesis by (simp add: sys_view_def)
  next
    case dup
    note du = SqlStore.save_duplicate [OF d(1) [unfolded dup]]
    then obtain k x where x: "env_idempotency_key env = Some k" "x \<in> set (db_emails (w_db w))" "er_key x = Some k" "er_id x = j" by blast
    have "find_email j (w_db w) = Some x" using find_email_unique [OF db x(2)] x(4) by simp
    then have "v_rows (sys_view w) j = Some (env_idempotency_key env, row_refs x)" using x by (simp add: sys_view_def)
    with dup du db_view_same [of d "w_db w"] inv d(2) x(1) show ?thesis by (simp add: sys_view_db)
  qed
qed

lemma sys_set_law:
  assumes "sys_inv w" "\<forall>r\<in>set refs. ar_size_bytes r \<le> u64_max" "on_db (sqlite_set_attachments i refs) w = (x, w')"
  shows "sys_inv w' \<and> (case x of
      Inl e \<Rightarrow> sys_view w' = sys_view w
    | Inr u \<Rightarrow> (\<exists>k old. v_rows (sys_view w) i = Some (k, old) \<and>
        sys_view w' = (sys_view w)\<lparr>v_rows := (v_rows (sys_view w))(i \<mapsto> (k, refs))\<rparr>))"
proof -
  obtain d where d: "sqlite_set_attachments i refs (w_db w) = (x, d)" "w' = w\<lparr>w_db := d\<rparr>"
    using assms(3) by (auto simp: on_db_run)
  have db: "db_inv (w_db w)" using assms(1) by (simp add: sys_inv_def queue_inv_def)
  have sizes: "\<forall>a\<in>set refs. size_fits a" using assms(2) by (simp add: size_fits_def)
  have "db_inv d" by (rule set_attachments_keeps_inv [OF db sizes d(1)])
  moreover have "db_queue d = db_queue (w_db w)" using repository_keeps_queue(2) [OF db, of i refs] d(1) by simp
  ultimately have inv: "sys_inv w'" using assms(1) d(2) queue_inv_weaken by (auto simp: sys_inv_def)
  show ?thesis
  proof (cases x)
    case (Inl e)
    with db_view_same [OF set_attachments_error [OF d(1) [unfolded Inl]]] inv d(2) show ?thesis by (simp add: sys_view_db)
  next
    case (Inr u)
    obtain r src old where r: "find_email i (w_db w) = Some r" "de_body_column (er_body r) = Some (src, old)"
      "same_tables d (with_refs i refs (w_db w))" using set_attachments_ok [OF db d(1) [unfolded Inr]] by blast
    have "db_view d = ((fst (db_view (w_db w)))(i \<mapsto> (er_key r, refs)), snd (db_view (w_db w)))"
      using db_view_same [OF r(3)] db_view_with_refs [OF r(1,2) sizes] by simp
    moreover have "v_rows (sys_view w) i = Some (er_key r, row_refs r)" using r(1) by (simp add: sys_view_def)
    ultimately show ?thesis using Inr inv d(2) by (simp add: sys_view_db)
  qed
qed

lemma sys_delete_law:
  assumes "sys_inv w" "on_db (sqlite_delete i) w = (x, w')"
  shows "sys_inv w' \<and> sys_view w' = (if is_ok x then (sys_view w)\<lparr>v_rows := (v_rows (sys_view w))(i := None)\<rparr> else sys_view w)"
proof -
  obtain d where d: "sqlite_delete i (w_db w) = (x, d)" "w' = w\<lparr>w_db := d\<rparr>"
    using assms(2) by (auto simp: on_db_run)
  have db: "db_inv (w_db w)" using assms(1) by (simp add: sys_inv_def queue_inv_def)
  have "db_inv d" by (rule delete_keeps_inv [OF db d(1)])
  moreover have "db_queue d = db_queue (w_db w)" using repository_keeps_queue(3) [OF db, of i] d(1) by simp
  ultimately have inv: "sys_inv w'" using assms(1) d(2) queue_inv_weaken by (auto simp: sys_inv_def)
  show ?thesis
  proof (cases x)
    case (Inl e)
    with db_view_same [OF delete_error [OF d(1) [unfolded Inl]]] inv d(2) show ?thesis by (simp add: sys_view_db)
  next
    case (Inr u)
    with db_view_same [of d "without_email i (w_db w)"] delete_ok [OF db d(1) [unfolded Inr]] inv d(2)
    show ?thesis by (simp add: sys_view_db db_view_without)
  qed
qed

lemma sys_enqueue_law:
  assumes "sys_inv w" "sp_enqueue (sys_ports fetch) i env w = (x, w')"
  shows "sys_inv w' \<and> sys_view w' = (if is_ok x then (sys_view w)\<lparr>v_jobs := v_jobs (sys_view w) @ [i]\<rparr> else sys_view w)"
proof -
  from assms(2) have "with_id (QueueStorage ''no more ids'') (\<lambda>u w. on_db (sqlite_enqueue (w_now w) u [] i env) w) w = (x, w')"
    by (simp add: sys_ports_def)
  with assms(1) show ?thesis
  proof (cases rule: with_id_run)
    case (used w1)
    let ?u = "fw_next (w_files w)"
    obtain d where d: "sqlite_enqueue (w_now w1) ?u [] i env (w_db w1) = (x, d)" "w' = w1\<lparr>w_db := d\<rparr>"
      using used(2) by (auto simp: on_db_run)
    have q: "queue_inv (w_db w1)" using used(3) by (simp add: sys_inv_def)
    have inv: "sys_inv w'" using sqlite_enqueue_law [OF q used(1) d(1)] used(3) d(2) by (simp add: sys_inv_def)
    show ?thesis
    proof (cases x)
      case (Inl e)
      with db_view_same [OF sqlite_enqueue_err [OF d(1) [unfolded Inl]]] inv d(2) used(4) show ?thesis by (simp add: sys_view_db)
    next
      case (Inr u')
      have "db_view d = db_view ((w_db w1)\<lparr>db_queue := db_queue (w_db w1) @ [queue_row_of (w_now w1) ?u [] i]\<rparr>)"
        using sqlite_enqueue_ok [OF d(1) [unfolded Inr]] db_view_same by blast
      also have "\<dots> = (fst (db_view (w_db w1)), fst (snd (db_view (w_db w1))) @ [i], snd (snd (db_view (w_db w1))))"
        by (simp add: db_view_def find_email_def queue_row_of_def)
      finally show ?thesis using Inr inv d(2) used(4) by (simp add: sys_view_db)
    qed
  next
    case exhausted
    with assms(1) show ?thesis by simp
  qed
qed

lemma sys_publish_law:
  assumes "sys_inv w" "sp_publish (sys_ports fetch) ev w = (x, w')"
  shows "sys_inv w' \<and> (\<exists>evs. set evs \<subseteq> {event_mark ev} \<and> sys_view w' = (sys_view w)\<lparr>v_events := v_events (sys_view w) @ evs\<rparr>)"
proof -
  have same: "\<exists>evs. set evs \<subseteq> {event_mark ev} \<and> sys_view w = (sys_view w)\<lparr>v_events := v_events (sys_view w) @ evs\<rparr>"
    by (rule exI [of _ "[]"]) simp
  from assms(2) have "with_id (PublishError ''no more ids'') (\<lambda>u w. on_db (sqlite_publish (w_now w) u ev) w) w = (x, w')"
    by (simp add: sys_ports_def)
  with assms(1) show ?thesis
  proof (cases rule: with_id_run)
    case (used w1)
    let ?u = "fw_next (w_files w)"
    obtain d where d: "sqlite_publish (w_now w1) ?u ev (w_db w1) = (x, d)" "w' = w1\<lparr>w_db := d\<rparr>"
      using used(2) by (auto simp: on_db_run)
    have q: "queue_inv (w_db w1)" "db_inv (w_db w1)" using used(3) by (simp_all add: sys_inv_def queue_inv_def)
    have "db_inv d" by (rule publish_keeps_inv [OF q(2) d(1)])
    moreover have "db_queue d = db_queue (w_db w1)" using repository_keeps_queue(4) [of "w_now w1" ?u ev "w_db w1"] d(1) by simp
    ultimately have inv: "sys_inv w'" using used(3) d(2) queue_inv_weaken by (auto simp: sys_inv_def)
    show ?thesis
    proof (cases x)
      case (Inl e)
      with db_view_same [OF publish_error [OF d(1) [unfolded Inl]]] inv d(2) used(4) same show ?thesis by (simp add: sys_view_db)
    next
      case (Inr u')
      have "db_view d = db_view ((w_db w1)\<lparr>db_events := db_events (w_db w1) @ [event_row_of (w_now w1) ?u ev]\<rparr>)"
        using publish_ok [OF d(1) [unfolded Inr]] db_view_same by blast
      also have "\<dots> = (fst (db_view (w_db w1)), fst (snd (db_view (w_db w1))), snd (snd (db_view (w_db w1))) @ [event_mark ev])"
        by (simp add: db_view_def find_email_def event_row_of_def event_mark_def)
      finally have "sys_view w' = (sys_view w)\<lparr>v_events := v_events (sys_view w) @ [event_mark ev]\<rparr>"
        using d(2) used(4) by (simp add: sys_view_db)
      with inv show ?thesis by (intro conjI exI [of _ "[event_mark ev]"]) auto
    qed
  next
    case exhausted
    with assms(1) same show ?thesis by simp
  qed
qed

lemma sys_view_files: "sys_view (w\<lparr>w_files := d\<rparr>) = (sys_view w)\<lparr>v_blobs := fs_stored (fw_fs d)\<rparr>"
  by (simp add: sys_view_def)

lemma sys_put_law:
  assumes "sys_inv w" "on_files (fsw_put rd) w = (x, w')"
  shows "sys_inv w' \<and> (case x of
      Inr r \<Rightarrow> fs_own (pr_blob r) \<and> reader_error rd = None \<and> v_blobs (sys_view w) (pr_blob r) = None \<and>
        pr_size_bytes r = length (reader_bytes rd) \<and> pr_size_bytes r \<le> u64_max \<and>
        sys_view w' = (sys_view w)\<lparr>v_blobs := (v_blobs (sys_view w))(pr_blob r \<mapsto> reader_bytes rd)\<rparr>
    | Inl e \<Rightarrow> (\<exists>B. v_blobs (sys_view w) \<subseteq>\<^sub>m B \<and> sys_view w' = (sys_view w)\<lparr>v_blobs := B\<rparr>))"
proof -
  obtain d where d: "fsw_put rd (w_files w) = (x, d)" "w' = w\<lparr>w_files := d\<rparr>" using assms(2) by (auto simp: on_files_run)
  have "fsw_inv (w_files w)" using assms(1) by (simp add: sys_inv_def)
  note law = fsw_put_law [OF this d(1)]
  have "sys_inv w'" using law assms(1) d(2) by (simp add: sys_inv_def)
  moreover have "v_blobs (sys_view w) = fs_stored (fw_fs (w_files w))" by (simp add: sys_view_def)
  ultimately show ?thesis
    using law d(2) by (cases x) (auto simp: sys_view_files)
qed

lemma sys_delete_blob_law:
  assumes "sys_inv w" "fs_own b" "on_files (fsw_delete b) w = (x, w')"
  shows "sys_inv w' \<and> sys_view w' = (if is_ok x then (sys_view w)\<lparr>v_blobs := (v_blobs (sys_view w))(b := None)\<rparr> else sys_view w)"
proof -
  obtain d where d: "fsw_delete b (w_files w) = (x, d)" "w' = w\<lparr>w_files := d\<rparr>" using assms(3) by (auto simp: on_files_run)
  have "fsw_inv (w_files w)" using assms(1) by (simp add: sys_inv_def)
  note law = fsw_delete_law [OF this assms(2) d(1)]
  have "sys_inv w'" using law assms(1) d(2) by (simp add: sys_inv_def)
  moreover have "v_blobs (sys_view w) = fs_stored (fw_fs (w_files w))" by (simp add: sys_view_def)
  moreover have "sys_view w = (sys_view w)\<lparr>v_blobs := fs_stored (fw_fs (w_files w))\<rparr>" by (simp add: sys_view_def)
  ultimately show ?thesis
    using law d(2) by (cases x) (auto simp: sys_view_files)
qed

lemma sys_integrity: "sys_inv w \<Longrightarrow> set (v_jobs (sys_view w)) \<union> fst ` set (v_events (sys_view w)) \<subseteq> dom (v_rows (sys_view w))"
proof -
  assume "sys_inv w"
  then have "qr_email ` set (db_queue (w_db w)) \<subseteq> set (email_ids (w_db w))" "vr_email ` set (db_events (w_db w)) \<subseteq> set (email_ids (w_db w))"
    by (simp_all add: sys_inv_def queue_inv_def db_inv_def)
  moreover have "dom (v_rows (sys_view w)) = set (email_ids (w_db w))"
    using find_email_None [of _ "w_db w"] by (auto simp: sys_view_def dom_def)
  ultimately show ?thesis by (auto simp: sys_view_def)
qed

interpretation stack: submit_laws "sys_ports fetch" sys_view sys_inv fs_own for fetch
proof (unfold_locales, goal_cases)
  case (1 w env i j w')
  then show ?case using sys_save_law [of w env i "Inr (Created j)" w'] by (simp add: sys_ports_def)
next
  case (2 w env i j w')
  then show ?case using sys_save_law [of w env i "Inr (Duplicate j)" w'] by (simp add: sys_ports_def)
next
  case (3 w env i e w')
  then show ?case using sys_save_law [of w env i "Inl e" w'] by (simp add: sys_ports_def)
next
  case (4 w refs i u w')
  then show ?case using sys_set_law [of w refs i "Inr u" w'] by (simp add: sys_ports_def)
next
  case (5 w refs i e w')
  then show ?case using sys_set_law [of w refs i "Inl e" w'] by (simp add: sys_ports_def)
next
  case (6 w i u w')
  then show ?case using sys_delete_law [of w i "Inr u" w'] by (simp add: sys_ports_def)
next
  case (7 w i e w')
  then show ?case using sys_delete_law [of w i "Inl e" w'] by (simp add: sys_ports_def)
next
  case (8 w i env u w')
  then show ?case using sys_enqueue_law [of w fetch i env "Inr u" w'] by simp
next
  case (9 w i env e w')
  then show ?case using sys_enqueue_law [of w fetch i env "Inl e" w'] by simp
next
  case (10 w ev x w')
  then show ?case by (rule sys_publish_law)
next
  case (11 w rd r w')
  then show ?case using sys_put_law [of w rd "Inr r" w'] by (simp add: sys_ports_def)
next
  case (12 w rd e w')
  then show ?case using sys_put_law [of w rd "Inl e" w'] by (simp add: sys_ports_def)
next
  case (13 w b u w')
  then show ?case using sys_delete_blob_law [of w b "Inr u" w'] by (simp add: sys_ports_def)
next
  case (14 w b e w')
  then show ?case using sys_delete_blob_law [of w b "Inl e" w'] by (simp add: sys_ports_def)
next
  case (15 w)
  then show ?case by (rule sys_integrity)
next
  case (16 w ur fr w')
  then show ?case by (simp add: sys_ports_def)
qed

section \<open>Without faults\<close>

definition fault_free :: "world \<Rightarrow> bool" where
  "fault_free w \<longleftrightarrow> db_faults (w_db w) = [] \<and> fs_faults (fw_fs (w_files w)) = []"

lemma calm_stmt: "(\<And>d a d'. f d = Some (a, d') \<Longrightarrow> db_faults d' = db_faults d) \<Longrightarrow> keeps_st (\<lambda>d. db_faults d = []) (stmt ctx f)"
  by (fastforce simp: keeps_st_def stmt_def Let_def split: option.splits)

lemma calm_in_tx: "keeps_st (\<lambda>d. db_faults d = []) f \<Longrightarrow> keeps_st (\<lambda>d. db_faults d = []) (in_tx f)"
  by (auto simp: keeps_st_def in_tx_def split: prod.splits sum.splits)

lemmas calm_rules = calm_stmt calm_in_tx keeps_map_err keeps_and_then keeps_done keeps_cases

lemma calm_sqlite:
  "keeps_st (\<lambda>d. db_faults d = []) (sqlite_save now i env)"
  "keeps_st (\<lambda>d. db_faults d = []) (sqlite_set_attachments i refs)"
  "keeps_st (\<lambda>d. db_faults d = []) (sqlite_delete i)"
  "keeps_st (\<lambda>d. db_faults d = []) (sqlite_enqueue now entry ps i env)"
  "keeps_st (\<lambda>d. db_faults d = []) (sqlite_publish now entry ev)"
proof -
  show "keeps_st (\<lambda>d. db_faults d = []) (sqlite_save now i env)"
    unfolding sqlite_save_def
    by (intro calm_rules)
      (auto simp: insert_or_ignore_email_def select_id_by_key_def split: if_splits option.splits)
  show "keeps_st (\<lambda>d. db_faults d = []) (sqlite_set_attachments i refs)"
    unfolding sqlite_set_attachments_def
    by (intro calm_rules)
      (auto simp: nop_def select_body_def update_body_def split: if_splits option.splits)
  show "keeps_st (\<lambda>d. db_faults d = []) (sqlite_delete i)"
    unfolding sqlite_delete_def by (intro calm_rules) (auto simp: delete_email_row_def split: if_splits)
  show "keeps_st (\<lambda>d. db_faults d = []) (sqlite_enqueue now entry ps i env)"
    unfolding sqlite_enqueue_def by (intro calm_rules) (auto simp: insert_entry_def split: if_splits)
  show "keeps_st (\<lambda>d. db_faults d = []) (sqlite_publish now entry ev)"
    unfolding sqlite_publish_def by (intro calm_rules) (auto simp: insert_event_def split: if_splits)
qed

lemma calm_io: "(\<And>d. fs_faults (snd (f d)) = fs_faults d) \<Longrightarrow> keeps_st (\<lambda>d. fs_faults d = []) (io ctx f)"
  by (fastforce simp: keeps_st_def io_def Let_def split: prod.splits sum.splits dest: arg_cong [where f = snd])

lemma calm_fs:
  "keeps_st (\<lambda>d. fs_faults d = []) (fs_put key tmp now rd)"
  "keeps_st (\<lambda>d. fs_faults d = []) (fs_delete b)"
proof -
  have w: "keeps_st (\<lambda>d. fs_faults d = []) (write_committed tmp rd key now)"
    unfolding write_committed_def
    by (intro calm_io keeps_map_err keeps_and_then keeps_done)
      (auto simp: create_tmp_def copy_to_tmp_def Let_def quiet_def rename_tmp_def split: option.splits)
  have r: "keeps_st (\<lambda>d. fs_faults d = []) (io [] (remove_tmp tmp))"
    by (rule calm_io) (simp add: remove_tmp_def)
  show "keeps_st (\<lambda>d. fs_faults d = []) (fs_put key tmp now rd)"
  proof (unfold keeps_st_def, intro allI impI)
    fix s :: fs_state assume s: "fs_faults s = []"
    obtain y d where y: "write_committed tmp rd key now s = (y, d)" by fastforce
    have "fs_faults d = []" using keeps_stD [OF w s] y by simp
    with keeps_stD [OF r this] y show "fs_faults (snd (fs_put key tmp now rd s)) = []"
      by (cases y) (simp_all add: fs_put_def)
  qed
  show "keeps_st (\<lambda>d. fs_faults d = []) (fs_delete b)"
    unfolding fs_delete_def
    by (auto intro!: calm_io keeps_map_err keeps_done simp: remove_blob_def split: option.splits fs_entry.splits)
qed

lemma fault_free_db: "keeps_st (\<lambda>d. db_faults d = []) f \<Longrightarrow> fault_free w \<Longrightarrow> fault_free (snd (on_db f w))"
  by (auto simp: fault_free_def on_db_def split: prod.splits dest!: keeps_stD)

lemma fault_free_id: "(\<And>u w. fault_free w \<Longrightarrow> fault_free (snd (f u w))) \<Longrightarrow> fault_free w \<Longrightarrow> fault_free (snd (with_id e f w))"
  by (simp add: with_id_def Let_def) (simp add: fault_free_def)

lemma fault_free_ports:
  assumes "fault_free w"
  shows "fault_free (snd (sp_save (sys_ports fetch) i env w))" "fault_free (snd (sp_set_attachments (sys_ports fetch) i refs w))"
    "fault_free (snd (sp_delete_email (sys_ports fetch) i w))" "fault_free (snd (sp_enqueue (sys_ports fetch) i env w))"
    "fault_free (snd (sp_publish (sys_ports fetch) ev w))" "fault_free (snd (sp_put (sys_ports fetch) rd w))"
    "fault_free (snd (sp_delete_blob (sys_ports fetch) b w))" "fault_free (snd (sp_fetch (sys_ports fetch) u w))"
proof -
  show "fault_free (snd (sp_save (sys_ports fetch) i env w))" "fault_free (snd (sp_set_attachments (sys_ports fetch) i refs w))"
    "fault_free (snd (sp_delete_email (sys_ports fetch) i w))" "fault_free (snd (sp_enqueue (sys_ports fetch) i env w))"
    "fault_free (snd (sp_publish (sys_ports fetch) ev w))" "fault_free (snd (sp_fetch (sys_ports fetch) u w))"
    using assms by (auto simp: sys_ports_def intro!: fault_free_db fault_free_id calm_sqlite)
  have fs: "fs_faults (fw_fs (w_files w)) = []" "db_faults (w_db w) = []" using assms by (simp_all add: fault_free_def)
  show "fault_free (snd (sp_put (sys_ports fetch) rd w))"
    using keeps_stD [OF calm_fs(1) fs(1)] fs
    by (auto simp: sys_ports_def fault_free_def on_files_def fsw_put_def case_prod_beta Let_def)
  show "fault_free (snd (sp_delete_blob (sys_ports fetch) b w))"
    using keeps_stD [OF calm_fs(2) fs(1)] fs
    by (auto simp: sys_ports_def fault_free_def on_files_def fsw_delete_def case_prod_beta Let_def)
qed

lemma io_calm: "fs_faults s = [] \<Longrightarrow> io ctx f s = (case f s of (Inl _, d) \<Rightarrow> (Inl ctx, d) | (Inr a, d) \<Rightarrow> (Inr a, d))"
  by (cases s) (simp add: io_def)

lemma write_committed_calm:
  assumes "fs_faults s = []" "write_committed tmp rd key now s = (Inl e, d)"
  shows "fs_root d = fs_root s"
proof -
  let ?s1 = "s\<lparr>fs_tmp := AList.update tmp (FileEntry [] (Some now)) (fs_tmp s)\<rparr>"
  have 1: "io ''failed to create tmp file'' (create_tmp tmp now) s = (Inr (), ?s1)"
    by (simp add: io_calm assms(1) create_tmp_def)
  obtain x s2 where c: "copy_to_tmp tmp rd now ?s1 = (x, s2)" by fastforce
  have s2: "fs_root s2 = fs_root s" "fs_faults s2 = []" "x = Inr n \<Longrightarrow> map_of (fs_tmp s2) tmp \<noteq> None" for n
    using c assms(1) by (auto simp: copy_to_tmp_def Let_def alist_maps split: if_splits)
  show ?thesis
  proof (cases x)
    case (Inl u)
    with 1 c assms s2 show ?thesis
      by (simp add: write_committed_def and_then_def map_err_st_def io_calm [of ?s1])
  next
    case (Inr n)
    then obtain f where f: "map_of (fs_tmp s2) tmp = Some f" using s2(3) by blast
    let ?s3 = "s2\<lparr>fs_tmp := AList.delete tmp (fs_tmp s2), fs_root := AList.update key f (fs_root s2)\<rparr>"
    have "fst (write_committed tmp rd key now s) = Inr n"
      using 1 c Inr assms(1) s2(2) f
      by (simp add: write_committed_def and_then_def map_err_st_def io_calm [of ?s1] io_calm [of s2] io_calm [of ?s3]
          quiet_def rename_tmp_def done_with_def)
    with assms(2) show ?thesis by simp
  qed
qed

lemma fsw_put_calm:
  assumes "fs_faults (fw_fs w) = []" "fsw_put rd w = (Inl e, w')"
  shows "fs_stored (fw_fs w') = fs_stored (fw_fs w)"
proof (cases "uuid_ok (fw_next w + 1)")
  case True
  let ?key = "uuid_simple (fw_next w)" and ?tmp = "uuid_simple (fw_next w + 1)"
  obtain x d where x: "write_committed ?tmp rd ?key (fw_now w) (fw_fs w) = (x, d)" by fastforce
  show ?thesis
  proof (cases x)
    case (Inl e')
    obtain z d2 where r: "io [] (remove_tmp ?tmp) d = (z, d2)" by fastforce
    have "fs_root d2 = fs_root (fw_fs w)"
      using write_committed_calm [OF assms(1) x [unfolded Inl]] remove_tmp_step [OF r] by simp
    then have "fs_stored d2 = fs_stored (fw_fs w)" by (rule fs_stored_root)
    with assms(2) True x Inl r show ?thesis by (auto simp: fsw_put_def fs_put_def)
  next
    case (Inr n)
    with assms(2) True x show ?thesis by (auto simp: fsw_put_def fs_put_def)
  qed
next
  case False
  with assms(2) show ?thesis by (simp add: fsw_put_def)
qed

lemma fsw_delete_calm:
  assumes "fs_faults (fw_fs w) = []" "fsw_inv w" "fs_own b"
  shows "is_ok (fst (fsw_delete b w))"
proof -
  have safe: "\<not> is_dangerous_key (blob_key b)" "\<not> hidden (blob_key b)"
    using assms(3) by (auto simp: fs_own_def is_dangerous_key_def hidden_def)
  have "map_of (fs_root (fw_fs w)) (blob_key b) \<noteq> Some DirEntry"
    using assms(2) safe(2) by (auto simp: fsw_inv_def fs_ok_def is_plain_file_def split: fs_entry.splits)
  then show ?thesis
    using safe(1) assms(1)
    by (auto simp: fsw_delete_def fs_delete_def map_err_st_def io_calm remove_blob_def case_prod_beta
        split: option.splits fs_entry.splits)
qed

lemma sqlite_delete_calm:
  assumes "db_faults d = []" "i \<notin> qr_email ` set (db_queue d)" "i \<notin> vr_email ` set (db_events d)"
  shows "is_ok (fst (sqlite_delete i d))"
proof -
  have "stmt ''deleting email'' (delete_email_row i) d =
      (Inr (length (filter (\<lambda>r. er_id r = i) (db_emails d))), d\<lparr>db_emails := filter (\<lambda>r. er_id r \<noteq> i) (db_emails d)\<rparr>)"
    using assms by (intro stmt_ok) (auto simp: delete_email_row_def)
  then show ?thesis by (simp add: sqlite_delete_def and_then_def done_with_def map_err_st_def)
qed

interpretation calm: submit_reliable "sys_ports fetch" sys_view "\<lambda>w. sys_inv w \<and> fault_free w" fs_own for fetch
proof (rule submit_reliable.intro)
  show "submit_laws (sys_ports fetch) sys_view (\<lambda>w. sys_inv w \<and> fault_free w) fs_own"
    by (rule stack.strengthen) (rule fault_free_ports, assumption)+
  show "submit_reliable_axioms (sys_ports fetch) sys_view (\<lambda>w. sys_inv w \<and> fault_free w) fs_own"
  proof (unfold_locales, goal_cases)
  case (1 w b)
  then show ?case using fsw_delete_calm [of "w_files w" b]
    by (auto simp: sys_ports_def on_files_def fault_free_def sys_inv_def case_prod_beta)
next
  case (2 w j)
  have "j \<notin> qr_email ` set (db_queue (w_db w))" "j \<notin> vr_email ` set (db_events (w_db w))"
    using 2 by (simp_all add: sys_view_def image_image)
  with 2(1) sqlite_delete_calm [of "w_db w" j] show ?case
    by (auto simp: sys_ports_def on_db_def fault_free_def case_prod_beta)
next
  case (3 w rd se w')
  then obtain d where d: "fsw_put rd (w_files w) = (Inl se, d)" "w' = w\<lparr>w_files := d\<rparr>"
    by (auto simp: sys_ports_def on_files_run)
  have "fs_stored (fw_fs d) = fs_stored (fw_fs (w_files w))" using 3(1) by (intro fsw_put_calm [OF _ d(1)]) (simp add: fault_free_def)
  with d(2) show ?case by (simp add: sys_view_files) (simp add: sys_view_def)
qed
qed

section \<open>A sample\<close>

definition empty_world :: world where
  "empty_world = \<lparr>w_db = empty_db, w_files = empty_fs\<rparr>"

definition sample_input :: submit_email_input where
  "sample_input = \<lparr>si_idempotency_key = Some ''k'', si_correlation_id = None, si_subject = None, si_sender = ''a@b.c'',
     si_recipients = [(To, ''d@e.f'')], si_body = BodyPlain \<lparr>plain_text = Some ''hello'', plain_html = None\<rparr>, si_variables = [],
     si_attachments = [InlineInput ''f'' ''t'' [1, 2, 3]]\<rparr>"

lemma sample_save: "sqlite_save now i env empty_db = (Inr (Created i), empty_db\<lparr>db_emails := [email_row_of now i env]\<rparr>)"
  using save_fresh [of empty_db now i env] by (simp add: empty_db_def email_conflict_def email_ids_def email_keys_def List.map_filter_def split: option.splits)

lemma fsw_put_run:
  assumes "fs_faults (fw_fs w) = []" "uuid_ok (fw_next w + 1)" "length bs \<le> max_file_size"
  shows "\<exists>d. fsw_put (Reader bs None) w = (Inr \<lparr>pr_blob = \<lparr>blob_backend = ''fs'', blob_key = uuid_simple (fw_next w)\<rparr>, pr_size_bytes = length bs\<rparr>,
    w\<lparr>fw_fs := d, fw_next := fw_next w + 2\<rparr>) \<and> fs_faults d = []"
  using assms 
  by (simp add: fsw_put_def fs_put_def write_committed_def map_err_st_def and_then_def
      io_calm create_tmp_def copy_to_tmp_def Let_def quiet_def rename_tmp_def done_with_def alist_maps)
   (rule exI, rule conjI, rule refl, simp)

lemma sample_set: 
  assumes "env_ok env"
  shows "sqlite_set_attachments i refs (empty_db\<lparr>db_emails := [email_row_of now i env]\<rparr>) = 
    (Inr (), with_refs i refs (empty_db\<lparr>db_emails := [email_row_of now i env]\<rparr>))"
proof (rule set_attachments_run)
  show "db_inv (empty_db\<lparr>db_emails := [email_row_of now i env]\<rparr>)"
    by (rule save_keeps_inv [OF db_inv_empty assms sample_save])
qed (simp_all add: empty_db_def find_email_def email_row_of_def)

lemma sample_submit: "\<exists>w. submit_execute (sys_ports fetch) (EmailId 7) sample_input empty_world = (Inr (EmailId 7), w)"
proof -
  let ?env = "envelope_of_input sample_input []"
  have ok: "env_ok ?env" by (simp add: env_ok_def envelope_of_input_def sample_input_def plain_ok_def)
  obtain d where d: "fsw_put (cursor [1, 2, 3]) empty_fs = (Inr \<lparr>pr_blob = \<lparr>blob_backend = ''fs'', blob_key = uuid_simple 0\<rparr>, pr_size_bytes = 3\<rparr>,
     empty_fs\<lparr>fw_fs := d, fw_next := 2\<rparr>)"
    using fsw_put_run [of empty_fs "[1, 2, 3]"] by (auto simp: empty_fs_def uuid_ok_def max_file_size_def cursor_def numeral_2_eq_2)
  have e: "fst (sqlite_enqueue now u [] i env (with_refs i refs (empty_db\<lparr>db_emails := [email_row_of t i ?env]\<rparr>))) = Inr ()" for now t u i env refs
    by (simp add: sqlite_enqueue_def map_err_st_def and_then_def stmt_def insert_entry_def with_refs_def empty_db_def queue_row_of_def email_ids_def
         email_row_of_def done_with_def)
  have refs: "si_attachments sample_input = [InlineInput ''f'' ''t'' [1, 2, 3]]" by (simp add: sample_input_def)
  show ?thesis
    using d e sample_save sample_set [OF ok]
    by (simp add: submit_execute_def sys_ports_def on_db_def on_files_def with_id_def open_input_def record_refs_def refs
       w_now_def empty_world_def uuid_ok_def case_prod_beta Let_def)
qed

lemma empty_world_inv: "sys_inv empty_world" "fault_free empty_world"
proof -
  have "queue_inv empty_db" by (simp add: queue_inv_def) (simp add: empty_db_def)
  then show "sys_inv empty_world" by (simp add: sys_inv_def empty_world_def empty_fs_inv)
  show "fault_free empty_world" by (simp add: fault_free_def empty_world_def empty_db_def empty_fs_def)
qed

text \<open>No remote attachments.\<close>

definition no_fetch :: "url \<Rightarrow> attachment_fetch_error + reader" where
  "no_fetch u = Inl (FetchFailed ''no network'')"

section \<open>Submissions\<close>

text \<open>C5: A submission that reports success either is an idempotent resubmission, which changes nothing and returns the id of
  the email saved under the same key, or it did everything: a new row under the id returned, whose recorded references
  match the attachments submitted, in order, and point to stored blobs of the recorded size; exactly one new queue
  entry, after all others; at most the \<open>queued\<close> event; and no other row, blob, entry or event changed.\<close>

theorem submit_success:
  assumes "sys_inv w" "body_ok (si_body input)" "submit_execute (sys_ports fetch) i input w = (Inr j, w')"
  shows "sys_inv w' \<and>
    (sys_view w' = sys_view w \<and> si_idempotency_key input \<noteq> None \<and>
       (\<exists>refs. v_rows (sys_view w) j = Some (si_idempotency_key input, refs))
     \<or> j = i \<and> v_rows (sys_view w) i = None \<and> key_free (si_idempotency_key input) (sys_view w) \<and>
       (\<exists>refs new evs. dom new = ar_blob ` set refs \<and> dom new \<inter> dom (v_blobs (sys_view w)) = {} \<and>
          set evs \<subseteq> {event_mark (Queued i (si_correlation_id input))} \<and> refs_stored refs (sys_view w') \<and>
          list_all2 (ref_matches (sys_view w')) (si_attachments input) refs \<and>
          sys_view w' = (view_after_submit i input refs new (sys_view w))\<lparr>v_events := v_events (sys_view w) @ evs\<rparr>))"
  using assms by (rule stack.submit_Ok)

text \<open>C6: A submission that reports an error, at whatever step and whichever statements and system calls fail, including
  those of the clean-up, leaves no queue entry and no event, changes no other email's row and loses no stored blob.\<close>

theorem submit_failure_safe:
  assumes "sys_inv w" "body_ok (si_body input)" "submit_execute (sys_ports fetch) i input w = (Inl e, w')"
  shows "sys_inv w' \<and> v_jobs (sys_view w') = v_jobs (sys_view w) \<and> v_events (sys_view w') = v_events (sys_view w) \<and>
    (\<forall>j. j \<noteq> i \<longrightarrow> v_rows (sys_view w') j = v_rows (sys_view w) j) \<and> v_blobs (sys_view w) \<subseteq>\<^sub>m v_blobs (sys_view w')"
  using assms by (rule stack.submit_Err)

text \<open>C7: When the database and the file system do not fail, a submission that is rejected (a reader that breaks off, an
  attachment that cannot be fetched, an id already taken) leaves no trace at all: rows, blobs, queue and events are
  what they were.\<close>

theorem submit_failure_clean:
  assumes "sys_inv w" "db_faults (w_db w) = []" "fs_faults (fw_fs (w_files w)) = []" "body_ok (si_body input)"
    and "submit_execute (sys_ports fetch) i input w = (Inl e, w')"
  shows "sys_view w' = sys_view w"
  using assms(1,2,3) by (intro calm.submit_Err_clean [OF _ assms(4,5)]) (simp add: fault_free_def)

theorem submit_success_witness:
  "\<exists>w'. submit_execute (sys_ports no_fetch) (EmailId 7) sample_input empty_world = (Inr (EmailId 7), w') \<and>
     (sys_view w' = sys_view empty_world \<or> v_jobs (sys_view w') = [EmailId 7])"
proof -
  obtain w' where w': "submit_execute (sys_ports no_fetch) (EmailId 7) sample_input empty_world = (Inr (EmailId 7), w')"
    using sample_submit by blast
  have "body_ok (si_body sample_input)" by (simp add: sample_input_def plain_ok_def)
  moreover have "v_jobs (sys_view empty_world) = []" by (simp add: sys_view_def empty_world_def empty_db_def)
  ultimately show ?thesis using submit_success [OF empty_world_inv(1) _ w'] w' by (auto simp: view_after_submit_def)
qed

text \<open>A reader that breaks off after two bytes.\<close>

definition broken_input :: submit_email_input where
  "broken_input = sample_input\<lparr>si_attachments := [StreamInput ''f'' ''t'' (Reader [1, 2] (Some ''broken pipe''))]\<rparr>"

lemma broken_submit: "\<exists>e w. submit_execute (sys_ports fetch) (EmailId 7) broken_input empty_world = (Inl e, w)"
proof -
  have "\<exists>e. fst (fsw_put (Reader [1, 2] (Some ''broken pipe'')) empty_fs) = Inl e"
    by (simp add: fsw_put_def fs_put_def write_committed_def map_err_st_def and_then_def empty_fs_def uuid_ok_def
        io_calm create_tmp_def copy_to_tmp_def Let_def case_prod_beta)
  then show ?thesis
    using sample_save
    by (auto simp: submit_execute_def sys_ports_def on_db_def on_files_def open_input_def broken_input_def sample_input_def
        w_now_def empty_world_def case_prod_beta Let_def)
qed

lemma broken_body: "body_ok (si_body broken_input)"
  by (simp add: broken_input_def sample_input_def plain_ok_def)

theorem submit_failure_safe_witness:
  "v_jobs (sys_view (snd (submit_execute (sys_ports no_fetch) (EmailId 7) broken_input empty_world))) = []"
proof -
  obtain e w' where w': "submit_execute (sys_ports no_fetch) (EmailId 7) broken_input empty_world = (Inl e, w')"
    using broken_submit by blast
  from submit_failure_safe [OF empty_world_inv(1) broken_body w'] w' show ?thesis
    by (simp add: sys_view_def empty_world_def empty_db_def)
qed

theorem submit_failure_clean_witness:
  "sys_view (snd (submit_execute (sys_ports no_fetch) (EmailId 7) broken_input empty_world)) = sys_view empty_world"
proof -
  obtain e w' where w': "submit_execute (sys_ports no_fetch) (EmailId 7) broken_input empty_world = (Inl e, w')"
    using broken_submit by blast
  from submit_failure_clean [OF empty_world_inv(1) _ _ broken_body w'] empty_world_inv(2) w' show ?thesis
    by (simp add: fault_free_def)
qed

section \<open>Garbage collection\<close>

text \<open>The collector's ports on this system; the list says what each look at the cancellation token sees.\<close>

definition sys_gc :: "(world \<times> bool list) gc_ports" where
  "sys_gc =
     \<lparr>gp_backend = ''fs'',
      gp_list_blobs = (\<lambda>(w, cs). let (r, w') = on_db sqlite_list_all_attachment_blobs w in (r, w', cs)),
      gp_list_old = (\<lambda>age (w, cs). let (r, w') = on_files (\<lambda>f. let (r, d) = fs_list_keys_older_than (fw_now f) age (fw_fs f)
          in (r, f\<lparr>fw_fs := d\<rparr>)) w in (r, w', cs)),
      gp_delete = (\<lambda>b (w, cs). let (r, w') = on_files (fsw_delete b) w in (r, w', cs)),
      gp_cancelled = (\<lambda>(w, cs). case cs of [] \<Rightarrow> (False, w, []) | c # cs' \<Rightarrow> (c, w, cs'))\<rparr>"

text \<open>In use: some email whose latest event is not terminal refers to it.  Old: its file was modified at
  least the grace period ago.\<close>

definition blob_in_use :: "world \<Rightarrow> blob_ref \<Rightarrow> bool" where
  "blob_in_use w b \<longleftrightarrow> (\<exists>r\<in>set (db_emails (w_db w)). b \<in> ar_blob ` set (row_refs r) \<and>
     latest_event_type (er_id r) (w_db w) \<notin> {''delivery.succeeded'', ''delivery.failed''})"

definition blob_is_old :: "int \<Rightarrow> world \<Rightarrow> blob_ref \<Rightarrow> bool" where
  "blob_is_old grace w b \<longleftrightarrow>
     (\<exists>e. map_of (fs_root (fw_fs (w_files w))) (blob_key b) = Some e \<and> old_enough (w_now w) grace e)"

text \<open>What a sweep may have done so far: nothing but remove files that are listed and not in use.\<close>

definition swept :: "world \<Rightarrow> (blob_ref \<Rightarrow> bool) \<Rightarrow> world \<times> bool list \<Rightarrow> bool" where
  "swept w dead = (\<lambda>(w', _). sys_inv w' \<and> same_tables (w_db w') (w_db w) \<and> w_now w' = w_now w \<and>
     (\<forall>b. fs_stored (fw_fs (w_files w')) b = fs_stored (fw_fs (w_files w)) b \<or>
          fs_stored (fw_fs (w_files w')) b = None \<and> dead b))"

lemma swept_delete:
  assumes "swept w dead s" "fs_own b \<Longrightarrow> dead b" "blob_backend b = ''fs''"
  shows "swept w dead (snd (gp_delete sys_gc b s))"
proof -
  obtain w1 cs where s: "s = (w1, cs)" by fastforce
  obtain x d where d: "fsw_delete b (w_files w1) = (x, d)" by fastforce
  have inv: "fsw_inv (w_files w1)" "queue_inv (w_db w1)" using assms(1) s by (auto simp: swept_def sys_inv_def)
  note law = fsw_delete_any [OF inv(1) assms(3) d]
  have "fs_stored (fw_fs d) c = fs_stored (fw_fs (w_files w)) c \<or> fs_stored (fw_fs d) c = None \<and> dead c" for c
  proof -
    have 1: "fs_stored (fw_fs (w_files w1)) c = fs_stored (fw_fs (w_files w)) c \<or> fs_stored (fw_fs (w_files w1)) c = None \<and> dead c"
      using assms(1) s by (auto simp: swept_def)
    have 2: "\<not> fs_own c \<Longrightarrow> fs_stored f c = None" for f by (simp add: fs_stored_def)
    show ?thesis using law 1 2 assms(2) by (cases "fs_own c") metis+
  qed
  with assms(1) s d law inv show ?thesis
    by (auto simp: sys_gc_def swept_def on_files_def sys_inv_def w_now_def)
qed

lemma swept_cancelled: "swept w dead s \<Longrightarrow> gp_cancelled sys_gc s = (c, s') \<Longrightarrow> swept w dead s'"
  by (cases s) (auto simp: sys_gc_def swept_def split: list.splits)

lemma on_disk_old:
  assumes "fs_list_keys_older_than now age d = (Inr ks, d')" "fs_ok d"
  shows "k \<in> set ks \<longleftrightarrow> (\<exists>e. map_of (fs_root d) k = Some e \<and> old_enough now age e \<and> \<not> hidden k)" "fs_root d' = fs_root d" "fs_ok d'"
proof -
  have "distinct (map fst (fs_root d))" using assms(2) by (simp add: fs_ok_def)
  with io_Inr [OF assms(1) [unfolded fs_list_keys_older_than_def]]
  show "k \<in> set ks \<longleftrightarrow> (\<exists>e. map_of (fs_root d) k = Some e \<and> old_enough now age e \<and> \<not> hidden k)" "fs_root d' = fs_root d" "fs_ok d'"
    using assms(2) by (auto simp: image_iff)
qed

lemma live_in_use:
  assumes "sqlite_list_all_attachment_blobs (w_db w) = (Inr bs, d)"
  shows "k \<in> live_keys ''fs'' bs \<longleftrightarrow> blob_in_use w \<lparr>blob_backend = ''fs'', blob_key = k\<rparr>"
proof -
  have "k \<in> live_keys ''fs'' bs \<longleftrightarrow> \<lparr>blob_backend = ''fs'', blob_key = k\<rparr> \<in> set bs"
  proof -
    have eq: "blob_backend b = ''fs'' \<and> blob_key b = k \<longleftrightarrow> b = \<lparr>blob_backend = ''fs'', blob_key = k\<rparr>" for b :: blob_ref
      by (cases b) simp
    have "k \<in> live_keys ''fs'' bs \<longleftrightarrow> (\<exists>b\<in>set bs. blob_backend b = ''fs'' \<and> blob_key b = k)"
      by (auto simp: live_keys_def)
    then show ?thesis by (simp only: eq) simp
  qed
  also have "\<dots> \<longleftrightarrow> blob_in_use w \<lparr>blob_backend = ''fs'', blob_key = k\<rparr>"
    unfolding listed_blobs_live [OF assms] blob_in_use_def
  proof (intro bex_cong refl)
    fix r
    show "(\<exists>src refs. de_body_column (er_body r) = Some (src, refs) \<and>
          \<lparr>blob_backend = ''fs'', blob_key = k\<rparr> \<in> ar_blob ` set refs \<and>
          latest_event_type (er_id r) (w_db w) \<notin> {''delivery.succeeded'', ''delivery.failed''}) \<longleftrightarrow>
        \<lparr>blob_backend = ''fs'', blob_key = k\<rparr> \<in> ar_blob ` set (row_refs r) \<and>
          latest_event_type (er_id r) (w_db w) \<notin> {''delivery.succeeded'', ''delivery.failed''}"
      by (cases "de_body_column (er_body r)") (auto simp: row_refs_def)
  qed
  finally show ?thesis .
qed

lemma list_old_state: "fs_list_keys_older_than now age d = (y, f) \<Longrightarrow> fs_root f = fs_root d \<and> (fs_ok d \<longrightarrow> fs_ok f)"
  by (cases y) (auto simp: fs_list_keys_older_than_def dest!: io_Inl io_Inr)

lemma gc_cancelled_world: "fst (snd (gp_cancelled sys_gc (w, cs))) = w"
  by (cases cs) (simp_all add: sys_gc_def)

lemma sweep_swept:
  assumes "sys_inv w" "sweep_once sys_gc grace (w, cs) = (r, s)"
  shows "swept w (\<lambda>b. \<not> blob_in_use w b \<and> blob_is_old grace w b) s"
proof -
  let ?dead = "\<lambda>b. \<not> blob_in_use w b \<and> blob_is_old grace w b"
  have start: "swept w ?dead (w, cs)" for cs using assms(1) by (simp add: swept_def)
  obtain c s1 where c: "gp_cancelled sys_gc (w, cs) = (c, s1)" by (rule prod.exhaust)
  then have "fst s1 = w" using gc_cancelled_world [of w cs] by simp
  then obtain cs1 where s1: "s1 = (w, cs1)" by (cases s1) simp
  show ?thesis
  proof (cases c)
    case True
    with assms(2) c s1 start [of cs1] show ?thesis by (auto simp: sweep_once_def)
  next
    case False
    obtain x d where l: "sqlite_list_all_attachment_blobs (w_db w) = (x, d)" by fastforce
    note d = list_blobs_tables [OF l]
    let ?w2 = "w\<lparr>w_db := d\<rparr>"
    have inv2: "sys_inv ?w2" using assms(1) queue_inv_same [OF d] by (simp add: sys_inv_def)
    have list: "gp_list_blobs sys_gc s1 = (x, ?w2, cs1)" using l s1 by (simp add: sys_gc_def on_db_def)
    have sw2: "swept w ?dead (?w2, cs1)" using inv2 d by (simp add: swept_def w_now_def)
    show ?thesis
    proof (cases x)
      case (Inl e)
      with assms(2) c False list sw2 show ?thesis by (auto simp: sweep_once_def and_then_def map_err_st_def)
    next
      case (Inr bs)
      obtain y f where k: "fs_list_keys_older_than (fw_now (w_files w)) grace (fw_fs (w_files w)) = (y, f)" by fastforce
      let ?w3 = "?w2\<lparr>w_files := (w_files w)\<lparr>fw_fs := f\<rparr>\<rparr>"
      have old: "gp_list_old sys_gc grace (?w2, cs1) = (y, ?w3, cs1)" using k by (simp add: sys_gc_def on_files_def)
      have fs: "fs_ok (fw_fs (w_files w))" using assms(1) by (simp add: sys_inv_def fsw_inv_def)
      have f: "fs_root f = fs_root (fw_fs (w_files w))" "fs_ok f"
        using list_old_state [OF k] fs by simp_all
      have "fsw_inv ((w_files w)\<lparr>fw_fs := f\<rparr>)"
        using fsw_inv_shrink [of "w_files w" f] assms(1) f by (simp add: sys_inv_def)
      then have sw3: "swept w ?dead (?w3, cs1)"
        using sw2 fs_stored_root [OF f(1)] by (simp add: swept_def sys_inv_def w_now_def)
      show ?thesis
      proof (cases y)
        case (Inl e)
        with assms(2) c False list old \<open>x = Inr bs\<close> sw3 show ?thesis
          by (auto simp: sweep_once_def and_then_def map_err_st_def)
      next
        case (Inr ks)
        have "s = snd (sweep_keys sys_gc (live_keys ''fs'' bs) ks (?w3, cs1))"
          using assms(2) c False list old \<open>x = Inr bs\<close> Inr
          by (simp add: sweep_once_def and_then_def map_err_st_def) (metis (no_types, lifting) gc_ports.select_convs(1) snd_conv sys_gc_def)
        moreover have "swept w ?dead (snd (sweep_keys sys_gc (live_keys ''fs'' bs) ks (?w3, cs1)))"
        proof (rule sweep_keys_keeps [where I = "swept w ?dead"])
          show "swept w ?dead (?w3, cs1)" by (rule sw3)
        next
          fix k s assume "swept w ?dead s" and k': "k \<in> set ks" "k \<notin> live_keys ''fs'' bs"
          moreover have "?dead \<lparr>blob_backend = ''fs'', blob_key = k\<rparr>"
            using live_in_use [OF l [unfolded \<open>x = Inr bs\<close>], of k] k' on_disk_old(1) [OF k [unfolded Inr] fs, of k]
            by (auto simp: blob_is_old_def w_now_def)
          ultimately show "swept w ?dead (snd (gp_delete sys_gc \<lparr>blob_backend = gp_backend sys_gc, blob_key = k\<rparr> s))"
            by (intro swept_delete) (simp_all add: sys_gc_def)
        qed (rule swept_cancelled)
        ultimately show ?thesis by simp
      qed
    qed
  qed
qed

text \<open>C15: A sweep of the collector only removes garbage, whatever fails and whenever it is cancelled: it changes no row, event
  or queue entry, it touches no blob that an unfinished email refers to and none younger than the grace period,
  and it never alters a blob it does not remove.\<close>

theorem gc_spares_live_blobs:
  assumes "sys_inv w" "sweep_once sys_gc grace (w, cancels) = (r, w', cancels')"
  shows "sys_inv w' \<and> v_rows (sys_view w') = v_rows (sys_view w) \<and> v_jobs (sys_view w') = v_jobs (sys_view w) \<and>
    v_events (sys_view w') = v_events (sys_view w) \<and>
    (\<forall>b. v_blobs (sys_view w') b = v_blobs (sys_view w) b \<or>
         v_blobs (sys_view w') b = None \<and> \<not> blob_in_use w b \<and> blob_is_old grace w b)"
proof -
  have "swept w (\<lambda>b. \<not> blob_in_use w b \<and> blob_is_old grace w b) (w', cancels')" by (rule sweep_swept [OF assms])
  then have sw: "sys_inv w'" "same_tables (w_db w') (w_db w)"
    "\<forall>b. fs_stored (fw_fs (w_files w')) b = fs_stored (fw_fs (w_files w)) b \<or>
      fs_stored (fw_fs (w_files w')) b = None \<and> \<not> blob_in_use w b \<and> blob_is_old grace w b"
    by (simp_all add: swept_def)
  from db_view_same [OF sw(2)] sw(1,3) show ?thesis by (simp add: sys_view_db)
qed

lemma sweep_keys_removes:
  assumes "fsw_inv (w_files w)" "fs_faults (fw_fs (w_files w)) = []" "fs_own \<lparr>blob_backend = ''fs'', blob_key = k\<rparr>"
    and "k \<in> set ks \<and> k \<notin> live \<or> fs_stored (fw_fs (w_files w)) \<lparr>blob_backend = ''fs'', blob_key = k\<rparr> = None"
  shows "fs_stored (fw_fs (w_files (fst (snd (sweep_keys sys_gc live ks (w, [])))))) \<lparr>blob_backend = ''fs'', blob_key = k\<rparr> = None"
  using assms(1,2,4)
proof (induction ks arbitrary: w)
  case Nil
  then show ?case by simp
next
  case (Cons k' ks)
  let ?b = "\<lparr>blob_backend = ''fs'', blob_key = k\<rparr>" and ?b' = "\<lparr>blob_backend = ''fs'', blob_key = k'\<rparr>"
  have go: "gp_cancelled sys_gc (w, []) = (False, w, [])" "gp_backend sys_gc = ''fs''" by (simp_all add: sys_gc_def)
  show ?case
  proof (cases "k' \<in> live")
    case True
    with Cons.prems have "k \<in> set ks \<and> k \<notin> live \<or> fs_stored (fw_fs (w_files w)) ?b = None" by auto
    with Cons.IH [OF Cons.prems(1,2)] True go show ?thesis by simp
  next
    case False
    obtain x d where d: "fsw_delete ?b' (w_files w) = (x, d)" by fastforce
    note any = fsw_delete_any [OF Cons.prems(1) _ d]
    have calm: "fs_faults (fw_fs d) = []"
      using keeps_stD [OF calm_fs(2) Cons.prems(2), of ?b'] d by (auto simp: fsw_delete_def case_prod_beta)
    have "fs_stored (fw_fs d) ?b = None" if "k = k' \<or> fs_stored (fw_fs (w_files w)) ?b = None"
    proof (cases "k = k'")
      case True
      then show ?thesis
        using fsw_delete_law [OF Cons.prems(1), of ?b' x d] fsw_delete_calm [OF Cons.prems(2,1), of ?b'] assms(3) d by simp
    next
      case False
      then show ?thesis using any that by (metis blob_ref.select_convs(1))
    qed
    then have "k \<in> set ks \<and> k \<notin> live \<or> fs_stored (fw_fs (w_files (w\<lparr>w_files := d\<rparr>))) ?b = None"
      using Cons.prems(3) by auto
    with Cons.IH [of "w\<lparr>w_files := d\<rparr>"] any calm have
      "fs_stored (fw_fs (w_files (fst (snd (sweep_keys sys_gc live ks (w\<lparr>w_files := d\<rparr>, [])))))) ?b = None" by simp
    moreover have "snd (gp_delete sys_gc ?b' (w, [])) = (w\<lparr>w_files := d\<rparr>, [])" using d by (simp add: sys_gc_def on_files_def)
    ultimately show ?thesis using False go by simp
  qed
qed

text \<open>C16: When nothing fails and the sweep is not cancelled, it removes every stored blob that is older than the grace period and
  in use by no unfinished email; with the previous property, exactly these.\<close>

theorem gc_collects_garbage:
  assumes "sys_inv w" "db_faults (w_db w) = []" "fs_faults (fw_fs (w_files w)) = []"
    and "fs_own b" "\<not> blob_in_use w b" "blob_is_old grace w b"
  shows "v_blobs (sys_view (fst (snd (sweep_once sys_gc grace (w, []))))) b = None"
proof -
  have b: "b = \<lparr>blob_backend = ''fs'', blob_key = blob_key b\<rparr>" using assms(4) by (cases b) (simp add: fs_own_def)
  obtain bs where l: "sqlite_list_all_attachment_blobs (w_db w) = (Inr bs, w_db w)" using list_blobs_run [OF assms(2)] by blast
  let ?f = "fw_fs (w_files w)"
  obtain ks where k: "fs_list_keys_older_than (fw_now (w_files w)) grace ?f = (Inr ks, ?f)"
    using assms(3) by (simp add: fs_list_keys_older_than_def io_calm)
  have fs: "fs_ok ?f" "fsw_inv (w_files w)" using assms(1) by (simp_all add: sys_inv_def fsw_inv_def)
  have live: "blob_key b \<notin> live_keys ''fs'' bs" using live_in_use [OF l, of "blob_key b"] assms(5) b by simp
  have "\<not> hidden (blob_key b)" using assms(4) by (auto simp: fs_own_def is_dangerous_key_def hidden_def)
  then have listed: "blob_key b \<in> set ks"
    using on_disk_old(1) [OF k fs(1), of "blob_key b"] assms(6) by (auto simp: blob_is_old_def w_now_def)
  have "snd (sweep_once sys_gc grace (w, [])) = snd (sweep_keys sys_gc (live_keys ''fs'' bs) ks (w, []))"
    using l k by (simp add: sweep_once_def sys_gc_def on_db_def on_files_def and_then_def map_err_st_def)
  moreover have "fs_stored (fw_fs (w_files (fst (snd (sweep_keys sys_gc (live_keys ''fs'' bs) ks (w, [])))))) b = None"
    using sweep_keys_removes [OF fs(2) assms(3), of "blob_key b" ks "live_keys ''fs'' bs"] listed live assms(4) b by simp
  ultimately show ?thesis by (simp add: sys_view_def)
qed

definition orphan_world :: world where
  "orphan_world = empty_world\<lparr>w_files := (w_files empty_world)\<lparr>fw_fs := \<lparr>fs_root = [(''aa'', FileEntry [1] (Some 0)), (''.tmp'', DirEntry)],
     fs_tmp = [], fs_faults = []\<rparr>\<rparr>\<rparr>"

lemma orphan_world: "sys_inv orphan_world" "fault_free orphan_world"
proof -
  have "uuid_simple u \<noteq> ''.tmp''" "uuid_simple u \<noteq> ''aa''" for u
  proof -
    show "uuid_simple u \<noteq> ''.tmp''" using hidden_uuid [of u] by (auto simp: hidden_def)
    have "length (uuid_simple u) = 32" by (simp add: uuid_simple_def)
    then show "uuid_simple u \<noteq> ''aa''" by auto
  qed
  then have "fsw_inv (w_files orphan_world)"
    by (auto simp: fsw_inv_def fs_ok_def orphan_world_def empty_world_def empty_fs_def hidden_def is_plain_file_def)
  then show "sys_inv orphan_world" using empty_world_inv(1) by (simp add: sys_inv_def orphan_world_def)
  show "fault_free orphan_world" using empty_world_inv(2) by (simp add: fault_free_def orphan_world_def)
qed

theorem gc_collects_garbage_witness:
  "v_blobs (sys_view orphan_world) \<lparr>blob_backend = ''fs'', blob_key = ''aa''\<rparr> = Some [1] \<and>
   v_blobs (sys_view (fst (snd (sweep_once sys_gc 500 (orphan_world, []))))) \<lparr>blob_backend = ''fs'', blob_key = ''aa''\<rparr> = None"
proof
  let ?b = "\<lparr>blob_backend = ''fs'', blob_key = ''aa''\<rparr>"
  have own: "fs_own ?b" by (simp add: fs_own_def is_dangerous_key_def)
  then show "v_blobs (sys_view orphan_world) ?b = Some [1]"
    by (simp add: sys_view_def fs_stored_def orphan_world_def empty_world_def)
  have "\<not> blob_in_use orphan_world ?b" by (simp add: blob_in_use_def orphan_world_def empty_world_def empty_db_def)
  moreover have "blob_is_old 500 orphan_world ?b"
    by (simp add: blob_is_old_def orphan_world_def empty_world_def empty_fs_def old_enough_def elapsed_def w_now_def)
  ultimately show "v_blobs (sys_view (fst (snd (sweep_once sys_gc 500 (orphan_world, []))))) ?b = None"
    using gc_collects_garbage [OF orphan_world(1) _ _ own] orphan_world(2) by (simp add: fault_free_def)
qed

theorem gc_spares_live_blobs_witness:
  "v_blobs (sys_view (fst (snd (sweep_once sys_gc 5000 (orphan_world, [False]))))) \<lparr>blob_backend = ''fs'', blob_key = ''aa''\<rparr> = Some [1]"
proof -
  let ?b = "\<lparr>blob_backend = ''fs'', blob_key = ''aa''\<rparr>"
  obtain r w' cs where r: "sweep_once sys_gc 5000 (orphan_world, [False]) = (r, w', cs)" by (rule prod_cases3)
  have "v_blobs (sys_view orphan_world) ?b = Some [1]"
    by (simp add: sys_view_def fs_stored_def orphan_world_def empty_world_def fs_own_def is_dangerous_key_def)
  moreover have "\<not> blob_is_old 5000 orphan_world ?b"
    by (simp add: blob_is_old_def orphan_world_def empty_world_def empty_fs_def old_enough_def elapsed_def w_now_def)
  ultimately show ?thesis using gc_spares_live_blobs [OF orphan_world(1) r] r by (metis fst_conv snd_conv)
qed

end
