(* ===== verification/LimitedReader.thy ===== *)
theory LimitedReader
  imports Ports
begin

text \<open>
  The size-capping reader of the HTTP API (\<open>adapter/inbound-http/src/limited_reader.rs\<close>).  The reader
  it wraps is an \<open>AsyncRead\<close>: every poll that is ready yields some bytes, at most the capacity of the
  buffer offered, and no bytes only at the end; how many is decided outside (the network), so it is an
  argument of the poll.  The loop of \<open>read_to_end\<close> is a recursive function over the sequence of such choices.

  \<open>limited_to_end_exact\<close> shows that what comes out depends on the bytes alone, not on how they arrive.
\<close>

section \<open>Polling\<close>

datatype 'a poll = Pending | PollReady 'a

text \<open>One poll of the wrapped reader with a buffer of \<open>cap\<close> bytes: \<open>None\<close> is a poll that is not ready,
  \<open>Some n\<close> one for which \<open>n + 1\<close> bytes have arrived, if so many are left.\<close>

definition inner_poll :: "nat option \<Rightarrow> nat \<Rightarrow> reader \<Rightarrow> (anyhow + byte list) poll \<times> reader" where
  "inner_poll choice cap rd =
     (case choice of
        None \<Rightarrow> (Pending, rd)
      | Some n \<Rightarrow>
          (let k = min cap (Suc n) in
           if reader_bytes rd = [] then
             (PollReady (case reader_error rd of None \<Rightarrow> Ok [] | Some e \<Rightarrow> Err e), rd)
           else (PollReady (Ok (take k (reader_bytes rd))), Reader (drop k (reader_bytes rd)) (reader_error rd))))"

record limited_reader =
  lr_inner :: reader
  lr_remaining :: nat
  lr_exhausted :: bool

definition limited_new :: "reader \<Rightarrow> nat \<Rightarrow> limited_reader" where
  "limited_new inner max_bytes = \<lparr>lr_inner = inner, lr_remaining = max_bytes, lr_exhausted = False\<rparr>"

definition size_limit_error :: anyhow where
  "size_limit_error = ''attachment exceeded size limit''"

text \<open>\<open>remaining\<close> is a \<open>u64\<close>, the capacity a \<open>usize\<close>: the minimum of both fits either.\<close>

definition limited_poll ::
    "nat option \<Rightarrow> nat \<Rightarrow> limited_reader \<Rightarrow> (anyhow + byte list) poll \<times> limited_reader" where
  "limited_poll choice buf_remaining lr =
     (if lr_exhausted lr then (PollReady (Err size_limit_error), lr)
      else if lr_remaining lr = 0 then
        (case inner_poll choice 1 (lr_inner lr) of
           (PollReady (Inr filled), rd) \<Rightarrow>
             (if filled = [] then (PollReady (Ok []), lr\<lparr>lr_inner := rd\<rparr>)
              else (PollReady (Err size_limit_error), lr\<lparr>lr_inner := rd, lr_exhausted := True\<rparr>))
         | (PollReady (Inl e), rd) \<Rightarrow> (PollReady (Err e), lr\<lparr>lr_inner := rd\<rparr>)
         | (Pending, rd) \<Rightarrow> (Pending, lr\<lparr>lr_inner := rd\<rparr>))
      else
        (let cap = min (lr_remaining lr) buf_remaining in
         case inner_poll choice cap (lr_inner lr) of
           (PollReady (Inr filled), rd) \<Rightarrow>
             (PollReady (Ok filled), lr\<lparr>lr_inner := rd, lr_remaining := lr_remaining lr - length filled\<rparr>)
         | (other, rd) \<Rightarrow> (other, lr\<lparr>lr_inner := rd\<rparr>)))"

lemma limited_pending: "limited_poll None cap lr = (p, lr') \<Longrightarrow> lr' = lr \<and> (p = Pending \<or> lr_exhausted lr)"
  by (auto simp: limited_poll_def inner_poll_def Let_def split: if_splits)

section \<open>Reading to the end\<close>

lemma limited_poll_progress:
  assumes "limited_poll (Some n) (Suc c) lr = (PollReady (Inr chunk), lr')" "chunk \<noteq> []"
  shows "reader_bytes (lr_inner lr) = chunk @ reader_bytes (lr_inner lr')"
    and "reader_error (lr_inner lr') = reader_error (lr_inner lr)"
    and "lr_remaining lr = length chunk + lr_remaining lr'" "\<not> lr_exhausted lr" "\<not> lr_exhausted lr'"
  using assms
  by (auto simp: limited_poll_def inner_poll_def Let_def min_def split: if_splits option.splits)

text \<open>\<open>AsyncReadExt::read_to_end\<close>: polls with a buffer that is never empty until no bytes come or an
  error does.  Poll number \<open>i\<close> offers \<open>fst (ck i) + 1\<close> bytes of buffer and finds \<open>snd (ck i) + 1\<close>
  bytes arrived; polls that are not ready change nothing (\<open>limited_pending\<close>) and are left out.\<close>

function limited_to_end :: "(nat \<Rightarrow> nat \<times> nat) \<Rightarrow> nat \<Rightarrow> limited_reader \<Rightarrow> byte list \<Rightarrow> anyhow + byte list" where
  "limited_to_end ck i lr buf =
     (case limited_poll (Some (snd (ck i))) (Suc (fst (ck i))) lr of
        (PollReady (Inl e), _) \<Rightarrow> Err e
      | (PollReady (Inr chunk), lr') \<Rightarrow>
          (if chunk = [] then Ok buf else limited_to_end ck (Suc i) lr' (buf @ chunk))
      | (Pending, _) \<Rightarrow> Ok buf)"
  by pat_completeness auto

termination
proof (relation "measure (\<lambda>(ck, i, lr, buf). length (reader_bytes (lr_inner lr)))", goal_cases)
  case (2 ck i lr buf p lr' r chunk)
  then have "reader_bytes (lr_inner lr) = chunk @ reader_bytes (lr_inner lr')"
    by (intro limited_poll_progress(1)) auto
  with 2 show ?case by simp
qed simp

declare limited_to_end.simps [simp del]

text \<open>What the bytes alone say about the outcome.\<close>

definition capped :: "nat \<Rightarrow> reader \<Rightarrow> anyhow + byte list" where
  "capped max_bytes rd =
     (if max_bytes < length (reader_bytes rd) then Err size_limit_error else read_to_end rd)"

lemma limited_poll_end:
  assumes "limited_poll (Some n) (Suc c) lr = (PollReady r, lr')" "\<not> lr_exhausted lr" "r = Inl e \<or> r = Inr []"
  shows "r = capped (lr_remaining lr) (lr_inner lr)" and "r = Inr [] \<Longrightarrow> reader_bytes (lr_inner lr) = []"
  using assms
  by (auto simp: limited_poll_def inner_poll_def capped_def read_to_end_def Let_def split: if_splits option.splits)

lemma limited_never_pending: "limited_poll (Some n) c lr \<noteq> (Pending, lr')"
  by (auto simp: limited_poll_def inner_poll_def Let_def split: if_splits option.splits)

lemma limited_to_end_capped:
  "\<not> lr_exhausted lr \<Longrightarrow>
     limited_to_end ck i lr buf = map_ok (\<lambda>rest. buf @ rest) (capped (lr_remaining lr) (lr_inner lr))"
proof (induction ck i lr buf rule: limited_to_end.induct)
  case (1 ck i lr buf)
  obtain p lr' where p: "limited_poll (Some (snd (ck i))) (Suc (fst (ck i))) lr = (p, lr')"
    by (rule prod.exhaust)
  with limited_never_pending obtain r where r: "p = PollReady r" by (cases p) auto
  show ?case
  proof (cases "\<exists>chunk. r = Inr chunk \<and> chunk \<noteq> []")
    case True
    then obtain chunk where c: "r = Inr chunk" "chunk \<noteq> []" by blast
    note step = limited_poll_progress [OF p [unfolded r c(1)] c(2)]
    have "limited_to_end ck (Suc i) lr' (buf @ chunk) =
        map_ok (\<lambda>rest. (buf @ chunk) @ rest) (capped (lr_remaining lr') (lr_inner lr'))"
      using "1.IH" [OF p [symmetric] _ c(1) c(2)] r step(5) by simp
    also have "\<dots> = map_ok (\<lambda>rest. buf @ rest) (capped (lr_remaining lr) (lr_inner lr))"
      using step by (simp add: capped_def read_to_end_def split: option.splits)
    finally show ?thesis using p r c by (subst limited_to_end.simps) simp
  next
    case False
    then have e: "r = Inr [] \<or> (\<exists>e. r = Inl e)" by (cases r) auto
    with limited_poll_end [OF p [unfolded r] "1.prems"]
    have "capped (lr_remaining lr) (lr_inner lr) = r" by auto
    with e p r show ?thesis by (subst limited_to_end.simps) auto
  qed
qed

lemma limited_to_end_exact:
  "limited_to_end ck i (limited_new rd max_bytes) [] = capped max_bytes rd"
  using limited_to_end_capped [of "limited_new rd max_bytes" ck i "[]"]
  by (cases "capped max_bytes rd") (simp_all add: limited_new_def)

lemma capped_Inr: "capped m rd = Inr bs \<longleftrightarrow> bs = reader_bytes rd \<and> reader_error rd = None \<and> length bs \<le> m"
  by (auto simp: capped_def read_to_end_def split: option.splits)

text \<open>C29: Reading through the cap to the end gives exactly the bytes of the wrapped reader, however they arrive in
  pieces and whatever buffers are offered, when there are at most \<open>max_bytes\<close> of them and no read fails; it
  fails when there are more, even if the wrapped reader would fail later, and with the reader's own error otherwise.\<close>

theorem limited_reader_exact:
  "(limited_to_end ck i (limited_new rd max_bytes) [] = Inr bs \<longleftrightarrow>
      bs = reader_bytes rd \<and> reader_error rd = None \<and> length bs \<le> max_bytes) \<and>
   (limited_to_end ck i (limited_new rd max_bytes) [] = Inl size_limit_error \<longleftrightarrow>
      max_bytes < length (reader_bytes rd) \<or> reader_error rd = Some size_limit_error)"
  unfolding limited_to_end_exact by (auto simp: capped_def read_to_end_def split: option.splits)

end
