(* ===== verification/HttpApi.thy ===== *)
theory HttpApi
  imports LimitedReader SubmitEmail ProcessEmail UseCases
begin

text \<open>
  The HTTP API (\<open>adapter/inbound-http/src\<close>): the request and response types and their conversion to domain
  input (\<open>dto.rs\<close>), the error type and its status codes (\<open>error.rs\<close>), the handlers (\<open>routes/*.rs\<close>), the API key
  check, the router and the configuration (\<open>lib.rs\<close>).

  What the code takes from crates is a field of the record \<open>http_libs\<close>: the parsers of e-mail addresses, base64,
  URLs and UUIDs, the JSON and query deserialisers, and the extractors of axum.  Messages that only repeat a
  library's message are left out of the errors.  The request timeout of the read routes is not modelled.

  The use cases the handlers dispatch into are the fields of \<open>http_state\<close>; the id the submission generates is
  an argument of its call.
\<close>

section \<open>Requests\<close>

definition max_attachments_per_email :: nat where "max_attachments_per_email = 10"
definition max_attachment_bytes :: nat where "max_attachment_bytes = 25 * 1024 * 1024"
definition max_envelope_bytes :: nat where "max_envelope_bytes = 1024 * 1024"
definition max_request_body_bytes :: nat where "max_request_body_bytes = 352 * 1024 * 1024"
definition max_emails_per_batch :: nat where "max_emails_per_batch = 100"

datatype http_recipient_kind = HttpTo | HttpCc | HttpBcc

record http_recipient =
  hr_kind :: http_recipient_kind
  hr_address :: string

datatype http_body =
    HttpPlain "string option" "string option"
  | HttpMjmlInline string
  | HttpMjmlNamed string
  | HttpMjmlRemote string

record http_attachment =
  ha_filename :: string
  ha_content_type :: string
  ha_inline_base64 :: "string option"
  ha_url :: "string option"

record envelope_core =
  ec_idempotency_key :: "string option"
  ec_correlation_id :: "string option"
  ec_subject :: "string option"
  ec_sender :: string
  ec_recipients :: "http_recipient list"
  ec_body :: http_body
  ec_variables :: variables

text \<open>\<open>SubmitEmailRequest\<close> has the fields of \<open>EnvelopeCoreDto\<close> and the attachments.\<close>

record submit_email_request = envelope_core +
  sr_attachments :: "http_attachment list"

record list_emails_query =
  qe_status :: "email_status option"
  qe_after_ms :: "int option"
  qe_before_ms :: "int option"
  qe_recipient :: "string option"
  qe_template :: "string option"
  qe_id :: "string option"
  qe_limit :: "nat option"
  qe_offset :: "nat option"

record list_events_query =
  qv_email_id :: "string option"
  qv_event_type :: "string option"
  qv_sender_name :: "string option"
  qv_error_class :: "string option"
  qv_after_ms :: "int option"
  qv_before_ms :: "int option"
  qv_limit :: "nat option"
  qv_offset :: "nat option"

datatype header_value = HeaderText string | HeaderOpaque

fun header_to_str :: "header_value \<Rightarrow> string option" where
  "header_to_str (HeaderText s) = Some s"
| "header_to_str HeaderOpaque = None"

datatype http_method = GET | HEAD | POST | OtherMethod

record http_request =
  rq_method :: http_method
  rq_path :: "string list"
  rq_query :: string
  rq_authorization :: "header_value option"
  rq_content_type :: "header_value option"
  rq_body :: reader

text \<open>A multipart body is the fields that arrive and the failure, if any, that ends it.\<close>

record multipart_field =
  mf_name :: "string option"
  mf_file_name :: "string option"
  mf_content_type :: "string option"
  mf_data :: reader

record http_libs =
  hl_email_address :: "string \<Rightarrow> bool"
  hl_base64_decode :: "string \<Rightarrow> byte list option"
  hl_url_parse :: "string \<Rightarrow> url option"
  hl_uuid_parse :: "string \<Rightarrow> uuid option"
  hl_uuid_string :: "uuid \<Rightarrow> string"
  hl_to_bytes :: "reader \<Rightarrow> nat \<Rightarrow> byte list option"
  hl_request_json :: "byte list \<Rightarrow> submit_email_request option"
  hl_envelope_json :: "byte list \<Rightarrow> envelope_core option"
  hl_batch_json :: "http_request \<Rightarrow> nat + submit_email_request list"
  hl_multipart :: "http_request \<Rightarrow> (multipart_field list \<times> bool) option"
  hl_emails_query :: "string \<Rightarrow> nat + list_emails_query"
  hl_events_query :: "string \<Rightarrow> nat + list_events_query"
  hl_unmatched :: "http_request \<Rightarrow> nat"

section \<open>Errors\<close>

datatype body_conversion_error = InvalidPlain invalid_plain_body | InvalidRemoteUrl anyhow

datatype envelope_conversion_error =
    BodyError body_conversion_error
  | InvalidSender anyhow
  | EmptyRecipients
  | InvalidRecipient anyhow
  | InvalidAttachmentBase64 string anyhow
  | InvalidAttachmentShape string
  | InvalidAttachmentUrl string anyhow
  | TooManyAttachments
  | AttachmentTooLarge string

fun body_conversion_message :: "body_conversion_error \<Rightarrow> string" where
  "body_conversion_message (InvalidPlain e) = ''invalid plain body''"
| "body_conversion_message (InvalidRemoteUrl e) = ''invalid remote url''"

fun envelope_conversion_message :: "envelope_conversion_error \<Rightarrow> string" where
  "envelope_conversion_message (BodyError e) = body_conversion_message e"
| "envelope_conversion_message (InvalidSender e) = ''invalid sender address''"
| "envelope_conversion_message EmptyRecipients = ''recipients must not be empty''"
| "envelope_conversion_message (InvalidRecipient e) = ''invalid recipient address''"
| "envelope_conversion_message (InvalidAttachmentBase64 f e) = ''invalid attachment base64''"
| "envelope_conversion_message (InvalidAttachmentShape f) =
     ''invalid attachment shape: exactly one of inline_base64 or url must be set''"
| "envelope_conversion_message (InvalidAttachmentUrl f e) = ''invalid attachment url''"
| "envelope_conversion_message TooManyAttachments = ''too many attachments''"
| "envelope_conversion_message (AttachmentTooLarge f) = ''attachment too large''"

datatype app_error =
    BadRequest envelope_conversion_error
  | BadRequestRaw string
  | AppSubmit submit_email_error
  | AppListEmails list_emails_error
  | AppListEvents list_events_error
  | AppListSenders list_senders_error
  | InvalidEmailId
  | InvalidErrorClass

fun app_error_response :: "app_error \<Rightarrow> nat \<times> string" where
  "app_error_response (AppSubmit (SubmitAttachmentFetch e)) = (400, ''invalid request'')"
| "app_error_response (AppSubmit e) = (500, ''internal error'')"
| "app_error_response (AppListEmails e) = (500, ''internal error'')"
| "app_error_response (AppListEvents e) = (500, ''internal error'')"
| "app_error_response (AppListSenders e) = (500, ''internal error'')"
| "app_error_response e = (400, ''invalid request'')"

section \<open>Conversion to domain input\<close>

fun recipient_kind_of_http :: "http_recipient_kind \<Rightarrow> recipient_kind" where
  "recipient_kind_of_http HttpTo = To"
| "recipient_kind_of_http HttpCc = Cc"
| "recipient_kind_of_http HttpBcc = Bcc"

definition validate_sender :: "http_libs \<Rightarrow> string \<Rightarrow> envelope_conversion_error + unit" where
  "validate_sender L s =
     (if hl_email_address L s then Ok () else Err (InvalidSender ''parsing sender''))"

definition validate_recipients ::
    "http_libs \<Rightarrow> http_recipient list \<Rightarrow> envelope_conversion_error + (recipient_kind \<times> string) list" where
  "validate_recipients L rs =
     (if rs = [] then Err EmptyRecipients
      else collect_results
             (\<lambda>r. if hl_email_address L (hr_address r) then Ok (recipient_kind_of_http (hr_kind r), hr_address r)
                  else Err (InvalidRecipient ''parsing recipient'')) rs)"

definition plain_body :: "string option \<Rightarrow> string option \<Rightarrow> body_conversion_error + body_source" where
  "plain_body t h = map_err InvalidPlain (map_ok BodyPlain (plain_try_new t h))"

definition remote_mjml_body :: "http_libs \<Rightarrow> string \<Rightarrow> body_conversion_error + body_source" where
  "remote_mjml_body L u =
     (case hl_url_parse L u of
        None \<Rightarrow> Err (InvalidRemoteUrl ''parsing mjml remote url'')
      | Some parsed \<Rightarrow> Ok (BodyMjml (MjmlRemote parsed)))"

fun body_of_http :: "http_libs \<Rightarrow> http_body \<Rightarrow> body_conversion_error + body_source" where
  "body_of_http L (HttpPlain t h) = plain_body t h"
| "body_of_http L (HttpMjmlInline s) = Ok (BodyMjml (MjmlInline s))"
| "body_of_http L (HttpMjmlNamed n) = Ok (BodyMjml (MjmlNamed n))"
| "body_of_http L (HttpMjmlRemote u) = remote_mjml_body L u"

definition attachment_dto_to_input ::
    "http_libs \<Rightarrow> http_attachment \<Rightarrow> envelope_conversion_error + attachment_input" where
  "attachment_dto_to_input L a =
     (case (ha_inline_base64 a, ha_url a) of
        (Some b64, None) \<Rightarrow>
          (case hl_base64_decode L b64 of
             None \<Rightarrow> Err (InvalidAttachmentBase64 (ha_filename a)
                       (''decoding base64 for attachment '' @ [CHR 0x27] @ ha_filename a @ [CHR 0x27]))
           | Some decoded \<Rightarrow>
               if max_attachment_bytes < length decoded then Err (AttachmentTooLarge (ha_filename a))
               else Ok (InlineInput (ha_filename a) (ha_content_type a) decoded))
      | (None, Some raw_url) \<Rightarrow>
          (case hl_url_parse L raw_url of
             None \<Rightarrow> Err (InvalidAttachmentUrl (ha_filename a)
                       (''parsing url for attachment '' @ [CHR 0x27] @ ha_filename a @ [CHR 0x27]))
           | Some parsed \<Rightarrow> Ok (RemoteInput (ha_filename a) (ha_content_type a) parsed))
      | _ \<Rightarrow> Err (InvalidAttachmentShape (ha_filename a)))"

definition submit_input_of ::
    "('x) envelope_core_scheme \<Rightarrow> (recipient_kind \<times> string) list \<Rightarrow> body_source \<Rightarrow> attachment_input list \<Rightarrow>
     submit_email_input" where
  "submit_input_of r recipients body atts =
     \<lparr>si_idempotency_key = ec_idempotency_key r, si_correlation_id = ec_correlation_id r,
      si_subject = ec_subject r, si_sender = ec_sender r, si_recipients = recipients,
      si_body = body, si_variables = ec_variables r, si_attachments = atts\<rparr>"

definition request_into_submit_input ::
    "http_libs \<Rightarrow> submit_email_request \<Rightarrow> envelope_conversion_error + submit_email_input" where
  "request_into_submit_input L r =
     bind_sum (validate_sender L (ec_sender r)) (\<lambda>_.
     bind_sum (validate_recipients L (ec_recipients r)) (\<lambda>recipients.
     bind_sum (map_err BodyError (body_of_http L (ec_body r))) (\<lambda>body.
       if max_attachments_per_email < length (sr_attachments r) then Err TooManyAttachments
       else bind_sum (collect_results (attachment_dto_to_input L) (sr_attachments r)) (\<lambda>atts.
              Ok (submit_input_of r recipients body atts)))))"

definition core_into_submit_input ::
    "http_libs \<Rightarrow> envelope_core \<Rightarrow> attachment_input list \<Rightarrow> envelope_conversion_error + submit_email_input" where
  "core_into_submit_input L r atts =
     bind_sum (validate_sender L (ec_sender r)) (\<lambda>_.
     bind_sum (validate_recipients L (ec_recipients r)) (\<lambda>recipients.
     bind_sum (map_err BodyError (body_of_http L (ec_body r))) (\<lambda>body.
       Ok (submit_input_of r recipients body atts))))"

section \<open>State and replies\<close>

record 'w http_state =
  hs_submit :: "email_id \<Rightarrow> submit_email_input \<Rightarrow> 'w \<Rightarrow> (submit_email_error + email_id) \<times> 'w"
  hs_list_emails :: "list_emails_params \<Rightarrow> 'w \<Rightarrow> (list_emails_error + email_record list) \<times> 'w"
  hs_list_events :: "list_events_params \<Rightarrow> 'w \<Rightarrow> (list_events_error + event_record list) \<times> 'w"
  hs_list_senders :: "'w \<Rightarrow> (list_senders_error + sender_snapshot list) \<times> 'w"
  hs_readiness :: "'w \<Rightarrow> readiness \<times> 'w"

datatype batch_item_result = Accepted string | Rejected string

record email_record_dto =
  ed_id :: string
  ed_idempotency_key :: "string option"
  ed_subject :: "string option"
  ed_sender :: string
  ed_recipients :: "(string \<times> string) list"
  ed_created_at_ms :: int
  ed_status :: string

record event_record_dto =
  vd_id :: string
  vd_email_id :: string
  vd_event_type :: string
  vd_payload :: "json option"
  vd_sender_name :: "string option"
  vd_error_class :: "string option"
  vd_created_at_ms :: int

record sender_dto =
  sd_name :: string
  sd_sent_in_range :: nat
  sd_failed_in_range :: nat
  sd_quota :: "(nat \<times> string) option"
  sd_match_sender_domain :: "string option"

datatype http_reply =
    SubmitReply string
  | BatchReply "batch_item_result list"
  | EmailsReply "email_record_dto list" nat nat
  | EventsReply "event_record_dto list" nat nat
  | SendersReply "sender_dto list"
  | HealthReply string
  | ErrorReply string
  | EmptyReply

fun http_kind_name :: "recipient_kind \<Rightarrow> string" where
  "http_kind_name To = ''to''"
| "http_kind_name Cc = ''cc''"
| "http_kind_name Bcc = ''bcc''"

fun http_status_name :: "email_status \<Rightarrow> string" where
  "http_status_name StatusQueued = ''queued''"
| "http_status_name StatusSent = ''sent''"
| "http_status_name StatusFailed = ''failed''"

definition id_string :: "http_libs \<Rightarrow> email_id \<Rightarrow> string" where
  "id_string L i = hl_uuid_string L (as_uuid i)"

definition email_record_to_dto :: "http_libs \<Rightarrow> email_record \<Rightarrow> email_record_dto" where
  "email_record_to_dto L r =
     \<lparr>ed_id = id_string L (rec_id r), ed_idempotency_key = rec_idempotency_key r, ed_subject = rec_subject r,
      ed_sender = rec_sender r, ed_recipients = map (\<lambda>(k, a). (http_kind_name k, a)) (rec_recipients r),
      ed_created_at_ms = rec_created_at_ms r, ed_status = http_status_name (rec_status r)\<rparr>"

definition event_record_to_dto :: "http_libs \<Rightarrow> event_record \<Rightarrow> event_record_dto" where
  "event_record_to_dto L r =
     \<lparr>vd_id = hl_uuid_string L (evr_id r), vd_email_id = id_string L (evr_email_id r), vd_event_type = evr_event_type r,
      vd_payload = evr_payload r, vd_sender_name = map_option sender_str (evr_sender_name r),
      vd_error_class = evr_error_class r, vd_created_at_ms = evr_created_at_ms r\<rparr>"

definition sender_snapshot_to_dto :: "sender_snapshot \<Rightarrow> sender_dto" where
  "sender_snapshot_to_dto u =
     \<lparr>sd_name = sender_str (sc_name (sn_config u)), sd_sent_in_range = sn_sent_in_range u,
      sd_failed_in_range = sn_failed_in_range u,
      sd_quota = map_option (\<lambda>q. (quota_count q, quota_range_display (quota_window q))) (sc_quota (sn_config u)),
      sd_match_sender_domain = sc_match_sender_domain (sn_config u)\<rparr>"

section \<open>Submitting\<close>

definition is_multipart_form_data :: "header_value option \<Rightarrow> bool" where
  "is_multipart_form_data content_type =
     (case Option.bind content_type header_to_str of
        None \<Rightarrow> False
      | Some s \<Rightarrow> eq_ignore_ascii_case (trim (hd (split_on CHR '';'' s))) ''multipart/form-data'')"

definition handle_json :: "http_libs \<Rightarrow> http_request \<Rightarrow> app_error + submit_email_input" where
  "handle_json L rq =
     (case hl_to_bytes L (rq_body rq) max_request_body_bytes of
        None \<Rightarrow> Err (BadRequestRaw ''failed to read request body'')
      | Some body_bytes \<Rightarrow>
          (case hl_request_json L body_bytes of
             None \<Rightarrow> Err (BadRequestRaw ''invalid JSON'')
           | Some req \<Rightarrow> map_err BadRequest (request_into_submit_input L req)))"

text \<open>The loop over the fields; \<open>ck\<close> decides how the bytes of each field arrive (see \<open>LimitedReader\<close>).\<close>

fun multipart_fields ::
    "http_libs \<Rightarrow> (nat \<Rightarrow> nat \<Rightarrow> nat \<times> nat) \<Rightarrow> multipart_field list \<Rightarrow> bool \<Rightarrow>
     envelope_core option \<Rightarrow> attachment_input list \<Rightarrow> app_error + envelope_core option \<times> attachment_input list" where
  "multipart_fields L ck [] failed envelope attachments =
     (if failed then Err (BadRequestRaw ''multipart read error'') else Ok (envelope, attachments))"
| "multipart_fields L ck (field # rest) failed envelope attachments =
     (let name = (case mf_name field of None \<Rightarrow> [] | Some n \<Rightarrow> n) in
      if name = ''envelope'' then
        (case limited_to_end (ck (length rest)) 0 (limited_new (mf_data field) max_envelope_bytes) [] of
           Inl _ \<Rightarrow> Err (BadRequestRaw ''envelope field exceeds size limit'')
         | Inr buf \<Rightarrow>
             (case hl_envelope_json L buf of
                None \<Rightarrow> Err (BadRequestRaw ''invalid envelope JSON'')
              | Some dto \<Rightarrow> multipart_fields L ck rest failed (Some dto) attachments))
      else if name = ''attachment'' then
        (if max_attachments_per_email \<le> length attachments then Err (BadRequestRaw ''too many attachments'')
         else case mf_file_name field of
                None \<Rightarrow> Err (BadRequestRaw ''attachment field missing filename in Content-Disposition'')
              | Some filename \<Rightarrow>
                  (let content_type = (case mf_content_type field of None \<Rightarrow> ''application/octet-stream'' | Some t \<Rightarrow> t) in
                   case limited_to_end (ck (length rest)) 0 (limited_new (mf_data field) max_attachment_bytes) [] of
                     Inl _ \<Rightarrow> Err (BadRequestRaw ''attachment too large or read error'')
                   | Inr buf \<Rightarrow>
                       multipart_fields L ck rest failed envelope
                         (attachments @ [InlineInput filename content_type buf])))
      else multipart_fields L ck rest failed envelope attachments)"

definition handle_multipart ::
    "http_libs \<Rightarrow> (nat \<Rightarrow> nat \<Rightarrow> nat \<times> nat) \<Rightarrow> http_request \<Rightarrow> app_error + submit_email_input" where
  "handle_multipart L ck rq =
     (case hl_multipart L rq of
        None \<Rightarrow> Err (BadRequestRaw ''invalid multipart'')
      | Some (fs, failed) \<Rightarrow>
          bind_sum (multipart_fields L ck fs failed None []) (\<lambda>(envelope, attachments).
            case envelope of
              None \<Rightarrow> Err (BadRequestRaw (''missing required '' @ [CHR 0x27] @ ''envelope'' @ [CHR 0x27] @ '' field''))
            | Some env \<Rightarrow> map_err BadRequest (core_into_submit_input L env attachments)))"

definition http_submit_input ::
    "http_libs \<Rightarrow> (nat \<Rightarrow> nat \<Rightarrow> nat \<times> nat) \<Rightarrow> http_request \<Rightarrow> app_error + submit_email_input" where
  "http_submit_input L ck rq =
     (if is_multipart_form_data (rq_content_type rq) then handle_multipart L ck rq else handle_json L rq)"

definition http_submit_email ::
    "http_libs \<Rightarrow> ('w, 'x) http_state_scheme \<Rightarrow> (nat \<Rightarrow> nat \<Rightarrow> nat \<times> nat) \<Rightarrow> email_id \<Rightarrow> http_request \<Rightarrow> 'w \<Rightarrow>
     (app_error + http_reply) \<times> 'w" where
  "http_submit_email L S ck i rq w =
     (case http_submit_input L ck rq of
        Inl e \<Rightarrow> (Err e, w)
      | Inr input \<Rightarrow> and_then (map_err_st AppSubmit (hs_submit S i input)) (\<lambda>j. done_with (SubmitReply (id_string L j))) w)"

fun submit_items ::
    "http_libs \<Rightarrow> ('w, 'x) http_state_scheme \<Rightarrow> (nat \<Rightarrow> email_id) \<Rightarrow> submit_email_request list \<Rightarrow>
     batch_item_result list \<Rightarrow> 'w \<Rightarrow> (app_error + batch_item_result list) \<times> 'w" where
  "submit_items L S ids [] results w = (Ok results, w)"
| "submit_items L S ids (req # reqs) results w =
     (case request_into_submit_input L req of
        Inl validation_err \<Rightarrow>
          submit_items L S ids reqs (results @ [Rejected (envelope_conversion_message validation_err)]) w
      | Inr input \<Rightarrow>
          (case hs_submit S (ids (length results)) input w of
             (Inl e, w') \<Rightarrow> (Err (AppSubmit e), w')
           | (Inr j, w') \<Rightarrow> submit_items L S ids reqs (results @ [Accepted (id_string L j)]) w'))"

definition http_submit_batch ::
    "http_libs \<Rightarrow> ('w, 'x) http_state_scheme \<Rightarrow> (nat \<Rightarrow> email_id) \<Rightarrow> submit_email_request list \<Rightarrow> 'w \<Rightarrow>
     (app_error + http_reply) \<times> 'w" where
  "http_submit_batch L S ids emails w =
     (if max_emails_per_batch < length emails then (Err (BadRequestRaw ''batch exceeds maximum of 100 emails''), w)
      else and_then (submit_items L S ids emails []) (\<lambda>results. done_with (BatchReply results)) w)"

section \<open>Listing\<close>

definition default_limit :: nat where "default_limit = 20"
definition max_limit :: nat where "max_limit = 100"

definition page_limit :: "nat option \<Rightarrow> nat" where
  "page_limit limit = min (case limit of None \<Rightarrow> default_limit | Some n \<Rightarrow> n) max_limit"

definition page_offset :: "nat option \<Rightarrow> nat" where
  "page_offset off = (case off of None \<Rightarrow> 0 | Some n \<Rightarrow> n)"

definition parse_email_id :: "http_libs \<Rightarrow> string \<Rightarrow> app_error + email_id" where
  "parse_email_id L raw = ok_or InvalidEmailId (map_option EmailId (hl_uuid_parse L raw))"

definition parse_error_class :: "string option \<Rightarrow> app_error + error_class option" where
  "parse_error_class raw = map_transpose (\<lambda>s. map_err (\<lambda>_. InvalidErrorClass) (error_class_from_str s)) raw"

definition http_list_emails ::
    "http_libs \<Rightarrow> ('w, 'x) http_state_scheme \<Rightarrow> list_emails_query \<Rightarrow> 'w \<Rightarrow> (app_error + http_reply) \<times> 'w" where
  "http_list_emails L S q w =
     (case map_transpose (parse_email_id L) (qe_id q) of
        Inl e \<Rightarrow> (Err e, w)
      | Inr i \<Rightarrow>
          (let limit = page_limit (qe_limit q); offs = page_offset (qe_offset q) in
           and_then (map_err_st AppListEmails (hs_list_emails S
                \<lparr>le_status = qe_status q, le_after_ms = qe_after_ms q, le_before_ms = qe_before_ms q,
                 le_recipient = qe_recipient q, le_template = qe_template q, le_id = i,
                 le_limit = limit, le_offset = offs\<rparr>))
             (\<lambda>emails. done_with (EmailsReply (map (email_record_to_dto L) emails) limit offs)) w))"

definition events_params :: "list_events_query \<Rightarrow> email_id option \<Rightarrow> error_class option \<Rightarrow> list_events_params" where
  "events_params q i ec =
     \<lparr>lv_email_id = i, lv_event_type = qv_event_type q, lv_sender_name = qv_sender_name q, lv_error_class = ec,
      lv_after_ms = qv_after_ms q, lv_before_ms = qv_before_ms q,
      lv_limit = page_limit (qv_limit q), lv_offset = page_offset (qv_offset q)\<rparr>"

definition run_list_events ::
    "http_libs \<Rightarrow> ('w, 'x) http_state_scheme \<Rightarrow> list_events_params \<Rightarrow> 'w \<Rightarrow> (app_error + http_reply) \<times> 'w" where
  "run_list_events L S p =
     and_then (map_err_st AppListEvents (hs_list_events S p))
       (\<lambda>events. done_with (EventsReply (map (event_record_to_dto L) events) (lv_limit p) (lv_offset p)))"

definition http_list_events ::
    "http_libs \<Rightarrow> ('w, 'x) http_state_scheme \<Rightarrow> list_events_query \<Rightarrow> 'w \<Rightarrow> (app_error + http_reply) \<times> 'w" where
  "http_list_events L S q w =
     (case bind_sum (map_transpose (parse_email_id L) (qv_email_id q)) (\<lambda>i.
           bind_sum (parse_error_class (qv_error_class q)) (\<lambda>ec. Ok (i, ec))) of
        Inl e \<Rightarrow> (Err e, w)
      | Inr (i, ec) \<Rightarrow> run_list_events L S (events_params q i ec) w)"

definition http_list_events_for_email ::
    "http_libs \<Rightarrow> ('w, 'x) http_state_scheme \<Rightarrow> string \<Rightarrow> list_events_query \<Rightarrow> 'w \<Rightarrow> (app_error + http_reply) \<times> 'w" where
  "http_list_events_for_email L S email_id q w =
     (case bind_sum (parse_email_id L email_id) (\<lambda>i.
           bind_sum (parse_error_class (qv_error_class q)) (\<lambda>ec. Ok (Some i, ec))) of
        Inl e \<Rightarrow> (Err e, w)
      | Inr (i, ec) \<Rightarrow> run_list_events L S (events_params q i ec) w)"

definition http_list_senders :: "http_libs \<Rightarrow> ('w, 'x) http_state_scheme \<Rightarrow> 'w \<Rightarrow> (app_error + http_reply) \<times> 'w" where
  "http_list_senders L S =
     and_then (map_err_st AppListSenders (hs_list_senders S))
       (\<lambda>snapshots. done_with (SendersReply (map sender_snapshot_to_dto snapshots)))"

section \<open>Health\<close>

definition http_live :: "nat \<times> http_reply" where
  "http_live = (200, HealthReply ''ok'')"

definition http_ready :: "('w, 'x) http_state_scheme \<Rightarrow> 'w \<Rightarrow> (nat \<times> http_reply) \<times> 'w" where
  "http_ready S w =
     (case hs_readiness S w of
        (Ready, w') \<Rightarrow> ((200, HealthReply ''ok''), w')
      | (NotReady, w') \<Rightarrow> ((503, HealthReply ''unavailable''), w'))"

section \<open>The API key\<close>

definition str_bytes :: "string \<Rightarrow> byte list" where
  "str_bytes s = map (\<lambda>c. word_of_nat (of_char c)) s"

definition constant_time_eq :: "byte list \<Rightarrow> byte list \<Rightarrow> bool" where
  "constant_time_eq a b =
     (if length a \<noteq> length b then False
      else foldl (\<lambda>diff (x, y). or diff (xor x y)) 0 (zip a b) = 0)"

definition require_api_key :: "string \<Rightarrow> http_request \<Rightarrow> nat + unit" where
  "require_api_key expected rq =
     (case Option.bind (rq_authorization rq) header_to_str of
        None \<Rightarrow> Err 401
      | Some auth_header \<Rightarrow>
          (case strip_prefix ''Bearer '' auth_header of
             None \<Rightarrow> Err 401
           | Some token \<Rightarrow>
               if \<not> constant_time_eq (str_bytes token) (str_bytes expected) then Err 401 else Ok ()))"

section \<open>The router\<close>

datatype route =
    LiveRoute
  | ReadyRoute
  | ListEmailsRoute
  | EmailEventsRoute string
  | ListEventsRoute
  | ListSendersRoute
  | SubmitRoute
  | SubmitBatchRoute

text \<open>A handler registered with \<open>get\<close> also answers HEAD requests.\<close>

definition is_get :: "http_method \<Rightarrow> bool" where
  "is_get m \<longleftrightarrow> m = GET \<or> m = HEAD"

definition match_route :: "http_method \<Rightarrow> string list \<Rightarrow> route option" where
  "match_route m path =
     (if is_get m \<and> path = [''health'', ''live''] then Some LiveRoute
      else if is_get m \<and> path = [''health'', ''ready''] then Some ReadyRoute
      else if is_get m \<and> path = [''emails''] then Some ListEmailsRoute
      else if is_get m \<and> path = [''events''] then Some ListEventsRoute
      else if is_get m \<and> path = [''senders''] then Some ListSendersRoute
      else if m = POST \<and> path = [''emails''] then Some SubmitRoute
      else if m = POST \<and> path = [''emails'', ''batch''] then Some SubmitBatchRoute
      else case path of
             [a, i, b] \<Rightarrow> if is_get m \<and> a = ''emails'' \<and> i \<noteq> [] \<and> b = ''events'' then Some (EmailEventsRoute i) else None
           | _ \<Rightarrow> None)"

fun protected_route :: "route \<Rightarrow> bool" where
  "protected_route LiveRoute = False"
| "protected_route ReadyRoute = False"
| "protected_route _ = True"

definition http_respond :: "(app_error + http_reply) \<times> 'w \<Rightarrow> (nat \<times> http_reply) \<times> 'w" where
  "http_respond r =
     ((case fst r of Inl e \<Rightarrow> (case app_error_response e of (status, msg) \<Rightarrow> (status, ErrorReply msg)) | Inr reply \<Rightarrow> (200, reply)),
      snd r)"

text \<open>An extractor that fails answers for itself, with the status of its rejection.\<close>

definition extracted :: "nat + 'a \<Rightarrow> ('a \<Rightarrow> 'w \<Rightarrow> (nat \<times> http_reply) \<times> 'w) \<Rightarrow> 'w \<Rightarrow> (nat \<times> http_reply) \<times> 'w" where
  "extracted x h w = (case x of Inl status \<Rightarrow> ((status, EmptyReply), w) | Inr a \<Rightarrow> h a w)"

fun http_handle ::
    "http_libs \<Rightarrow> ('w, 'x) http_state_scheme \<Rightarrow> (nat \<Rightarrow> nat \<Rightarrow> nat \<times> nat) \<Rightarrow> (nat \<Rightarrow> email_id) \<Rightarrow> route \<Rightarrow> http_request \<Rightarrow> 'w \<Rightarrow>
     (nat \<times> http_reply) \<times> 'w" where
  "http_handle L S ck ids LiveRoute rq w = (http_live, w)"
| "http_handle L S ck ids ReadyRoute rq w = http_ready S w"
| "http_handle L S ck ids ListEmailsRoute rq w =
     extracted (hl_emails_query L (rq_query rq)) (\<lambda>q w. http_respond (http_list_emails L S q w)) w"
| "http_handle L S ck ids (EmailEventsRoute i) rq w =
     extracted (hl_events_query L (rq_query rq)) (\<lambda>q w. http_respond (http_list_events_for_email L S i q w)) w"
| "http_handle L S ck ids ListEventsRoute rq w =
     extracted (hl_events_query L (rq_query rq)) (\<lambda>q w. http_respond (http_list_events L S q w)) w"
| "http_handle L S ck ids ListSendersRoute rq w = http_respond (http_list_senders L S w)"
| "http_handle L S ck ids SubmitRoute rq w = http_respond (http_submit_email L S ck (ids 0) rq w)"
| "http_handle L S ck ids SubmitBatchRoute rq w =
     extracted (hl_batch_json L rq) (\<lambda>reqs w. http_respond (http_submit_batch L S ids reqs w)) w"

definition http_serve ::
    "http_libs \<Rightarrow> ('w, 'x) http_state_scheme \<Rightarrow> string option \<Rightarrow> (nat \<Rightarrow> nat \<Rightarrow> nat \<times> nat) \<Rightarrow> (nat \<Rightarrow> email_id) \<Rightarrow> http_request \<Rightarrow> 'w \<Rightarrow>
     (nat \<times> http_reply) \<times> 'w" where
  "http_serve L S api_key ck ids rq w =
     (case match_route (rq_method rq) (rq_path rq) of
        None \<Rightarrow> ((hl_unmatched L rq, EmptyReply), w)
      | Some r \<Rightarrow>
          (case (if protected_route r then api_key else None) of
             None \<Rightarrow> http_handle L S ck ids r rq w
           | Some key \<Rightarrow>
               (case require_api_key key rq of
                  Inl status \<Rightarrow> ((status, EmptyReply), w)
                | Inr _ \<Rightarrow> http_handle L S ck ids r rq w)))"

section \<open>Configuration\<close>

record inbound_http_config =
  ihc_address :: string
  ihc_api_key :: "string option"
  ihc_request_timeout_secs :: nat

text \<open>\<open>parse_addr\<close> says which strings \<open>SocketAddr\<close> accepts.\<close>

definition inbound_http_from_env ::
    "(string \<Rightarrow> bool) \<Rightarrow> (string \<Rightarrow> env_var) \<Rightarrow> string \<Rightarrow> anyhow + inbound_http_config" where
  "inbound_http_from_env parse_addr env prefix =
     (let address_key = prefix @ ''_ADDRESS'' in
      case env address_key of
        Present raw \<Rightarrow>
          (if \<not> parse_addr raw then Err (''invalid '' @ address_key)
           else
             (let api_key = (case env (prefix @ ''_API_KEY'') of
                               Present v \<Rightarrow> (if trim v = [] then None else Some (trim v))
                             | _ \<Rightarrow> None) in
              map_ok (\<lambda>secs. \<lparr>ihc_address = raw, ihc_api_key = api_key, ihc_request_timeout_secs = secs\<rparr>)
                (env_uint env (prefix @ ''_REQUEST_TIMEOUT_SECS'') 30 u64_max)))
      | _ \<Rightarrow> Err (''missing env var '' @ address_key))"

section \<open>Accepted input\<close>

text \<open>What every input that reaches the use case satisfies.\<close>

definition input_size_ok :: "attachment_input \<Rightarrow> bool" where
  "input_size_ok a =
     (case a of InlineInput f t bytes \<Rightarrow> length bytes \<le> max_attachment_bytes | StreamInput f t r \<Rightarrow> False | RemoteInput f t u \<Rightarrow> True)"

definition http_input_ok :: "http_libs \<Rightarrow> submit_email_input \<Rightarrow> bool" where
  "http_input_ok L i \<longleftrightarrow>
     hl_email_address L (si_sender i) \<and> si_recipients i \<noteq> [] \<and>
     list_all (\<lambda>(k, a). hl_email_address L a) (si_recipients i) \<and> body_ok (si_body i) \<and>
     length (si_attachments i) \<le> max_attachments_per_email \<and> list_all input_size_ok (si_attachments i)"

lemma valid_recipients_ok:
  "collect_results (\<lambda>r. if hl_email_address L (hr_address r) then Ok (recipient_kind_of_http (hr_kind r), hr_address r)
       else Err e) rs = Inr out \<Longrightarrow>
     length out = length rs \<and> list_all (\<lambda>(k, a). hl_email_address L a) out"
  by (induction rs arbitrary: out) (auto split: if_splits sum.splits)

lemma validate_recipients_ok:
  "validate_recipients L rs = Inr out \<Longrightarrow> out \<noteq> [] \<and> list_all (\<lambda>(k, a). hl_email_address L a) out"
  unfolding validate_recipients_def by (fastforce dest: valid_recipients_ok split: if_splits)

lemma body_of_http_ok: "body_of_http L b = Inr body \<Longrightarrow> body_ok body"
  by (cases b) (auto simp: plain_body_def remote_mjml_body_def map_ok_eq_Inr plain_try_new_def plain_ok_def
      split: if_splits option.splits)

lemma attachment_input_size: "attachment_dto_to_input L a = Inr i \<Longrightarrow> input_size_ok i"
  by (auto simp: attachment_dto_to_input_def input_size_ok_def split: option.splits if_splits)

lemma attachments_size: "collect_results (attachment_dto_to_input L) as = Inr out \<Longrightarrow> list_all input_size_ok out"
  by (auto simp: collect_results_Inr list_all_length list_all2_conv_all_nth intro: attachment_input_size)

lemmas envelope_checks =
  bind_sum_Inr validate_sender_def submit_input_of_def http_input_ok_def

lemma request_input_ok: "request_into_submit_input L r = Inr i \<Longrightarrow> http_input_ok L i"
  by (auto simp: request_into_submit_input_def envelope_checks split: if_splits
      dest!: validate_recipients_ok body_of_http_ok dest: attachments_size collect_results_length)

lemma core_input_ok:
  "core_into_submit_input L r atts = Inr i \<Longrightarrow> length atts \<le> max_attachments_per_email \<Longrightarrow> list_all input_size_ok atts \<Longrightarrow>
     http_input_ok L i"
  by (auto simp: core_into_submit_input_def envelope_checks split: if_splits dest!: validate_recipients_ok body_of_http_ok)

lemma multipart_fields_ok:
  "multipart_fields L ck fs failed env atts = Inr (env', atts') \<Longrightarrow>
     length atts \<le> max_attachments_per_email \<Longrightarrow> list_all input_size_ok atts \<Longrightarrow>
     length atts' \<le> max_attachments_per_email \<and> list_all input_size_ok atts'"
proof (induction L ck fs failed env atts rule: multipart_fields.induct)
  case (2 L ck field rest failed envelope attachments)
  note fields = "2.prems" [simplified, unfolded Let_def limited_to_end_exact]
  show ?case
  proof (cases "mf_name field = Some ''envelope''")
    case True
    with "2.IH"(1) [OF refl] "2.prems" show ?thesis
      by (auto simp: Let_def split: sum.splits option.splits)
  next
    case not_env: False
    show ?thesis
    proof (cases "mf_name field = Some ''attachment''")
      case True
      then obtain filename buf where fn: "\<not> max_attachments_per_email \<le> length attachments"
          "mf_file_name field = Some filename"
          "limited_to_end (ck (length rest)) 0 (limited_new (mf_data field) max_attachment_bytes) [] = Inr buf"
        using "2.prems"(1) by (auto simp: Let_def split: if_splits sum.splits option.splits)
      have small: "length buf \<le> max_attachment_bytes"
        using fn(3) by (auto simp: limited_to_end_exact capped_Inr)
      show ?thesis
        using "2.IH"(2) [OF refl _ _ fn(1,2) refl fn(3)] "2.prems" True fn small
        by (auto simp: Let_def input_size_ok_def split: option.splits)
    next
      case False
      then have "(case mf_name field of None \<Rightarrow> [] | Some n \<Rightarrow> n) \<noteq> ''envelope''"
          "(case mf_name field of None \<Rightarrow> [] | Some n \<Rightarrow> n) \<noteq> ''attachment''"
        using not_env by (auto split: option.splits)
      with "2.IH"(3) [OF refl] "2.prems" show ?thesis by (simp add: Let_def)
    qed
  qed
qed (auto split: if_splits)

lemma http_submit_input_ok: "http_submit_input L ck rq = Inr input \<Longrightarrow> http_input_ok L input"
proof (cases "is_multipart_form_data (rq_content_type rq)")
  case True
  assume "http_submit_input L ck rq = Inr input"
  with True obtain fs failed env atts
    where "multipart_fields L ck fs failed None [] = Inr (Some env, atts)" "core_into_submit_input L env atts = Inr input"
    by (auto simp: http_submit_input_def handle_multipart_def bind_sum_Inr split: option.splits)
  then show ?thesis using multipart_fields_ok core_input_ok by fastforce
qed (auto simp: http_submit_input_def handle_json_def intro: request_input_ok split: option.splits)

text \<open>C28: Every input the HTTP API hands to the use case, whether the request is JSON, a multipart form in whatever
  pieces it arrives, or an item of a batch, is well formed: sender and recipients are valid addresses and there is a
  recipient, a plain body has text or HTML, there are at most 10 attachments, none is a stream, and none that was
  sent inline is larger than 25 MiB.\<close>

theorem http_accepts_valid_input:
  "(http_submit_input L ck rq = Inr input \<or> request_into_submit_input L req = Inr input) \<Longrightarrow> http_input_ok L input"
  by (auto intro: http_submit_input_ok request_input_ok)

text \<open>Libraries and a request for the examples: addresses need an at sign, base64 and URLs are taken as they are.\<close>

definition sample_request :: submit_email_request where
  "sample_request =
     \<lparr>ec_idempotency_key = None, ec_correlation_id = None, ec_subject = Some ''hi'', ec_sender = ''a@x.org'',
      ec_recipients = [\<lparr>hr_kind = HttpTo, hr_address = ''b@x.org''\<rparr>], ec_body = HttpPlain (Some ''text'') None,
      ec_variables = [], sr_attachments = []\<rparr>"

definition sample_libs :: http_libs where
  "sample_libs =
     \<lparr>hl_email_address = (\<lambda>s. CHR ''@'' \<in> set s), hl_base64_decode = (\<lambda>s. Some (str_bytes s)),
      hl_url_parse = (\<lambda>s. Some \<lparr>url_str = s, url_scheme = ''https'', url_host = Some ''x.org''\<rparr>),
      hl_uuid_parse = (\<lambda>s. if s = ''7'' then Some 7 else None), hl_uuid_string = (\<lambda>u. if u = 7 then ''7'' else ''8''),
      hl_to_bytes = (\<lambda>rd m. if length (reader_bytes rd) \<le> m then Some (reader_bytes rd) else None),
      hl_request_json = (\<lambda>bs. if bs = [] then None else Some sample_request),
      hl_envelope_json = (\<lambda>bs. if bs = [] then None else Some (envelope_core.truncate sample_request)),
      hl_batch_json = (\<lambda>rq. Ok [sample_request]),
      hl_multipart = (\<lambda>rq. Some ([], False)),
      hl_emails_query = (\<lambda>q. Err 400), hl_events_query = (\<lambda>q. Err 400), hl_unmatched = (\<lambda>rq. 404)\<rparr>"

definition sample_input_of_request :: submit_email_input where
  "sample_input_of_request =
     \<lparr>si_idempotency_key = None, si_correlation_id = None, si_subject = Some ''hi'', si_sender = ''a@x.org'',
      si_recipients = [(To, ''b@x.org'')], si_body = BodyPlain \<lparr>plain_text = Some ''text'', plain_html = None\<rparr>,
      si_variables = [], si_attachments = []\<rparr>"

lemma sample_request_input: "request_into_submit_input sample_libs sample_request = Inr sample_input_of_request"
  by (simp add: request_into_submit_input_def validate_sender_def validate_recipients_def sample_libs_def sample_request_def
      sample_input_of_request_def plain_body_def plain_try_new_def submit_input_of_def)

theorem http_accepts_valid_input_witness: "http_input_ok sample_libs sample_input_of_request"
  using http_accepts_valid_input [of sample_libs "\<lambda>_ _. (0, 0)" undefined sample_input_of_request sample_request]
    sample_request_input by blast

section \<open>The API key gate\<close>

lemma str_bytes_inj: "str_bytes a = str_bytes b \<longleftrightarrow> a = b"
proof -
  have "inj (\<lambda>c :: char. word_of_nat (of_char c) :: byte)"
  proof (rule injI)
    fix x y :: char
    assume "(word_of_nat (of_char x) :: byte) = word_of_nat (of_char y)"
    then have "unat (word_of_nat (of_char x) :: byte) = unat (word_of_nat (of_char y) :: byte)" by simp
    moreover have "(of_char c :: nat) < 256" for c :: char by (rule nat_of_char_less_256)
    ultimately have "(of_char x :: nat) = of_char y" by (simp add: unat_of_nat)
    then show "x = y" by simp
  qed
  then show ?thesis unfolding str_bytes_def by (rule inj_map_eq_map)
qed

lemma or_xor_fold:
  fixes d :: byte
  shows "length a = length b \<Longrightarrow> foldl (\<lambda>diff (x, y). or diff (xor x y)) d (zip a b) = 0 \<longleftrightarrow> d = 0 \<and> a = b"
proof (induction a b arbitrary: d rule: list_induct2)
  case (Cons x xs y ys)
  have "or d (xor x y) = 0 \<longleftrightarrow> d = 0 \<and> x = y"
    by (auto simp: bit_eq_iff bit_simps)
  then show ?case using Cons.IH [of "or d (xor x y)"] by auto
qed simp

lemma constant_time_eq_exact: "constant_time_eq a b \<longleftrightarrow> a = b"
  using or_xor_fold [of a b 0] by (auto simp: constant_time_eq_def)

lemma require_api_key_exact:
  "require_api_key key rq = (if rq_authorization rq = Some (HeaderText (''Bearer '' @ key)) then Inr () else Inl 401)"
proof (cases "Option.bind (rq_authorization rq) header_to_str")
  case None
  then show ?thesis by (auto simp: require_api_key_def)
next
  case (Some h)
  then have h: "rq_authorization rq = Some (HeaderText h)"
    by (cases "rq_authorization rq"; cases "the (rq_authorization rq)") auto
  show ?thesis
    using Some h by (cases "strip_prefix ''Bearer '' h")
      (auto simp: require_api_key_def constant_time_eq_exact str_bytes_inj strip_prefix_Some)
qed

text \<open>C26: With an API key configured, a request for anything but the two health probes is answered 401 and touches nothing
  unless its \<open>Authorization\<close> header is exactly \<open>Bearer\<close>, a space and the key; with that header, and on the health
  probes with any header, the answer is that of the handler.  The comparison that folds the xor of the bytes is
  equality of the keys.\<close>

theorem http_api_key_gate:
  "http_serve L S (Some key) ck ids rq w =
     (case match_route (rq_method rq) (rq_path rq) of
        None \<Rightarrow> ((hl_unmatched L rq, EmptyReply), w)
      | Some r \<Rightarrow>
          if r = LiveRoute \<or> r = ReadyRoute \<or> rq_authorization rq = Some (HeaderText (''Bearer '' @ key))
          then http_handle L S ck ids r rq w
          else ((401, EmptyReply), w))"
proof (cases "match_route (rq_method rq) (rq_path rq)")
  case (Some r)
  then show ?thesis by (cases r) (simp_all add: http_serve_def require_api_key_exact)
qed (simp add: http_serve_def)

section \<open>Batches\<close>

text \<open>The reference: the items that convert, with their positions, are submitted in order until one fails.\<close>

fun valid_items :: "http_libs \<Rightarrow> nat \<Rightarrow> submit_email_request list \<Rightarrow> (nat \<times> submit_email_input) list" where
  "valid_items L k [] = []"
| "valid_items L k (r # rs) =
     (case request_into_submit_input L r of Inl e \<Rightarrow> [] | Inr i \<Rightarrow> [(k, i)]) @ valid_items L (Suc k) rs"

fun submit_each ::
    "(email_id \<Rightarrow> submit_email_input \<Rightarrow> 'w \<Rightarrow> (submit_email_error + email_id) \<times> 'w) \<Rightarrow> (nat \<Rightarrow> email_id) \<Rightarrow>
     (nat \<times> submit_email_input) list \<Rightarrow> 'w \<Rightarrow> (submit_email_error + (nat \<times> email_id) list) \<times> 'w" where
  "submit_each sub ids [] w = (Inr [], w)"
| "submit_each sub ids ((k, i) # is) w =
     and_then (sub (ids k) i) (\<lambda>j. and_then (submit_each sub ids is) (\<lambda>js. done_with ((k, j) # js))) w"

definition item_result :: "http_libs \<Rightarrow> (nat \<times> email_id) list \<Rightarrow> nat \<Rightarrow> submit_email_request \<Rightarrow> batch_item_result" where
  "item_result L js k r =
     (case request_into_submit_input L r of
        Inl e \<Rightarrow> Rejected (envelope_conversion_message e)
      | Inr i \<Rightarrow> Accepted (id_string L (the (map_of js k))))"

fun item_results :: "http_libs \<Rightarrow> (nat \<times> email_id) list \<Rightarrow> nat \<Rightarrow> submit_email_request list \<Rightarrow> batch_item_result list" where
  "item_results L js k [] = []"
| "item_results L js k (r # rs) = item_result L js k r # item_results L js (Suc k) rs"

lemma length_item_results [simp]: "length (item_results L js k rs) = length rs"
  by (induction rs arbitrary: k) auto

lemma nth_item_results: "n < length rs \<Longrightarrow> item_results L js k rs ! n = item_result L js (k + n) (rs ! n)"
  by (induction rs arbitrary: k n) (auto simp: nth_Cons')

lemma item_results_later: "n < k \<Longrightarrow> item_results L ((n, j) # js) k rs = item_results L js k rs"
  by (induction rs arbitrary: k) (auto simp: item_result_def split: sum.splits)

lemma submit_items_spec:
  "submit_items L S ids reqs results w =
     (case submit_each (hs_submit S) ids (valid_items L (length results) reqs) w of
        (Inl e, w') \<Rightarrow> (Inl (AppSubmit e), w')
      | (Inr js, w') \<Rightarrow> (Inr (results @ item_results L js (length results) reqs), w'))"
proof (induction reqs arbitrary: results w)
  case (Cons req reqs)
  let ?n = "length results"
  show ?case
  proof (cases "request_into_submit_input L req")
    case (Inl e)
    then show ?thesis
      using Cons.IH [of "results @ [Rejected (envelope_conversion_message e)]" w]
      by (simp add: item_result_def split: prod.splits sum.splits)
  next
    case input: (Inr input)
    obtain r w1 where sub: "hs_submit S (ids ?n) input w = (r, w1)" by (rule prod.exhaust)
    show ?thesis
    proof (cases r)
      case (Inl e)
      then show ?thesis using input sub by (simp add: and_then_def)
    next
      case j: (Inr j)
      obtain q w2 where each: "submit_each (hs_submit S) ids (valid_items L (Suc ?n) reqs) w1 = (q, w2)" by (rule prod.exhaust)
      show ?thesis
        using input sub j each Cons.IH [of "results @ [Accepted (id_string L j)]" w1]
        by (cases q) (simp_all add: and_then_def done_with_def item_result_def item_results_later)
    qed
  qed
qed simp

text \<open>C27: A batch of at most 100 items behaves like submitting, one after the other and in order, exactly those items that pass
  validation: the results are aligned with the items, an item is rejected with the message of its own validation
  error and no effect, and the others are accepted under the id their submission returned.  The first submission
  that fails ends the batch with that error, in the state the earlier submissions left.  A larger batch has no effect.\<close>

theorem http_batch_reference:
  "http_submit_batch L S ids reqs w =
     (if 100 < length reqs then (Inl (BadRequestRaw ''batch exceeds maximum of 100 emails''), w)
      else case submit_each (hs_submit S) ids (valid_items L 0 reqs) w of
             (Inl e, w') \<Rightarrow> (Inl (AppSubmit e), w')
           | (Inr js, w') \<Rightarrow> (Inr (BatchReply (item_results L js 0 reqs)), w'))"
  by (simp add: http_submit_batch_def max_emails_per_batch_def and_then_def done_with_def
      submit_items_spec [where results = "[]", simplified] split: prod.splits sum.splits)

section \<open>Listing through the API\<close>

text \<open>However the query is chosen, a listing asks the use case for at most 100 rows.\<close>

lemma page_limit_le: "page_limit l \<le> 100"
  by (simp add: page_limit_def max_limit_def)

lemma http_list_emails_page:
  "http_list_emails L S q w = (Inr (EmailsReply es limit offs), w') \<Longrightarrow>
     limit \<le> 100 \<and> (\<exists>p recs. le_limit p = limit \<and> le_offset p = offs \<and>
       hs_list_emails S p w = (Inr recs, w') \<and> es = map (email_record_to_dto L) recs)"
  by (simp add: http_list_emails_def Let_def st_results split: sum.splits)
    (metis page_limit_le list_emails_params.select_convs(7,8))

end
