(* ===== verification/HttpSystem.thy ===== *)
theory HttpSystem
  imports System HttpApi
begin

text \<open>
  The HTTP API on top of the adapters (\<open>binary/src/state.rs\<close>): each use case of \<open>http_state\<close> is the model of the
  service, run on the SQLite and filesystem world of the theory \<open>System\<close>.  The lemmas say what an answer tells the
  caller about the state of the system.
\<close>

definition sys_http ::
    "(url \<Rightarrow> attachment_fetch_error + reader) \<Rightarrow> sender_config list \<Rightarrow>
     ((int \<times> sender_name list) list \<Rightarrow> (int \<times> sender_name list) list) \<Rightarrow> world http_state" where
  "sys_http fetch configs order =
     \<lparr>hs_submit = (\<lambda>i input. submit_execute (sys_ports fetch) i input),
      hs_list_emails = (\<lambda>p. on_db (list_emails_execute sqlite_list_emails p)),
      hs_list_events = (\<lambda>p. on_db (list_events_execute sqlite_list_events p)),
      hs_list_senders = (\<lambda>w. on_db (list_senders configs sqlite_get_stats order (w_now w)) w),
      hs_readiness = on_db (check_readiness sqlite_check)\<rparr>"

text \<open>What the submission of one valid input with this idempotency key does, said of queue, events, rows and blobs only: the
  row \<open>j\<close> was stored before under the key, and nothing changes; or the key was not in use, and the new email is stored under it
  and queued.\<close>

definition queued_once :: "string option \<Rightarrow> email_id \<Rightarrow> world \<Rightarrow> email_id \<Rightarrow> world \<Rightarrow> bool" where
  "queued_once key i w j w' \<longleftrightarrow>
     sys_view w' = sys_view w \<and> key \<noteq> None \<and> (\<exists>refs. v_rows (sys_view w) j = Some (key, refs))
     \<or> j = i \<and> v_rows (sys_view w) i = None \<and> key_free key (sys_view w) \<and> (\<exists>refs. v_rows (sys_view w') i = Some (key, refs)) \<and>
       v_jobs (sys_view w') = v_jobs (sys_view w) @ [i]"

definition nothing_queued :: "email_id \<Rightarrow> world \<Rightarrow> world \<Rightarrow> bool" where
  "nothing_queued i w w' \<longleftrightarrow>
     v_jobs (sys_view w') = v_jobs (sys_view w) \<and> v_events (sys_view w') = v_events (sys_view w) \<and>
     (\<forall>j. j \<noteq> i \<longrightarrow> v_rows (sys_view w') j = v_rows (sys_view w) j) \<and> v_blobs (sys_view w) \<subseteq>\<^sub>m v_blobs (sys_view w')"

lemma nothing_queued_refl [simp]: "nothing_queued i w w"
  by (simp add: nothing_queued_def)

lemma sys_submit_Ok:
  assumes "sys_inv w" "http_input_ok L input" "submit_execute (sys_ports fetch) i input w = (Inr j, w')"
  shows "sys_inv w' \<and> queued_once (si_idempotency_key input) i w j w'"
proof -
  have "body_ok (si_body input)" using assms(2) by (simp add: http_input_ok_def)
  from stack.submit_Ok [OF assms(1) this assms(3)] show ?thesis
    by (auto simp: queued_once_def view_after_submit_def)
qed

lemma sys_submit_Err:
  assumes "sys_inv w" "http_input_ok L input" "submit_execute (sys_ports fetch) i input w = (Inl e, w')"
  shows "sys_inv w' \<and> nothing_queued i w w'"
proof -
  have "body_ok (si_body input)" using assms(2) by (simp add: http_input_ok_def)
  from stack.submit_Err [OF assms(1) this assms(3)] show ?thesis by (simp add: nothing_queued_def)
qed

lemma app_error_status: "fst (app_error_response e) \<in> {400, 500}"
  by (cases e rule: app_error_response.cases) auto

text \<open>C25: The answer to a submission over HTTP tells the caller the truth: 200 carries the id of an email that exists under the
  request's idempotency key: newly stored under a fresh id and an unused key, and queued exactly once; or stored before under
  that very key, and then nothing has changed; any
  other status is 400 or 500, and then no queue entry and no event was added, no other email changed and no blob
  was lost, whatever the request and whichever database and file operations failed.\<close>

theorem http_submit_answer:
  assumes "sys_inv w"
    and "http_handle L (sys_http fetch configs order) ck ids SubmitRoute rq w = ((status, reply), w')"
  shows "sys_inv w' \<and>
    (status = 200 \<and> (\<exists>input j. http_submit_input L ck rq = Inr input \<and> reply = SubmitReply (id_string L j) \<and>
       queued_once (si_idempotency_key input) (ids 0) w j w')
     \<or> (status = 400 \<or> status = 500) \<and> nothing_queued (ids 0) w w')"
proof (cases "http_submit_input L ck rq")
  case (Inl e)
  with assms app_error_status [of e] show ?thesis
    by (auto simp: http_submit_email_def http_respond_def split: prod.splits)
next
  case input: (Inr input)
  then have ok: "http_input_ok L input" by (rule http_submit_input_ok)
  obtain r w1 where run: "submit_execute (sys_ports fetch) (ids 0) input w = (r, w1)" by (rule prod.exhaust)
  show ?thesis
  proof (cases r)
    case (Inl e)
    with run input assms(2) have "w' = w1" "status = fst (app_error_response (AppSubmit e))"
      by (auto simp: http_submit_email_def http_respond_def sys_http_def and_then_def map_err_st_def split: prod.splits)
    with sys_submit_Err [OF assms(1) ok run [unfolded Inl]] app_error_status [of "AppSubmit e"] show ?thesis by auto
  next
    case (Inr j)
    with run input assms(2) have "w' = w1" "status = 200" "reply = SubmitReply (id_string L j)"
      by (auto simp: http_submit_email_def http_respond_def sys_http_def and_then_def map_err_st_def done_with_def split: prod.splits)
    with sys_submit_Ok [OF assms(1) ok run [unfolded Inr]] input show ?thesis by auto
  qed
qed

section \<open>Examples\<close>

definition sample_http :: "world http_state" where
  "sample_http = sys_http no_fetch [] id"

definition sample_post :: http_request where
  "sample_post =
     \<lparr>rq_method = POST, rq_path = [''emails''], rq_query = [], rq_authorization = None, rq_content_type = None,
      rq_body = Reader [1] None\<rparr>"

definition sample_ids :: "nat \<Rightarrow> email_id" where
  "sample_ids n = EmailId (7 + n)"

lemma sample_post_input: "http_submit_input sample_libs ck sample_post = Inr sample_input_of_request"
  using sample_request_input
  by (simp add: http_submit_input_def is_multipart_form_data_def handle_json_def sample_post_def sample_libs_def max_request_body_bytes_def)

lemma sample_http_submit: "hs_submit sample_http i input = submit_execute (sys_ports no_fetch) i input"
  by (simp add: sample_http_def sys_http_def)

lemmas submit_steps =
  submit_execute_def sys_ports_def on_db_def on_files_def with_id_def record_refs_def w_now_def Let_def
  sqlite_enqueue_def sqlite_publish_def map_err_st_def and_then_def stmt_def done_with_def queue_row_of_def event_row_of_def
  insert_entry_def insert_event_def email_ids_def

lemma sample_first:
  "\<exists>w r. submit_execute (sys_ports no_fetch) (EmailId 7) sample_input_of_request empty_world = (Inr (EmailId 7), w) \<and>
     db_emails (w_db w) = [r] \<and> er_id r = EmailId 7 \<and> db_faults (w_db w) = []"
  by (simp add: sample_save [unfolded empty_db_def, simplified] submit_steps empty_world_def sample_input_of_request_def uuid_ok_def empty_db_def empty_fs_def email_row_of_def
      envelope_of_input_def)

theorem http_submit_answer_witness:
  "\<exists>w'. http_handle sample_libs sample_http (\<lambda>_ _. (0, 0)) sample_ids SubmitRoute sample_post empty_world
      = ((200, SubmitReply ''7''), w') \<and> v_jobs (sys_view w') = [EmailId 7]"
proof -
  obtain w where w: "submit_execute (sys_ports no_fetch) (EmailId 7) sample_input_of_request empty_world = (Inr (EmailId 7), w)"
    using sample_first by blast
  then have h: "http_handle sample_libs sample_http (\<lambda>_ _. (0, 0)) sample_ids SubmitRoute sample_post empty_world
      = ((200, SubmitReply ''7''), w)"
    by (simp add: http_submit_email_def sample_post_input sample_http_submit http_respond_def and_then_def map_err_st_def
        done_with_def sample_ids_def id_string_def) (simp add: sample_libs_def)
  have "v_jobs (sys_view empty_world) = []" "v_rows (sys_view empty_world) j = None" for j
    by (simp_all add: sys_view_def empty_world_def empty_db_def find_email_def)
  then show ?thesis
    using http_submit_answer [OF empty_world_inv(1) h [unfolded sample_http_def]] h
    by (auto simp: queued_once_def sample_ids_def)
qed

text \<open>A batch of an email that is fine and one whose remote attachment cannot be fetched.\<close>

definition remote_request :: submit_email_request where
  "remote_request = sample_request
     \<lparr>sr_attachments := [\<lparr>ha_filename = ''f'', ha_content_type = ''t'', ha_inline_base64 = None, ha_url = Some ''u''\<rparr>]\<rparr>"

definition remote_input :: submit_email_input where
  "remote_input = sample_input_of_request
     \<lparr>si_attachments := [RemoteInput ''f'' ''t'' \<lparr>url_str = ''u'', url_scheme = ''https'', url_host = Some ''x.org''\<rparr>]\<rparr>"

lemma remote_request_input: "request_into_submit_input sample_libs remote_request = Inr remote_input"
  by (simp add: request_into_submit_input_def validate_sender_def validate_recipients_def sample_libs_def sample_request_def
      remote_request_def sample_input_of_request_def remote_input_def plain_body_def plain_try_new_def submit_input_of_def
      attachment_dto_to_input_def max_attachments_per_email_def)

lemma remote_second:
  assumes "db_emails (w_db w) = [r]" "er_id r = EmailId 7" "db_faults (w_db w) = []"
  shows "\<exists>w'. submit_execute (sys_ports no_fetch) (EmailId 8) remote_input w =
     (Inl (SubmitAttachmentFetch (FetchFailed ''no network'')), w')"
proof -
  have "\<not> email_conflict (email_row_of now (EmailId 8) (envelope_of_input remote_input [])) (w_db w)" for now
    using assms by (simp add: email_conflict_def email_ids_def email_row_of_def envelope_of_input_def remote_input_def
        sample_input_of_request_def)
  from save_fresh [OF assms(3) this] show ?thesis
    by (simp add: submit_execute_def sys_ports_def on_db_def open_input_def remote_input_def no_fetch_def)
qed

text \<open>The documentation promises partial acceptance, with a \<open>500\<close> that aborts the whole batch on infrastructure failures.
  But when the remote attachment of one item cannot be fetched, the whole batch is answered \<open>400 invalid request\<close>,
  without a word about the items before it, which are queued and will be sent.\<close>

theorem http_batch_partial_effect:
  "\<exists>w'. http_respond (http_submit_batch sample_libs sample_http sample_ids [sample_request, remote_request] empty_world)
      = ((400, ErrorReply ''invalid request''), w') \<and> v_jobs (sys_view w') = [EmailId 7]"
proof -
  obtain w r where first: "submit_execute (sys_ports no_fetch) (EmailId 7) sample_input_of_request empty_world = (Inr (EmailId 7), w)"
      "db_emails (w_db w) = [r]" "er_id r = EmailId 7" "db_faults (w_db w) = []"
    using sample_first by blast
  obtain w' where second: "submit_execute (sys_ports no_fetch) (EmailId 8) remote_input w =
     (Inl (SubmitAttachmentFetch (FetchFailed ''no network'')), w')"
    using remote_second [OF first(2-4)] by blast
  have empty: "v_jobs (sys_view empty_world) = []" "v_rows (sys_view empty_world) j = None" for j
    by (simp_all add: sys_view_def empty_world_def empty_db_def find_email_def)
  have "sys_inv w" "v_jobs (sys_view w) = [EmailId 7]"
    using sys_submit_Ok [OF empty_world_inv(1) request_input_ok [OF sample_request_input] first(1)] empty
    by (auto simp: queued_once_def)
  then have "v_jobs (sys_view w') = [EmailId 7]"
    using sys_submit_Err [OF _ request_input_ok [OF remote_request_input] second] by (simp add: nothing_queued_def)
  then show ?thesis
    using first(1) second sample_request_input remote_request_input
    by (simp add: http_submit_batch_def max_emails_per_batch_def and_then_def http_respond_def sample_http_submit sample_ids_def)
qed

end
