(* ===== verification/Remote.thy ===== *)
theory Remote
  imports Ports
begin

text \<open>
  The two adapters that reach out over HTTP: the fetcher of remote attachments
  (\<open>adapter/outbound-attachment-fetcher/src/fetcher.rs\<close>) and the template resolver
  (\<open>adapter/outbound-resolver/src/resolver.rs\<close>), with their configuration.

  The HTTP client (crate \<open>reqwest\<close>) is a parameter: a function of the world that sends a request and returns the
  response or an error.  So is what crate \<open>http\<close> accepts as header names and values, and the decoding of a body as text.
  Redirects are the client's business: the fetcher's client is built to follow none, the resolver's with the default, so that
  one call of it can be several requests; \<open>default_redirects\<close> states what the library documents of them.
\<close>

record http_response =
  hp_status :: nat
  hp_content_length :: "nat option"
  hp_body :: reader

section \<open>The attachment fetcher\<close>

record fetcher_config =
  fc_allowed_domains :: "string list"
  fc_allow_http :: bool
  fc_max_bytes :: nat
  fc_fetch_timeout_ms :: nat

definition fetcher_config_default :: fetcher_config where
  "fetcher_config_default =
     \<lparr>fc_allowed_domains = [], fc_allow_http = False, fc_max_bytes = 25 * 1024 * 1024, fc_fetch_timeout_ms = 30000\<rparr>"

definition parse_allow_http :: "string \<Rightarrow> string \<Rightarrow> anyhow + bool" where
  "parse_allow_http prefix v =
     (if v = ''true'' then Ok True
      else if v = ''false'' \<or> v = [] then Ok False
      else Err (''invalid '' @ prefix @ ''_ALLOW_HTTP value: '' @ debug_str v))"

definition fetcher_config_from_env :: "(string \<Rightarrow> env_var) \<Rightarrow> string \<Rightarrow> anyhow + fetcher_config" where
  "fetcher_config_from_env env prefix =
     (let text = (\<lambda>key. case env_ok_var env key of None \<Rightarrow> [] | Some v \<Rightarrow> v) in
      bind_sum (parse_allow_http prefix (text (prefix @ ''_ALLOW_HTTP''))) (\<lambda>allow_http.
      bind_sum (env_u64_or env (prefix @ ''_MAX_BYTES'') (25 * 1024 * 1024)) (\<lambda>max_bytes.
      bind_sum (env_u64_or env (prefix @ ''_FETCH_TIMEOUT_MS'') 30000) (\<lambda>timeout.
        Ok \<lparr>fc_allowed_domains = comma_list (text (prefix @ ''_ALLOWED_DOMAINS'')), fc_allow_http = allow_http,
            fc_max_bytes = max_bytes, fc_fetch_timeout_ms = timeout\<rparr>))))"

record http_fetcher =
  hf_allowed_domains :: "string list"
  hf_allow_http :: bool
  hf_max_bytes :: nat

definition fetch_domain :: "string \<Rightarrow> string" where
  "fetch_domain host = trim_end_matches CHR ''.'' (to_ascii_lowercase host)"

definition fetcher_new :: "string list \<Rightarrow> bool \<Rightarrow> nat \<Rightarrow> http_fetcher" where
  "fetcher_new domains allow_http max_bytes =
     \<lparr>hf_allowed_domains = map fetch_domain domains, hf_allow_http = allow_http, hf_max_bytes = max_bytes\<rparr>"

text \<open>\<open>AsyncReadExt::take(n)\<close> read to the end: the wrapped reader is not polled again once \<open>n\<close> bytes came.\<close>

definition take_to_end :: "nat \<Rightarrow> reader \<Rightarrow> anyhow + byte list" where
  "take_to_end n rd =
     (if n \<le> length (reader_bytes rd) then Ok (take n (reader_bytes rd)) else read_to_end rd)"

definition url_host_str :: "url \<Rightarrow> string" where
  "url_host_str u = (case url_host u of None \<Rightarrow> [] | Some h \<Rightarrow> h)"

text \<open>\<open>max_bytes + 1\<close> is computed in \<open>u64\<close>; release builds wrap.\<close>

definition fetch_limit :: "http_fetcher \<Rightarrow> nat" where
  "fetch_limit F = (hf_max_bytes F + 1) mod 2 ^ 64"

definition read_response :: "http_fetcher \<Rightarrow> http_response \<Rightarrow> attachment_fetch_error + reader" where
  "read_response F resp =
     (if \<not> (200 \<le> hp_status resp \<and> hp_status resp < 300) then
        Err (FetchFailed ''attachment fetch returned non-2xx status'')
      else if (case hp_content_length resp of None \<Rightarrow> False | Some cl \<Rightarrow> hf_max_bytes F < cl) then Err TooLarge
      else case take_to_end (fetch_limit F) (hp_body resp) of
             Inl e \<Rightarrow> Err (FetchFailed ''reading attachment body'')
           | Inr buf \<Rightarrow> if length buf = fetch_limit F then Err TooLarge else Ok (cursor buf))"

definition fetcher_fetch ::
    "(url \<Rightarrow> 'w \<Rightarrow> (anyhow + http_response) \<times> 'w) \<Rightarrow> http_fetcher \<Rightarrow> url \<Rightarrow> 'w \<Rightarrow> (attachment_fetch_error + reader) \<times> 'w" where
  "fetcher_fetch client F u w =
     (let scheme = url_scheme u in
      if \<not> (scheme = ''https'' \<or> scheme = ''http'' \<and> hf_allow_http F) then (Err (SchemeNotAllowed scheme), w)
      else if fetch_domain (url_host_str u) \<notin> set (hf_allowed_domains F) then
        (Err (FetchDomainNotAllowed (url_host_str u)), w)
      else case client u w of
             (Inl e, w') \<Rightarrow> (Err (FetchFailed ''fetching attachment''), w')
           | (Inr resp, w') \<Rightarrow> (read_response F resp, w'))"

text \<open>The policy: the scheme is https, or http where that is allowed, and the host is on the list up to case and trailing dots.\<close>

definition fetch_allowed :: "http_fetcher \<Rightarrow> url \<Rightarrow> bool" where
  "fetch_allowed F u \<longleftrightarrow>
     (url_scheme u = ''https'' \<or> url_scheme u = ''http'' \<and> hf_allow_http F) \<and>
     fetch_domain (url_host_str u) \<in> set (hf_allowed_domains F)"

lemma fetch_domain_idem [simp]: "fetch_domain (fetch_domain h) = fetch_domain h"
proof -
  have "to_ascii_lowercase (trim_end_matches c (to_ascii_lowercase h)) = trim_end_matches c (to_ascii_lowercase h)" for c
    by (rule map_idI [of _ ascii_lower, folded to_ascii_lowercase_def])
      (auto simp: trim_end_matches_def to_ascii_lowercase_def dest!: set_dropWhileD)
  then show ?thesis by (simp add: fetch_domain_def)
qed

lemma fetch_limit_less: "hf_max_bytes F < u64_max \<Longrightarrow> fetch_limit F = hf_max_bytes F + 1"
  by (simp add: fetch_limit_def u64_max_def)

lemma fetch_limit_wraps: "hf_max_bytes F = u64_max \<Longrightarrow> fetch_limit F = 0"
  by (simp add: fetch_limit_def u64_max_def)

lemma read_response_Ok:
  assumes "hf_max_bytes F \<le> u64_max"
  shows "read_response F resp = Inr rd \<longleftrightarrow>
    hf_max_bytes F < u64_max \<and> 200 \<le> hp_status resp \<and> hp_status resp < 300 \<and>
    (\<forall>cl. hp_content_length resp = Some cl \<longrightarrow> cl \<le> hf_max_bytes F) \<and> reader_error (hp_body resp) = None \<and>
    length (reader_bytes (hp_body resp)) \<le> hf_max_bytes F \<and> rd = cursor (reader_bytes (hp_body resp))"
proof (cases "hf_max_bytes F = u64_max")
  case True
  then show ?thesis by (auto simp: read_response_def take_to_end_def fetch_limit_wraps split: option.splits)
next
  case False
  with assms have "hf_max_bytes F < u64_max" by simp
  then show ?thesis
    by (auto simp: read_response_def take_to_end_def read_to_end_def fetch_limit_less not_less split: option.splits)
qed

text \<open>C30: A remote attachment is fetched only from an https URL (or http where allowed) whose host is on the list, and what is
  returned is the whole body of a successful response of at most \<open>max_bytes\<close> bytes; any other URL is refused
  without a request.  With the largest possible \<open>max_bytes\<close> nothing is ever returned: the limit wraps to zero.\<close>

theorem attachment_fetch_exact:
  assumes "hf_max_bytes F \<le> u64_max"
  shows "(fetcher_fetch client F u w = (Inr rd, w') \<longleftrightarrow>
      fetch_allowed F u \<and> hf_max_bytes F < u64_max \<and>
      (\<exists>resp. client u w = (Inr resp, w') \<and> 200 \<le> hp_status resp \<and> hp_status resp < 300 \<and>
         (\<forall>cl. hp_content_length resp = Some cl \<longrightarrow> cl \<le> hf_max_bytes F) \<and> reader_error (hp_body resp) = None \<and>
         length (reader_bytes (hp_body resp)) \<le> hf_max_bytes F \<and> rd = cursor (reader_bytes (hp_body resp)))) \<and>
    (\<not> fetch_allowed F u \<longrightarrow> snd (fetcher_fetch client F u w) = w \<and> \<not> is_ok (fst (fetcher_fetch client F u w)))"
proof (cases "fetch_allowed F u")
  case True
  then have "fetcher_fetch client F u w =
      (case client u w of (Inl e, w') \<Rightarrow> (Err (FetchFailed ''fetching attachment''), w') | (Inr resp, w') \<Rightarrow> (read_response F resp, w'))"
    by (auto simp: fetcher_fetch_def fetch_allowed_def)
  then show ?thesis using True assms
    by (auto simp: read_response_Ok split: prod.splits sum.splits)
qed (auto simp: fetcher_fetch_def fetch_allowed_def Let_def)

text \<open>A client that always answers with three bytes.\<close>

definition echo_client :: "url \<Rightarrow> nat \<Rightarrow> (anyhow + http_response) \<times> nat" where
  "echo_client u n = (Ok \<lparr>hp_status = 200, hp_content_length = None, hp_body = Reader [1, 2, 3] None\<rparr>, Suc n)"

theorem attachment_fetch_exact_witness:
  "fetcher_fetch echo_client (fetcher_new [''Files.example.org.''] False 3)
     \<lparr>url_str = ''https://files.example.org/a'', url_scheme = ''https'', url_host = Some ''files.example.org''\<rparr> 0
   = (Inr (cursor [1, 2, 3]), 1)"
proof -
  let ?F = "fetcher_new [''Files.example.org.''] False 3"
  have "hf_max_bytes ?F \<le> u64_max" by (simp add: fetcher_new_def u64_max_def)
  moreover have "fetch_allowed ?F \<lparr>url_str = ''https://files.example.org/a'', url_scheme = ''https'', url_host = Some ''files.example.org''\<rparr>"
    by code_simp
  ultimately show ?thesis
    by (subst attachment_fetch_exact [THEN conjunct1]) (simp_all add: fetcher_new_def u64_max_def echo_client_def)
qed

section \<open>The template resolver\<close>

record resolver_auth_entry =
  rae_host :: string
  rae_bearer_token :: "string option"
  rae_headers :: "(string \<times> string) list"

text \<open>\<open>rl_header_name\<close> gives the canonical form of a valid header name.\<close>

record resolver_libs =
  rl_header_name :: "string \<Rightarrow> string option"
  rl_header_value_ok :: "string \<Rightarrow> bool"
  rl_text :: "byte list \<Rightarrow> string"

type_synonym header_map = "(string \<times> string) list"

record template_resolver =
  tr_templates :: "string \<rightharpoonup> string"
  tr_allowed_domains :: "string list"
  tr_auth_headers :: "string \<rightharpoonup> header_map"

definition bearer_header :: "resolver_libs \<Rightarrow> resolver_auth_entry \<Rightarrow> anyhow + header_map" where
  "bearer_header L e =
     (case rae_bearer_token e of
        None \<Rightarrow> Ok []
      | Some token \<Rightarrow>
          if rl_header_value_ok L (''Bearer '' @ token) then Ok [(''authorization'', ''Bearer '' @ token)]
          else Err (''invalid resolver bearer token for host '' @ rae_host e))"

fun append_headers ::
    "resolver_libs \<Rightarrow> resolver_auth_entry \<Rightarrow> (string \<times> string) list \<Rightarrow> header_map \<Rightarrow> anyhow + header_map" where
  "append_headers L e [] m = Ok m"
| "append_headers L e ((name, value) # hs) m =
     (case rl_header_name L name of
        None \<Rightarrow> Err (''invalid header name for host '' @ rae_host e)
      | Some header_name \<Rightarrow>
          if rae_bearer_token e \<noteq> None \<and> header_name = ''authorization'' then
            Err (''conflicting Authorization header for host '' @ rae_host e)
          else if \<not> rl_header_value_ok L value then
            Err (''invalid header value for host '' @ rae_host e @ '' header '' @ name)
          else append_headers L e hs (m @ [(header_name, value)]))"

definition entry_headers :: "resolver_libs \<Rightarrow> resolver_auth_entry \<Rightarrow> anyhow + header_map" where
  "entry_headers L e = bind_sum (bearer_header L e) (append_headers L e (rae_headers e))"

fun build_auth_headers ::
    "resolver_libs \<Rightarrow> resolver_auth_entry list \<Rightarrow> (string \<rightharpoonup> header_map) \<Rightarrow> anyhow + (string \<rightharpoonup> header_map)" where
  "build_auth_headers L [] m = Ok m"
| "build_auth_headers L (e # es) m =
     (if m (rae_host e) \<noteq> None then Err (''duplicate host in resolver auth entries: '' @ rae_host e)
      else bind_sum (entry_headers L e) (\<lambda>hs. build_auth_headers L es (m(rae_host e \<mapsto> hs))))"

definition resolver_new ::
    "resolver_libs \<Rightarrow> (string \<rightharpoonup> string) \<Rightarrow> string list \<Rightarrow> resolver_auth_entry list \<Rightarrow> anyhow + template_resolver" where
  "resolver_new L templates allowed entries =
     map_ok (\<lambda>auth. \<lparr>tr_templates = templates, tr_allowed_domains = allowed, tr_auth_headers = auth\<rparr>)
       (build_auth_headers L entries Map.empty)"

definition check_domain :: "template_resolver \<Rightarrow> url \<Rightarrow> resolve_error + unit" where
  "check_domain R u =
     (if url_host_str u \<in> set (tr_allowed_domains R) then Ok () else Err (TemplateDomainNotAllowed (url_str u)))"

definition request_headers :: "template_resolver \<Rightarrow> url \<Rightarrow> header_map" where
  "request_headers R u = (case Option.bind (url_host u) (tr_auth_headers R) of None \<Rightarrow> [] | Some hs \<Rightarrow> hs)"

text \<open>\<open>client\<close> is the library's \<open>send\<close>: one call of it may be several requests, since the client is built with the default
  policy, which follows redirects (\<open>default_redirects\<close> below).\<close>

definition resolve_remote ::
    "resolver_libs \<Rightarrow> (url \<Rightarrow> header_map \<Rightarrow> 'w \<Rightarrow> (anyhow + http_response) \<times> 'w) \<Rightarrow> template_resolver \<Rightarrow> url \<Rightarrow> 'w \<Rightarrow>
     (resolve_error + string) \<times> 'w" where
  "resolve_remote L client R u w =
     (case client u (request_headers R u) w of
        (Inl e, w') \<Rightarrow> (Err (TemplateFetch (url_str u) ''http request failed''), w')
      | (Inr resp, w') \<Rightarrow>
          (if 400 \<le> hp_status resp \<and> hp_status resp < 600 then Err (TemplateFetch (url_str u) ''http error response'')
           else case read_to_end (hp_body resp) of
                  Inl e \<Rightarrow> Err (TemplateFetch (url_str u) ''reading response body'')
                | Inr bytes \<Rightarrow> Ok (rl_text L bytes), w'))"

fun resolve_mjml ::
    "resolver_libs \<Rightarrow> (url \<Rightarrow> header_map \<Rightarrow> 'w \<Rightarrow> (anyhow + http_response) \<times> 'w) \<Rightarrow> template_resolver \<Rightarrow> mjml_source \<Rightarrow> 'w \<Rightarrow>
     (resolve_error + string) \<times> 'w" where
  "resolve_mjml L client R (MjmlInline s) w = (Ok s, w)"
| "resolve_mjml L client R (MjmlNamed name) w = (ok_or (TemplateNotFound name) (tr_templates R name), w)"
| "resolve_mjml L client R (MjmlRemote u) w =
     (case check_domain R u of Inl e \<Rightarrow> (Err e, w) | Inr _ \<Rightarrow> resolve_remote L client R u w)"

fun template_resolve ::
    "resolver_libs \<Rightarrow> (url \<Rightarrow> header_map \<Rightarrow> 'w \<Rightarrow> (anyhow + http_response) \<times> 'w) \<Rightarrow> template_resolver \<Rightarrow> body_source \<Rightarrow> 'w \<Rightarrow>
     (resolve_error + resolved_body) \<times> 'w" where
  "template_resolve L client R (BodyPlain p) w = (Ok (ResolvedPlain p), w)"
| "template_resolve L client R (BodyMjml m) w = apfst (map_ok ResolvedMjml) (resolve_mjml L client R m w)"

section \<open>Resolver configuration\<close>

text \<open>A directory entry: its extension and stem as far as they are Unicode, and what reading the file gives.\<close>

record template_file =
  tf_path :: string
  tf_extension :: "string option"
  tf_stem :: "string option"
  tf_content :: "string option"

definition load_template_entry :: "anyhow + template_file \<Rightarrow> anyhow + (string \<times> string) option" where
  "load_template_entry raw =
     (case raw of
        Inl _ \<Rightarrow> Err ''reading directory entry''
      | Inr f \<Rightarrow>
          if tf_extension f \<noteq> Some ''mjml'' then Ok None
          else bind_sum (ok_or (''invalid template filename: '' @ tf_path f) (tf_stem f)) (\<lambda>name.
               map_ok (\<lambda>content. Some (name, content)) (ok_or (''reading template '' @ tf_path f) (tf_content f))))"

definition load_templates_from_dir ::
    "(string \<Rightarrow> anyhow + (anyhow + template_file) list) \<Rightarrow> string \<Rightarrow> anyhow + (string \<rightharpoonup> string)" where
  "load_templates_from_dir read_dir dir =
     bind_sum (map_err (\<lambda>_. ''reading templates directory '' @ dir) (read_dir dir)) (\<lambda>entries.
       map_ok (\<lambda>found. foldl (\<lambda>m (name, content). m(name \<mapsto> content)) Map.empty (List.map_filter id found))
         (collect_results load_template_entry entries))"

record resolver_config =
  rc_allowed_domains :: "string list"
  rc_templates_dir :: "string option"
  rc_auth_entries :: "resolver_auth_entry list"

definition header_fragment :: "string \<Rightarrow> string" where
  "header_fragment name = map (\<lambda>c. if c = CHR ''-'' then CHR ''_'' else c) (to_ascii_uppercase name)"

fun header_entries ::
    "(string \<Rightarrow> env_var) \<Rightarrow> string \<Rightarrow> string \<Rightarrow> string list \<Rightarrow> (string \<rightharpoonup> string) \<Rightarrow> anyhow + (string \<times> string) list" where
  "header_entries env key_prefix entry [] seen = Ok []"
| "header_entries env key_prefix entry (h # hs) seen =
     (case seen (header_fragment h) of
        Some prior \<Rightarrow>
          Err (''header names '' @ prior @ '' and '' @ h @ '' for entry '' @ entry @ '' both map to fragment '' @ header_fragment h)
      | None \<Rightarrow>
          (let value_key = key_prefix @ ''_HEADER_'' @ header_fragment h @ ''_VALUE'' in
           bind_sum (ok_or (''missing or empty env var '' @ value_key) (env_trimmed env value_key)) (\<lambda>value.
           map_ok (\<lambda>rest. (h, value) # rest) (header_entries env key_prefix entry hs (seen(header_fragment h \<mapsto> h))))))"

definition auth_entry_of_env :: "(string \<Rightarrow> env_var) \<Rightarrow> string \<Rightarrow> string \<Rightarrow> anyhow + resolver_auth_entry" where
  "auth_entry_of_env env prefix name =
     (let key_prefix = prefix @ ''_TOKEN_'' @ to_ascii_uppercase name; host_key = key_prefix @ ''_HOST'' in
      bind_sum (ok_or (''missing or empty env var '' @ host_key) (env_trimmed env host_key)) (\<lambda>host.
      let bearer_token = env_trimmed env (key_prefix @ ''_BEARER_TOKEN'') in
      bind_sum (case env_ok_var env (key_prefix @ ''_HEADERS'') of
                  None \<Rightarrow> Ok []
                | Some v \<Rightarrow> header_entries env key_prefix name (comma_list v) Map.empty) (\<lambda>headers.
      if bearer_token = None \<and> headers = [] then
        Err (''auth entry '' @ name @ '' has a host but no bearer token or headers'')
      else Ok \<lparr>rae_host = host, rae_bearer_token = bearer_token, rae_headers = headers\<rparr>)))"

definition resolver_config_from_lookup :: "(string \<Rightarrow> env_var) \<Rightarrow> string \<Rightarrow> anyhow + resolver_config" where
  "resolver_config_from_lookup env prefix =
     (let listed = (\<lambda>key. case env_ok_var env key of None \<Rightarrow> [] | Some v \<Rightarrow> comma_list v) in
      map_ok (\<lambda>entries. \<lparr>rc_allowed_domains = listed (prefix @ ''_ALLOWED_DOMAINS''),
                         rc_templates_dir = env_ok_var env (prefix @ ''_TEMPLATES_DIR''), rc_auth_entries = entries\<rparr>)
        (collect_results (auth_entry_of_env env prefix) (listed (prefix @ ''_TOKENS''))))"

definition resolver_config_build ::
    "resolver_libs \<Rightarrow> (string \<Rightarrow> anyhow + (anyhow + template_file) list) \<Rightarrow> resolver_config \<Rightarrow> anyhow + template_resolver" where
  "resolver_config_build L read_dir cfg =
     bind_sum (case rc_templates_dir cfg of None \<Rightarrow> Ok Map.empty | Some dir \<Rightarrow> load_templates_from_dir read_dir dir) (\<lambda>templates.
       map_err (\<lambda>_. ''building template resolver adapter'')
         (resolver_new L templates (rc_allowed_domains cfg) (rc_auth_entries cfg)))"

section \<open>Where requests and secrets go\<close>

lemma build_auth_step:
  "build_auth_headers L (e # es) m = Inr m' \<longleftrightarrow>
     m (rae_host e) = None \<and> (\<exists>hs. entry_headers L e = Inr hs \<and> build_auth_headers L es (m(rae_host e \<mapsto> hs)) = Inr m')"
  by (simp add: bind_sum_Inr)

lemma build_auth_from:
  "build_auth_headers L es m = Inr m' \<Longrightarrow> m' h = Some hs \<Longrightarrow>
     m h = Some hs \<or> (\<exists>e\<in>set es. rae_host e = h \<and> entry_headers L e = Inr hs)"
proof (induction es arbitrary: m)
  case (Cons e es)
  then obtain hs' where e: "entry_headers L e = Inr hs'" "build_auth_headers L es (m(rae_host e \<mapsto> hs')) = Inr m'"
    unfolding build_auth_step by blast
  from Cons.IH [OF e(2) Cons.prems(2)] e(1) show ?case by (auto split: if_splits)
qed simp

text \<open>What crate \<open>reqwest\<close> documents of its default redirect policy, for the requests \<open>hops u hs\<close> that one call sends, each with those
  of the caller's headers that it carries: the first is the caller's, each later one goes where the response to the one before
  redirects, there are at most ten of them, none carries a header that the one before did not, and none carries the caller's
  \<open>Authorization\<close> to another host.\<close>

definition redirect_step :: "(url \<times> header_map \<Rightarrow> url option) \<Rightarrow> url \<times> header_map \<Rightarrow> url \<times> header_map \<Rightarrow> bool" where
  "redirect_step redirected a b \<longleftrightarrow>
     redirected a = Some (fst b) \<and> set (snd b) \<subseteq> set (snd a) \<and>
     (url_host (fst b) \<noteq> url_host (fst a) \<longrightarrow> ''authorization'' \<notin> fst ` set (snd b))"

definition default_redirects ::
    "(url \<times> header_map \<Rightarrow> url option) \<Rightarrow> (url \<Rightarrow> header_map \<Rightarrow> (url \<times> header_map) list) \<Rightarrow> bool" where
  "default_redirects redirected hops \<longleftrightarrow>
     (\<forall>u hs. \<exists>later. hops u hs = (u, hs) # later \<and> length later \<le> 10 \<and>
        successively (redirect_step redirected) ((u, hs) # later))"

text \<open>An \<open>Authorization\<close> header is lost for good at the first change of the host.\<close>

lemma redirects_keep_secret:
  "successively (redirect_step redirected) (a # later) \<Longrightarrow> b \<in> set (a # later) \<Longrightarrow>
     set (snd b) \<subseteq> set (snd a) \<and> (''authorization'' \<in> fst ` set (snd b) \<longrightarrow> url_host (fst b) = url_host (fst a))"
proof (induction later arbitrary: a)
  case (Cons c later)
  then have step: "redirect_step redirected a c" and rest: "successively (redirect_step redirected) (c # later)" by simp_all
  show ?case
  proof (cases "b = a")
    case False
    with Cons.prems(2) have "b \<in> set (c # later)" by simp
    from Cons.IH [OF rest this] have b: "set (snd b) \<subseteq> set (snd c)"
        "''authorization'' \<in> fst ` set (snd b) \<longrightarrow> url_host (fst b) = url_host (fst c)" by auto
    from step have c: "set (snd c) \<subseteq> set (snd a)"
        "''authorization'' \<in> fst ` set (snd c) \<longrightarrow> url_host (fst c) = url_host (fst a)"
      by (auto simp: redirect_step_def)
    have "''authorization'' \<in> fst ` set (snd b) \<longrightarrow> ''authorization'' \<in> fst ` set (snd c)" using b(1) by (meson image_mono subsetD)
    then have "''authorization'' \<in> fst ` set (snd b) \<longrightarrow> url_host (fst b) = url_host (fst a)" using b(2) c(2) by (elim impCE) simp_all
    with subset_trans [OF b(1) c(1)] show ?thesis ..
  qed simp
qed simp

lemma resolver_first_request:
  assumes "resolver_config_build L read_dir cfg = Inr R" "template_resolve L client R body w = (r, w')" "w' \<noteq> w"
  shows "\<exists>u hs. body = BodyMjml (MjmlRemote u) \<and> url_host_str u \<in> set (rc_allowed_domains cfg) \<and>
    (hs = [] \<or> (\<exists>e\<in>set (rc_auth_entries cfg). url_host u = Some (rae_host e) \<and> entry_headers L e = Inr hs)) \<and>
    w' = snd (client u hs w)"
proof -
  from assms(1) obtain templates auth where R:
      "R = \<lparr>tr_templates = templates, tr_allowed_domains = rc_allowed_domains cfg, tr_auth_headers = auth\<rparr>"
      "build_auth_headers L (rc_auth_entries cfg) Map.empty = Inr auth"
    by (auto simp: resolver_config_build_def resolver_new_def bind_sum_Inr map_ok_eq_Inr)
  obtain m where body: "body = BodyMjml m" using assms(2,3) by (cases body) auto
  obtain u where u: "m = MjmlRemote u" using assms(2,3) body by (cases m) auto
  have check: "check_domain R u = Inr ()" using assms(2,3) body u by (cases "check_domain R u") auto
  have "w' = snd (client u (request_headers R u) w)"
    using assms(2) body u check by (auto simp: resolve_remote_def split: prod.splits sum.splits if_splits)
  moreover have "request_headers R u = [] \<or>
      (\<exists>e\<in>set (rc_auth_entries cfg). url_host u = Some (rae_host e) \<and> entry_headers L e = Inr (request_headers R u))"
    using build_auth_from [OF R(2)] R(1)
    by (cases "url_host u") (auto simp: request_headers_def split: option.splits)
  moreover have "url_host_str u \<in> set (rc_allowed_domains cfg)" using check R(1) by (auto simp: check_domain_def split: if_splits)
  ultimately show ?thesis using body u by blast
qed


definition any_resolver_libs :: resolver_libs where
  "any_resolver_libs = \<lparr>rl_header_name = Some, rl_header_value_ok = (\<lambda>_. True), rl_text = map (\<lambda>b. char_of (unat b))\<rparr>"

definition sample_resolver_config :: resolver_config where
  "sample_resolver_config =
     \<lparr>rc_allowed_domains = [''t.org''], rc_templates_dir = None,
      rc_auth_entries = [\<lparr>rae_host = ''t.org'', rae_bearer_token = Some ''x'', rae_headers = [(''x-key'', ''y'')]\<rparr>]\<rparr>"

definition sample_template_url :: url where
  "sample_template_url = \<lparr>url_str = ''https://t.org/a'', url_scheme = ''https'', url_host = Some ''t.org''\<rparr>"

definition elsewhere :: url where
  "elsewhere = \<lparr>url_str = ''https://e.org/a'', url_scheme = ''https'', url_host = Some ''e.org''\<rparr>"

text \<open>The allowed host redirects to one that is not allowed, which is then sent the configured header.\<close>

definition sample_redirected :: "url \<times> header_map \<Rightarrow> url option" where
  "sample_redirected a = (if fst a = sample_template_url then Some elsewhere else None)"

definition sample_hops :: "url \<Rightarrow> header_map \<Rightarrow> (url \<times> header_map) list" where
  "sample_hops u hs =
     (u, hs) # (if u = sample_template_url then [(elsewhere, filter (\<lambda>(n, v). n \<noteq> ''authorization'') hs)] else [])"


end
