(* ===== verification/RedisStore.thy ===== *)
theory RedisStore
  imports FsStore "HOL-Library.Char_ord" "HOL-Library.List_Lexorder" "HOL-Library.Product_Lexorder"
begin

text \<open>
  The Redis attachment store (\<open>adapter/outbound-attachment-redis/src/store.rs\<close>): blobs are string values, and
  a sorted set, the index, holds their keys with the second they were stored.

  Redis is modelled by its documented commands on a key space of strings and sorted sets.  A call may fail
  before the server runs it or after, when only the reply is lost; a transaction runs all its commands even when one of
  them fails.
\<close>

section \<open>Redis\<close>

datatype redis_value = RString "byte list" | RZset "(string \<times> int) list"

type_synonym redis_keys = "string \<rightharpoonup> redis_value"

datatype redis_fault = NoFault | NotRun | ReplyLost

text \<open>A command reports whether it succeeded; one that meets a value of the wrong type changes nothing.\<close>

type_synonym redis_command = "redis_keys \<Rightarrow> bool \<times> redis_keys"

definition redis_set :: "string \<Rightarrow> byte list \<Rightarrow> redis_command" where
  "redis_set k v m = (True, m(k \<mapsto> RString v))"

definition redis_del :: "string \<Rightarrow> redis_command" where
  "redis_del k m = (True, m(k := None))"

definition redis_zadd :: "string \<Rightarrow> string \<Rightarrow> int \<Rightarrow> redis_command" where
  "redis_zadd k member score m =
     (case m k of
        None \<Rightarrow> (True, m(k \<mapsto> RZset [(member, score)]))
      | Some (RZset z) \<Rightarrow> (True, m(k \<mapsto> RZset (AList.update member score z)))
      | Some (RString _) \<Rightarrow> (False, m))"

definition redis_zrem :: "string \<Rightarrow> string \<Rightarrow> redis_command" where
  "redis_zrem k member m =
     (case m k of
        None \<Rightarrow> (True, m)
      | Some (RZset z) \<Rightarrow>
          (let z' = AList.delete member z in (True, if z' = [] then m(k := None) else m(k \<mapsto> RZset z')))
      | Some (RString _) \<Rightarrow> (False, m))"

text \<open>\<open>ZRANGEBYSCORE\<close>: by score, members of the same score in lexicographic order.\<close>

definition redis_range :: "int \<Rightarrow> int \<Rightarrow> (string \<times> int) list \<Rightarrow> string list" where
  "redis_range lo hi z = map snd (filter (\<lambda>(score, _). lo \<le> score \<and> score \<le> hi) (sort (map (\<lambda>(k, s). (s, k)) z)))"

fun redis_tx :: "redis_command list \<Rightarrow> redis_command" where
  "redis_tx [] m = (True, m)"
| "redis_tx (c # cs) m = (let (ok, m1) = c m; (oks, m2) = redis_tx cs m1 in (ok \<and> oks, m2))"

record redis =
  rd_keys :: redis_keys
  rd_faults :: "redis_fault list"
  rd_now :: int
  rd_next :: uuid

text \<open>A value may be at most 512 MiB; the server refuses the whole request otherwise.\<close>

definition redis_max_value :: nat where
  "redis_max_value = 512 * 1024 * 1024"

definition next_fault :: "redis \<Rightarrow> redis_fault" where
  "next_fault s = (case rd_faults s of [] \<Rightarrow> NoFault | f # _ \<Rightarrow> f)"

definition redis_run :: "anyhow \<Rightarrow> redis_command \<Rightarrow> redis \<Rightarrow> (attachment_store_error + unit) \<times> redis" where
  "redis_run ctx cmd s =
     (let s0 = s\<lparr>rd_faults := tl (rd_faults s)\<rparr>; (ok, m) = cmd (rd_keys s) in
      case next_fault s of
        NotRun \<Rightarrow> (Err (StoreIo ctx), s0)
      | ReplyLost \<Rightarrow> (Err (StoreIo ctx), s0\<lparr>rd_keys := m\<rparr>)
      | NoFault \<Rightarrow> (if ok then Ok () else Err (StoreIo ctx), s0\<lparr>rd_keys := m\<rparr>))"

section \<open>The store\<close>

definition redis_index_key :: "string \<Rightarrow> string" where
  "redis_index_key prefix = prefix @ ''catapulte:attachment-index''"

definition redis_generate_key :: "string \<Rightarrow> uuid \<Rightarrow> string" where
  "redis_generate_key prefix u = prefix @ uuid_simple u"

text \<open>Seconds since the epoch, as the code computes them: a clock before 1970 counts as 1970, one beyond the range is capped.\<close>

definition epoch_secs :: "int \<Rightarrow> int" where
  "epoch_secs now = min (max now 0) i64_max"

definition redis_put :: "string \<Rightarrow> reader \<Rightarrow> redis \<Rightarrow> (attachment_store_error + put_result) \<times> redis" where
  "redis_put prefix rd s =
     (case read_to_end rd of
        Inl e \<Rightarrow> (Err (StoreIo ''failed to read attachment body''), s)
      | Inr buf \<Rightarrow>
          if \<not> uuid_ok (rd_next s) then (Err (StoreIo ''no more ids''), s)
          else
            (let key = redis_generate_key prefix (rd_next s); s1 = s\<lparr>rd_next := rd_next s + 1\<rparr>;
                 cmd = (if redis_max_value < length buf then (\<lambda>m. (False, m))
                        else redis_tx [redis_set key buf, redis_zadd (redis_index_key prefix) key (epoch_secs (rd_now s))]) in
             and_then (redis_run ''failed to store attachment in redis'' cmd) (\<lambda>_.
               done_with \<lparr>pr_blob = \<lparr>blob_backend = ''redis'', blob_key = key\<rparr>, pr_size_bytes = min (length buf) u64_max\<rparr>) s1))"

definition redis_get :: "blob_ref \<Rightarrow> redis \<Rightarrow> (attachment_store_error + reader) \<times> redis" where
  "redis_get b s =
     (let s0 = s\<lparr>rd_faults := tl (rd_faults s)\<rparr> in
      if next_fault s \<noteq> NoFault then (Err (StoreIo ''failed to get attachment from redis''), s0)
      else case rd_keys s (blob_key b) of
             Some (RString bytes) \<Rightarrow> (Ok (cursor bytes), s0)
           | Some (RZset _) \<Rightarrow> (Err (StoreIo ''failed to get attachment from redis''), s0)
           | None \<Rightarrow> (Err StoreNotFound, s0))"

definition redis_delete :: "string \<Rightarrow> blob_ref \<Rightarrow> redis \<Rightarrow> (attachment_store_error + unit) \<times> redis" where
  "redis_delete prefix b =
     redis_run ''failed to delete attachment from redis''
       (redis_tx [redis_del (blob_key b), redis_zrem (redis_index_key prefix) (blob_key b)])"

definition redis_list_keys_older_than :: "string \<Rightarrow> nat \<Rightarrow> redis \<Rightarrow> (anyhow + string list) \<times> redis" where
  "redis_list_keys_older_than prefix age s =
     (let s0 = s\<lparr>rd_faults := tl (rd_faults s)\<rparr>;
          cutoff = min (max (max (rd_now s) 0 - int age) 0) i64_max in
      if next_fault s \<noteq> NoFault then (Err ''redis ZRANGEBYSCORE failed'', s0)
      else case rd_keys s (redis_index_key prefix) of
             None \<Rightarrow> (Ok [], s0)
           | Some (RZset z) \<Rightarrow> (Ok (redis_range 0 cutoff z), s0)
           | Some (RString _) \<Rightarrow> (Err ''redis ZRANGEBYSCORE failed'', s0))"

definition redis_config_from_env :: "(string \<Rightarrow> env_var) \<Rightarrow> string \<Rightarrow> anyhow + string \<times> string" where
  "redis_config_from_env env prefix =
     (case env (prefix @ ''_URL'') of
        Present url \<Rightarrow> Ok (url, case env (prefix @ ''_PREFIX'') of Present p \<Rightarrow> p | _ \<Rightarrow> [])
      | _ \<Rightarrow> Err (''missing env var '' @ prefix @ ''_URL''))"

section \<open>Invariant\<close>

definition own_key :: "string \<Rightarrow> string \<Rightarrow> bool" where
  "own_key prefix k \<longleftrightarrow> take (length prefix) k = prefix \<and> length k = length prefix + 32"

definition redis_own :: "string \<Rightarrow> blob_ref \<Rightarrow> bool" where
  "redis_own prefix b \<longleftrightarrow> blob_backend b = ''redis'' \<and> own_key prefix (blob_key b)"

definition redis_stored :: "string \<Rightarrow> redis \<Rightarrow> blob_ref \<rightharpoonup> byte list" where
  "redis_stored prefix s b =
     (if redis_own prefix b then (case rd_keys s (blob_key b) of Some (RString bs) \<Rightarrow> Some bs | _ \<Rightarrow> None) else None)"

definition redis_index :: "string \<Rightarrow> redis_keys \<Rightarrow> (string \<times> int) list" where
  "redis_index prefix m = (case m (redis_index_key prefix) of Some (RZset z) \<Rightarrow> z | _ \<Rightarrow> [])"

text \<open>Every blob is in the index and the index holds nothing else.\<close>

definition keys_ok :: "string \<Rightarrow> redis_keys \<Rightarrow> bool" where
  "keys_ok prefix m \<longleftrightarrow>
     (\<forall>v. m (redis_index_key prefix) \<noteq> Some (RString v)) \<and> distinct (map fst (redis_index prefix m)) \<and>
     (\<forall>k. own_key prefix k \<longrightarrow> (\<exists>bs. m k = Some (RString bs)) \<and> k \<in> fst ` set (redis_index prefix m) \<or>
        m k = None \<and> k \<notin> fst ` set (redis_index prefix m)) \<and>
     (\<forall>(k, t)\<in>set (redis_index prefix m). own_key prefix k \<and> 0 \<le> t)"

definition redis_inv :: "string \<Rightarrow> redis \<Rightarrow> bool" where
  "redis_inv prefix s \<longleftrightarrow> keys_ok prefix (rd_keys s) \<and>
     (\<forall>u. rd_next s \<le> u \<longrightarrow> uuid_ok u \<longrightarrow> rd_keys s (redis_generate_key prefix u) = None)"

lemma length_uuid_simple [simp]: "length (uuid_simple u) = 32"
  by (simp add: uuid_simple_def)

lemma own_generated [simp]: "own_key prefix (redis_generate_key prefix u)"
  by (simp add: own_key_def redis_generate_key_def)

lemma own_not_index: "own_key prefix k \<Longrightarrow> k \<noteq> redis_index_key prefix"
  by (auto simp: own_key_def redis_index_key_def)

lemma index_not_own [simp]: "\<not> own_key prefix (redis_index_key prefix)"
  by (simp add: own_key_def redis_index_key_def)

lemma set_redis_range: "set (redis_range lo hi z) = {k. \<exists>t. (k, t) \<in> set z \<and> lo \<le> t \<and> t \<le> hi}"
  by (force simp: redis_range_def)

text \<open>What the two transactions do to a good key space.\<close>

definition put_keys :: "string \<Rightarrow> string \<Rightarrow> byte list \<Rightarrow> int \<Rightarrow> redis_keys \<Rightarrow> redis_keys" where
  "put_keys prefix k bs t m = m(k \<mapsto> RString bs, redis_index_key prefix \<mapsto> RZset (AList.update k t (redis_index prefix m)))"

lemma put_tx:
  assumes "keys_ok prefix m" "own_key prefix k"
  shows "redis_tx [redis_set k bs, redis_zadd (redis_index_key prefix) k t] m = (True, put_keys prefix k bs t m)"
proof -
  have "k \<noteq> redis_index_key prefix" using assms(2) by (rule own_not_index)
  then show ?thesis using assms(1)
    by (auto simp: redis_set_def redis_zadd_def put_keys_def redis_index_def keys_ok_def split: option.splits redis_value.splits)
qed

lemma index_put [simp]: "redis_index prefix (put_keys prefix k bs t m) = AList.update k t (redis_index prefix m)"
  by (simp add: redis_index_def put_keys_def)

lemma keys_ok_put:
  assumes "keys_ok prefix m" "own_key prefix k" "0 \<le> t"
  shows "keys_ok prefix (put_keys prefix k bs t m)"
proof -
  have k: "k \<noteq> redis_index_key prefix" using assms(2) by (rule own_not_index)
  have "set (AList.update k t z) \<subseteq> insert (k, t) (set z)" for z :: "(string \<times> int) list"
    by (induction z) auto
  with assms k show ?thesis
    unfolding keys_ok_def index_put
    by (auto simp: put_keys_def dom_update distinct_update update_keys own_not_index
        dest: own_not_index) blast+
qed

definition del_keys :: "string \<Rightarrow> string \<Rightarrow> redis_keys \<Rightarrow> redis_keys" where
  "del_keys prefix k m = snd (redis_tx [redis_del k, redis_zrem (redis_index_key prefix) k] m)"

lemma del_tx:
  assumes "keys_ok prefix m" "own_key prefix k"
  shows "redis_tx [redis_del k, redis_zrem (redis_index_key prefix) k] m = (True, del_keys prefix k m)"
proof -
  have "k \<noteq> redis_index_key prefix" using assms(2) by (rule own_not_index)
  then show ?thesis using assms(1)
    by (auto simp: redis_del_def redis_zrem_def del_keys_def keys_ok_def Let_def split: option.splits redis_value.splits)
qed

lemma index_del:
  assumes "keys_ok prefix m" "own_key prefix k"
  shows "redis_index prefix (del_keys prefix k m) = AList.delete k (redis_index prefix m)"
  using assms own_not_index [OF assms(2)]
  by (auto simp: del_keys_def redis_del_def redis_zrem_def redis_index_def keys_ok_def Let_def split: option.splits redis_value.splits)

lemma del_keys_apply:
  assumes "keys_ok prefix m" "own_key prefix k" "k' \<noteq> redis_index_key prefix"
  shows "del_keys prefix k m k' = (if k' = k then None else m k')"
  using assms own_not_index [OF assms(2)]
  by (auto simp: del_keys_def redis_del_def redis_zrem_def keys_ok_def Let_def split: option.splits redis_value.splits)

lemma index_no_string:
  assumes "keys_ok prefix m" "own_key prefix k"
  shows "del_keys prefix k m (redis_index_key prefix) \<noteq> Some (RString v)"
  using assms own_not_index [OF assms(2)]
  by (auto simp: del_keys_def redis_del_def redis_zrem_def keys_ok_def Let_def split: option.splits redis_value.splits)

lemma keys_ok_del:
  assumes "keys_ok prefix m" "own_key prefix k"
  shows "keys_ok prefix (del_keys prefix k m)"
proof -
  have z: "redis_index prefix (del_keys prefix k m) = AList.delete k (redis_index prefix m)"
    by (rule index_del [OF assms])
  have "set (AList.delete k zz) \<subseteq> set zz" for zz :: "(string \<times> int) list"
    by (auto simp: AList.delete_eq)
  moreover have "fst ` set (AList.delete k zz) = fst ` set zz - {k}" for zz :: "(string \<times> int) list"
    using AList.delete_keys [of k zz] by (metis list.set_map set_removeAll)
  ultimately have sets: "set (AList.delete k (redis_index prefix m)) \<subseteq> set (redis_index prefix m)"
      "fst ` set (AList.delete k (redis_index prefix m)) = fst ` set (redis_index prefix m) - {k}" by blast+
  have at: "del_keys prefix k m k' = (if k' = k then None else m k')" if "own_key prefix k'" for k'
    by (rule del_keys_apply [OF assms own_not_index [OF that]])
  have "(\<exists>bs. del_keys prefix k m k' = Some (RString bs)) \<and> k' \<in> fst ` set (AList.delete k (redis_index prefix m)) \<or>
      del_keys prefix k m k' = None \<and> k' \<notin> fst ` set (AList.delete k (redis_index prefix m))" if "own_key prefix k'" for k'
    using assms(1) that unfolding keys_ok_def at [OF that] sets(2) by auto
  moreover have "distinct (map fst (AList.delete k (redis_index prefix m)))"
    using assms(1) by (simp add: keys_ok_def distinct_delete)
  moreover have "\<forall>(k', t)\<in>set (AList.delete k (redis_index prefix m)). own_key prefix k' \<and> 0 \<le> t"
    using assms(1) sets(1) unfolding keys_ok_def by blast
  ultimately show ?thesis
    using index_no_string [OF assms] unfolding keys_ok_def z by blast
qed

section \<open>Redis keeps the promise of an attachment store\<close>

lemma stored_put:
  assumes "own_key prefix k"
  shows "redis_stored prefix (s\<lparr>rd_keys := put_keys prefix k bs t m\<rparr>) =
    (redis_stored prefix (s\<lparr>rd_keys := m\<rparr>))(\<lparr>blob_backend = ''redis'', blob_key = k\<rparr> \<mapsto> bs)"
proof
  fix b :: blob_ref
  show "redis_stored prefix (s\<lparr>rd_keys := put_keys prefix k bs t m\<rparr>) b =
    ((redis_stored prefix (s\<lparr>rd_keys := m\<rparr>))(\<lparr>blob_backend = ''redis'', blob_key = k\<rparr> \<mapsto> bs)) b"
    using assms own_not_index [of prefix "blob_key b"]
    by (cases b) (auto simp: redis_stored_def redis_own_def put_keys_def)
qed

lemma stored_del:
  assumes "keys_ok prefix m" "own_key prefix (blob_key b)" "blob_backend b = ''redis''"
  shows "redis_stored prefix (s\<lparr>rd_keys := del_keys prefix (blob_key b) m\<rparr>) = (redis_stored prefix (s\<lparr>rd_keys := m\<rparr>))(b := None)"
proof
  fix c :: blob_ref
  show "redis_stored prefix (s\<lparr>rd_keys := del_keys prefix (blob_key b) m\<rparr>) c = ((redis_stored prefix (s\<lparr>rd_keys := m\<rparr>))(b := None)) c"
    using assms(3) del_keys_apply [OF assms(1,2) own_not_index, of "blob_key c"]
    by (auto simp: redis_stored_def redis_own_def)
qed

lemma stored_keys: "rd_keys s = rd_keys s' \<Longrightarrow> redis_stored prefix s = redis_stored prefix s'"
  by (rule ext) (simp add: redis_stored_def)

lemma redis_run_cases:
  assumes "redis_run ctx cmd s = (x, s')"
  obtains (applied) "rd_keys s' = snd (cmd (rd_keys s))" "rd_next s' = rd_next s" "rd_now s' = rd_now s"
      "x = Inr () \<Longrightarrow> fst (cmd (rd_keys s))" "x = Inr () \<or> x = Inl (StoreIo ctx)"
    | (skipped) "rd_keys s' = rd_keys s" "rd_next s' = rd_next s" "rd_now s' = rd_now s" "x = Inl (StoreIo ctx)"
  using assms by (cases "next_fault s") (auto simp: redis_run_def Let_def split: prod.splits if_splits)

lemma fresh_key_inj: "uuid_ok u \<Longrightarrow> uuid_ok v \<Longrightarrow> redis_generate_key prefix u = redis_generate_key prefix v \<longleftrightarrow> u = v"
  by (simp add: redis_generate_key_def uuid_simple_inj)

lemma redis_inv_put:
  assumes "redis_inv prefix s" "uuid_ok (rd_next s)" "0 \<le> t" "rd_next s' = rd_next s + 1"
    and "rd_keys s' = put_keys prefix (redis_generate_key prefix (rd_next s)) bs t (rd_keys s)"
  shows "redis_inv prefix s'"
proof -
  have "rd_keys s' (redis_generate_key prefix u) = None" if "rd_next s + 1 \<le> u" "uuid_ok u" for u
    using that assms fresh_key_inj [of u "rd_next s" prefix] own_not_index [OF own_generated, of prefix u]
    by (auto simp: redis_inv_def put_keys_def)
  with keys_ok_put [OF _ own_generated assms(3)] assms show ?thesis by (simp add: redis_inv_def)
qed

lemma redis_inv_skip: "redis_inv prefix s \<Longrightarrow> rd_keys s' = rd_keys s \<Longrightarrow> rd_next s \<le> rd_next s' \<Longrightarrow> redis_inv prefix s'"
  by (auto simp: redis_inv_def)

lemma redis_inv_del:
  assumes "redis_inv prefix s" "own_key prefix k" "rd_keys s' = del_keys prefix k (rd_keys s)" "rd_next s' = rd_next s"
  shows "redis_inv prefix s'"
  using assms keys_ok_del [of prefix "rd_keys s" k] own_not_index [OF own_generated]
  by (auto simp: redis_inv_def del_keys_apply)

lemma epoch_secs_nonneg [simp]: "0 \<le> epoch_secs now"
  by (simp add: epoch_secs_def i64_max_def)

text \<open>A \<open>put\<close> that reached the server stored the bytes under the fresh key with the time of the call.\<close>

lemma redis_put_cases:
  assumes "redis_inv prefix s" "redis_put prefix rd s = (x, s')"
  obtains (stored) bs where "read_to_end rd = Inr bs" "uuid_ok (rd_next s)" "length bs \<le> redis_max_value"
      "rd_keys s' = put_keys prefix (redis_generate_key prefix (rd_next s)) bs (epoch_secs (rd_now s)) (rd_keys s)"
      "rd_next s' = rd_next s + 1"
      "\<And>r. x = Inr r \<Longrightarrow> r = \<lparr>pr_blob = \<lparr>blob_backend = ''redis'', blob_key = redis_generate_key prefix (rd_next s)\<rparr>, pr_size_bytes = length bs\<rparr>"
    | (failed) e where "x = Inl e" "rd_keys s' = rd_keys s" "rd_next s \<le> rd_next s'"
proof (cases "read_to_end rd")
  case (Inl e)
  with assms(2) show thesis by (intro failed) (auto simp: redis_put_def)
next
  case bs: (Inr bs)
  show thesis
  proof (cases "uuid_ok (rd_next s) \<and> length bs \<le> redis_max_value")
    case True
    then have small: "min (length bs) u64_max = length bs" by (simp add: redis_max_value_def u64_max_def)
    let ?k = "redis_generate_key prefix (rd_next s)"
    let ?cmd = "redis_tx [redis_set ?k bs, redis_zadd (redis_index_key prefix) ?k (epoch_secs (rd_now s))]"
    let ?s1 = "s\<lparr>rd_next := rd_next s + 1\<rparr>"
    obtain y s2 where run: "redis_run ''failed to store attachment in redis'' ?cmd ?s1 = (y, s2)" by (rule prod.exhaust)
    have cmd: "?cmd (rd_keys s) = (True, put_keys prefix ?k bs (epoch_secs (rd_now s)) (rd_keys s))"
      using put_tx assms(1) by (simp add: redis_inv_def)
    have x: "s' = s2" "x = (case y of Inl e \<Rightarrow> Inl e | Inr _ \<Rightarrow> Inr \<lparr>pr_blob = \<lparr>blob_backend = ''redis'', blob_key = ?k\<rparr>, pr_size_bytes = length bs\<rparr>)"
      using assms(2) bs True run small
      by (auto simp: redis_put_def Let_def and_then_def done_with_def split: sum.splits)
    from run show thesis
    proof (cases rule: redis_run_cases)
      case applied
      with stored [OF bs] True cmd x show thesis by (auto split: sum.splits)
    next
      case skipped
      with failed x show thesis by simp
    qed
  next
    case False
    with assms(2) bs show thesis
      by (intro failed [of "if uuid_ok (rd_next s) then StoreIo ''failed to store attachment in redis'' else StoreIo ''no more ids''"])
        (auto simp: redis_put_def Let_def and_then_def redis_run_def done_with_def split: redis_fault.splits if_splits)
  qed
qed

lemma redis_put_law:
  assumes "redis_inv prefix s" "redis_put prefix rd s = (x, s')"
  shows "redis_inv prefix s' \<and>
    (case x of
       Inr r \<Rightarrow> redis_own prefix (pr_blob r) \<and> reader_error rd = None \<and> redis_stored prefix s (pr_blob r) = None \<and>
         pr_size_bytes r = length (reader_bytes rd) \<and> pr_size_bytes r \<le> u64_max \<and>
         redis_stored prefix s' = (redis_stored prefix s)(pr_blob r \<mapsto> reader_bytes rd)
     | Inl e \<Rightarrow> redis_stored prefix s \<subseteq>\<^sub>m redis_stored prefix s')"
  using assms
proof (cases rule: redis_put_cases)
  case (stored bs)
  let ?b = "\<lparr>blob_backend = ''redis'', blob_key = redis_generate_key prefix (rd_next s)\<rparr>"
  have inv: "redis_inv prefix s'" using redis_inv_put [OF assms(1) stored(2) _ stored(5,4)] by simp
  have fresh: "redis_stored prefix s ?b = None"
    using assms(1) stored(2) by (auto simp: redis_stored_def redis_inv_def)
  have upd: "redis_stored prefix s' = (redis_stored prefix s)(?b \<mapsto> bs)"
    using stored_put [where prefix = prefix and k = "redis_generate_key prefix (rd_next s)" and s = s and bs = bs
        and t = "epoch_secs (rd_now s)" and m = "rd_keys s"] stored(4)
      stored_keys [of s' "s\<lparr>rd_keys := rd_keys s'\<rparr>" prefix] stored_keys [of "s\<lparr>rd_keys := rd_keys s\<rparr>" s prefix] by simp
  have bs: "bs = reader_bytes rd" "reader_error rd = None"
    using stored(1) by (auto simp: read_to_end_def split: option.splits)
  show ?thesis
  proof (cases x)
    case (Inl e)
    with inv upd fresh show ?thesis by (auto simp: map_le_def)
  next
    case (Inr r)
    with stored(3,6) inv upd fresh bs show ?thesis
      by (auto simp: redis_own_def redis_max_value_def u64_max_def)
  qed
next
  case (failed e)
  with redis_inv_skip [OF assms(1)] stored_keys [of s s'] show ?thesis by simp
qed

lemma redis_get_law:
  assumes "redis_inv prefix s" "redis_own prefix b" "redis_get b s = (x, s')"
  shows "redis_inv prefix s' \<and> redis_stored prefix s' = redis_stored prefix s \<and>
    (case x of Inr rd \<Rightarrow> \<exists>bs. redis_stored prefix s b = Some bs \<and> rd = cursor bs
     | Inl e \<Rightarrow> e = StoreNotFound \<longrightarrow> redis_stored prefix s b = None)"
proof -
  have keys: "rd_keys s' = rd_keys s" "rd_next s' = rd_next s"
    using assms(3) by (auto simp: redis_get_def Let_def split: if_splits option.splits redis_value.splits)
  then have "redis_inv prefix s'" "redis_stored prefix s' = redis_stored prefix s"
    using redis_inv_skip [OF assms(1), of s'] stored_keys [of s' s prefix] by simp_all
  moreover have "case x of Inr rd \<Rightarrow> \<exists>bs. redis_stored prefix s b = Some bs \<and> rd = cursor bs
     | Inl e \<Rightarrow> e = StoreNotFound \<longrightarrow> redis_stored prefix s b = None"
  proof (cases "next_fault s = NoFault")
    case True
    with assms(2,3) show ?thesis
      by (cases "rd_keys s (blob_key b)"; cases "the (rd_keys s (blob_key b))") (auto simp: redis_get_def redis_stored_def Let_def)
  next
    case False
    with assms(3) show ?thesis by (auto simp: redis_get_def Let_def)
  qed
  ultimately show ?thesis by simp
qed

lemma redis_delete_law:
  assumes "redis_inv prefix s" "redis_own prefix b" "redis_delete prefix b s = (x, s')"
  shows "redis_inv prefix s' \<and> (redis_stored prefix s' = (redis_stored prefix s)(b := None) \<or>
    x \<noteq> Inr () \<and> redis_stored prefix s' = redis_stored prefix s)"
proof -
  have own: "own_key prefix (blob_key b)" "blob_backend b = ''redis''" using assms(2) by (auto simp: redis_own_def)
  have ok: "keys_ok prefix (rd_keys s)" using assms(1) by (simp add: redis_inv_def)
  from assms(3) [unfolded redis_delete_def] show ?thesis
  proof (cases rule: redis_run_cases)
    case applied
    then have k: "rd_keys s' = del_keys prefix (blob_key b) (rd_keys s)" unfolding del_tx [OF ok own(1)] by simp
    have "redis_stored prefix s' = (redis_stored prefix s)(b := None)"
      using stored_del [OF ok own, of s] k stored_keys [of s' "s\<lparr>rd_keys := rd_keys s'\<rparr>" prefix]
        stored_keys [of "s\<lparr>rd_keys := rd_keys s\<rparr>" s prefix] by simp
    with redis_inv_del [OF assms(1) own(1) k applied(2)] show ?thesis by simp
  next
    case skipped
    with redis_inv_skip [OF assms(1)] stored_keys [of s' s] show ?thesis by simp
  qed
qed

interpretation redis_blobs: blob_store "redis_put prefix" redis_get "redis_delete prefix" "redis_stored prefix" "redis_inv prefix" "redis_own prefix"
  for prefix
proof (unfold_locales, goal_cases)
  case 1 with redis_put_law show ?case by fastforce
next
  case 2 with redis_put_law show ?case by fastforce
next
  case 3 with redis_get_law show ?case by fastforce
next
  case 4 with redis_get_law show ?case by fastforce
next
  case 5 with redis_delete_law show ?case by fastforce
next
  case 6 with redis_delete_law show ?case by fastforce
qed

section \<open>The index and the garbage collector\<close>

lemma update_other: "(k, t) \<in> set z \<Longrightarrow> k \<noteq> k' \<Longrightarrow> (k, t) \<in> set (AList.update k' t' z)"
  by (induction z) auto

lemma delete_other: "(k, t) \<in> set z \<Longrightarrow> k \<noteq> k' \<Longrightarrow> (k, t) \<in> set (AList.delete k' z)"
  by (auto simp: AList.delete_eq)

lemma update_member: "(k, t) \<in> set (AList.update k t z)"
  by (induction z) auto

definition indexed :: "string \<Rightarrow> redis \<Rightarrow> string \<Rightarrow> int \<Rightarrow> bool" where
  "indexed prefix s k t \<longleftrightarrow> (k, t) \<in> set (redis_index prefix (rd_keys s))"

lemma indexed_put:
  assumes "redis_inv prefix s" "indexed prefix s k t" "redis_put prefix rd s = (x, s')"
  shows "indexed prefix s' k t"
  using assms(1,3)
proof (cases rule: redis_put_cases)
  case (stored bs)
  have "rd_keys s (redis_generate_key prefix (rd_next s)) = None"
    using assms(1) stored(2) by (simp add: redis_inv_def)
  with assms(1,2) have "k \<noteq> redis_generate_key prefix (rd_next s)"
    by (force simp: redis_inv_def keys_ok_def indexed_def)
  with assms(2) stored(4) show ?thesis by (simp add: indexed_def update_other)
next
  case (failed e)
  with assms(2) show ?thesis by (simp add: indexed_def)
qed

lemma indexed_delete:
  assumes "redis_inv prefix s" "redis_own prefix b" "blob_key b \<noteq> k" "indexed prefix s k t" "redis_delete prefix b s = (x, s')"
  shows "indexed prefix s' k t"
proof -
  have own: "own_key prefix (blob_key b)" using assms(2) by (simp add: redis_own_def)
  have ok: "keys_ok prefix (rd_keys s)" using assms(1) by (simp add: redis_inv_def)
  from assms(5) [unfolded redis_delete_def] show ?thesis
  proof (cases rule: redis_run_cases)
    case applied
    then have "rd_keys s' = del_keys prefix (blob_key b) (rd_keys s)" unfolding del_tx [OF ok own] by simp
    with assms(3,4) show ?thesis by (simp add: indexed_def index_del [OF ok own] delete_other)
  next
    case skipped
    with assms(4) show ?thesis by (simp add: indexed_def)
  qed
qed

lemma redis_get_keys: "rd_keys (snd (redis_get b s)) = rd_keys s"
  by (simp add: redis_get_def Let_def split: option.splits redis_value.splits)

lemma indexed_run:
  "redis_inv prefix s \<Longrightarrow> indexed prefix s k t \<Longrightarrow>
     \<forall>c\<in>set calls. call_on (redis_own prefix) c \<and> c \<noteq> BDelete \<lparr>blob_backend = ''redis'', blob_key = k\<rparr> \<Longrightarrow>
     redis_inv prefix (blob_run (redis_put prefix) redis_get (redis_delete prefix) calls s) \<and>
     indexed prefix (blob_run (redis_put prefix) redis_get (redis_delete prefix) calls s) k t"
proof (induction calls arbitrary: s)
  case (Cons c calls)
  have step: "redis_inv prefix s' \<and> indexed prefix s' k t"
    if "s' = blob_run (redis_put prefix) redis_get (redis_delete prefix) [c] s" for s'
  proof (cases c)
    case (BPut rd)
    with that redis_put_law [OF Cons.prems(1)] indexed_put [OF Cons.prems(1,2)] show ?thesis
      by (cases "redis_put prefix rd s") auto
  next
    case (BGet b)
    with that Cons.prems redis_get_law [OF Cons.prems(1)] show ?thesis
      by (cases "redis_get b s") (auto simp: indexed_def dest: arg_cong [of _ _ snd] simp flip: redis_get_keys [of b s])
  next
    case (BDelete b)
    with Cons.prems(3) have b: "redis_own prefix b" "blob_key b \<noteq> k" by (auto simp: redis_own_def)
    with that BDelete redis_delete_law [OF Cons.prems(1)] indexed_delete [OF Cons.prems(1) b Cons.prems(2)] show ?thesis
      by (cases "redis_delete prefix b s") auto
  qed
  have "blob_run (redis_put prefix) redis_get (redis_delete prefix) (c # calls) s =
      blob_run (redis_put prefix) redis_get (redis_delete prefix) calls (blob_run (redis_put prefix) redis_get (redis_delete prefix) [c] s)"
    by (cases c) simp_all
  with step [OF refl] Cons.IH Cons.prems(3) show ?case by simp
qed simp

lemma listed_exact:
  assumes "redis_inv prefix s" "redis_list_keys_older_than prefix age s = (Inr ks, s')"
  shows "k \<in> set ks \<longleftrightarrow> (\<exists>u. indexed prefix s k u \<and> u \<le> min (max (max (rd_now s) 0 - int age) 0) i64_max)"
  using assms
  by (auto simp: redis_list_keys_older_than_def Let_def indexed_def redis_index_def set_redis_range redis_inv_def keys_ok_def
      split: if_splits option.splits redis_value.splits) blast

text \<open>C32: A blob stored in Redis lives like the port promises and can always be collected.  After a successful \<open>put\<close>, whatever
  calls on other blobs follow, in whichever of them a reply is lost, a \<open>get\<close> yields exactly the bytes or an I/O error,
  never "not found"; and the listing for the garbage collector names the blob exactly when \<open>age\<close> seconds have passed
  since it was stored (a blob stored with the clock at the epoch or before is named at once).\<close>

theorem redis_blob_lifecycle:
  assumes "redis_inv prefix s" "redis_put prefix rd s = (Inr r, s1)"
    and "\<forall>c\<in>set calls. call_on (redis_own prefix) c \<and> c \<noteq> BDelete (pr_blob r)"
    and "s2 = blob_run (redis_put prefix) redis_get (redis_delete prefix) calls s1"
  shows "fst (redis_get (pr_blob r) s2) \<in> {Inr (cursor (reader_bytes rd))} \<union> {Inl e |e. e \<noteq> StoreNotFound} \<and>
    (\<forall>ks s3. redis_list_keys_older_than prefix age (s2\<lparr>rd_now := t\<rparr>) = (Inr ks, s3) \<longrightarrow>
       (blob_key (pr_blob r) \<in> set ks \<longleftrightarrow> rd_now s \<le> 0 \<or> epoch_secs (rd_now s) + int age \<le> t))"
proof -
  let ?k = "redis_generate_key prefix (rd_next s)"
  obtain x s' where g: "redis_get (pr_blob r) s2 = (x, s')" by (rule prod.exhaust)
  from redis_blobs.put_run_get [OF assms(1-3)] g assms(4)
  have "x = Inr (cursor (reader_bytes rd)) \<or> (\<exists>e. x = Inl e \<and> e \<noteq> StoreNotFound)" by blast
  moreover have "blob_key (pr_blob r) \<in> set ks \<longleftrightarrow> rd_now s \<le> 0 \<or> epoch_secs (rd_now s) + int age \<le> t"
    if list: "redis_list_keys_older_than prefix age (s2\<lparr>rd_now := t\<rparr>) = (Inr ks, s3)" for ks s3
  proof -
    from assms(1,2) obtain bs where put: "rd_keys s1 = put_keys prefix ?k bs (epoch_secs (rd_now s)) (rd_keys s)"
        "pr_blob r = \<lparr>blob_backend = ''redis'', blob_key = ?k\<rparr>"
      by (cases rule: redis_put_cases) auto
    have "redis_inv prefix s1" using redis_put_law [OF assms(1,2)] by simp
    moreover have "indexed prefix s1 ?k (epoch_secs (rd_now s))" by (simp add: indexed_def put update_member)
    ultimately have s2: "redis_inv prefix s2" "indexed prefix s2 ?k (epoch_secs (rd_now s))"
      using indexed_run [of prefix s1] assms(3,4) put(2) by simp_all
    then have only: "u = epoch_secs (rd_now s)" if "indexed prefix s2 ?k u" for u
      using that by (auto simp: redis_inv_def keys_ok_def indexed_def dest: eq_key_imp_eq_value)
    have "redis_inv prefix (s2\<lparr>rd_now := t\<rparr>)" using s2(1) by (simp add: redis_inv_def)
    moreover have "indexed prefix (s2\<lparr>rd_now := t\<rparr>) k u \<longleftrightarrow> indexed prefix s2 k u" for k u by (simp add: indexed_def)
    ultimately have "blob_key (pr_blob r) \<in> set ks \<longleftrightarrow> (\<exists>u. indexed prefix s2 ?k u \<and> u \<le> min (max (max t 0 - int age) 0) i64_max)"
      using listed_exact [OF _ list, of ?k] by (simp add: put(2) del: min.bounded_iff)
    also have "\<dots> \<longleftrightarrow> epoch_secs (rd_now s) \<le> min (max (max t 0 - int age) 0) i64_max"
      using s2(2) only by blast
    also have "\<dots> \<longleftrightarrow> rd_now s \<le> 0 \<or> epoch_secs (rd_now s) + int age \<le> t"
      by (simp add: epoch_secs_def i64_max_def min_def max_def) linarith
    finally show ?thesis .
  qed
  ultimately show ?thesis using g by auto
qed

definition empty_redis :: redis where
  "empty_redis = \<lparr>rd_keys = Map.empty, rd_faults = [NoFault, ReplyLost], rd_now = 100, rd_next = 0\<rparr>"

lemma empty_redis_inv: "redis_inv prefix empty_redis"
  by (simp add: redis_inv_def keys_ok_def empty_redis_def redis_index_def)

lemma redis_put_run:
  assumes "redis_inv prefix s" "next_fault s = NoFault" "uuid_ok (rd_next s)" "length bs \<le> redis_max_value"
  shows "\<exists>r s1. redis_put prefix (Reader bs None) s = (Inr r, s1) \<and> redis_inv prefix s1"
proof -
  have nf: "next_fault (s\<lparr>rd_next := u\<rparr>) = NoFault" for u using assms(2) by (simp add: next_fault_def)
  have "\<exists>r s1. redis_put prefix (Reader bs None) s = (Inr r, s1)"
    using assms(3,4) put_tx [of prefix "rd_keys s" "redis_generate_key prefix (rd_next s)"] assms(1)
    by (simp add: redis_put_def read_to_end_def redis_run_def nf and_then_def done_with_def Let_def redis_inv_def del: redis_tx.simps)
  with redis_put_law [OF assms(1)] show ?thesis by blast
qed

theorem redis_blob_lifecycle_witness:
  "\<exists>r s1. redis_put ''p:'' (Reader [1, 2, 3] None) empty_redis = (Inr r, s1) \<and>
     fst (redis_get (pr_blob r) (blob_run (redis_put ''p:'') redis_get (redis_delete ''p:'') [BPut (Reader [9] None)] s1)) \<in>
       {Inr (cursor [1, 2, 3])} \<union> {Inl e |e. e \<noteq> StoreNotFound}"
proof -
  obtain r s1 where r: "redis_put ''p:'' (Reader [1, 2, 3] None) empty_redis = (Inr r, s1)"
    using redis_put_run [OF empty_redis_inv, of "[1, 2, 3]" "''p:''"]
    by (simp add: empty_redis_def next_fault_def uuid_ok_def redis_max_value_def) blast
  from redis_blob_lifecycle [OF empty_redis_inv r, of "[BPut (Reader [9] None)]" _ 0 0] r show ?thesis by fastforce
qed

end
