(* ===== verification/S3Store.thy ===== *)
theory S3Store
  imports FsStore
begin

text \<open>
  The S3 attachment store (\<open>adapter/outbound-attachment-s3/src/store.rs\<close>).  The client (crate \<open>rust-s3\<close>) is the
  record of parameters \<open>s3_client\<close>; the store's own logic is the keys it generates, how it reads the statuses, and
  the reading of \<open>LastModified\<close> timestamps, on which the garbage collector relies: \<open>s3_timestamp_exact\<close> compares it
  with the calendar.
\<close>

section \<open>Timestamps\<close>

definition slice :: "nat \<Rightarrow> nat \<Rightarrow> string \<Rightarrow> string" where
  "slice a b s = take (b - a) (drop a s)"

text \<open>Days in each month of a year that is not a leap year.\<close>

definition month_days :: "nat list" where
  "month_days = [31, 28, 31, 30, 31, 30, 31, 31, 30, 31, 30, 31]"

definition is_leap :: "nat \<Rightarrow> bool" where
  "is_leap year \<longleftrightarrow> year mod 4 = 0 \<and> year mod 100 \<noteq> 0 \<or> year mod 400 = 0"

text \<open>The callers pass years from 1970 to 9999, so the unsigned arithmetic neither wraps nor overflows.\<close>

definition gregorian_days_since_epoch :: "nat \<Rightarrow> nat \<Rightarrow> nat \<Rightarrow> nat option" where
  "gregorian_days_since_epoch year month day =
     (let y = year - 1; leap_days = y div 4 - y div 100 + y div 400 in
      if year < 1970 then None
      else
        (let days_from_years = (year - 1970) * 365 + (leap_days - (1969 div 4 - 1969 div 100 + 1969 div 400));
             month_offset = foldl (\<lambda>acc m. acc + month_days ! (m - 1)) 0 [1..<month];
             month_offset' = (if is_leap year \<and> 2 < month then month_offset + 1 else month_offset) in
         Some (days_from_years + month_offset' + (day - 1))))"

definition parse_iso8601_to_epoch :: "string \<Rightarrow> nat option" where
  "parse_iso8601_to_epoch raw =
     (let s = trim raw; num = (\<lambda>a b. parse_uint u64_max (slice a b s)) in
      if length s < 19 then None
      else
        case (num 0 4, num 5 7, num 8 10) of
          (Some year, Some month, Some day) \<Rightarrow>
            (if s ! 10 \<noteq> CHR ''T'' \<and> s ! 10 \<noteq> CHR '' '' then None
             else
               case (num 11 13, num 14 16, num 17 19) of
                 (Some hour, Some minute, Some second) \<Rightarrow>
                   (if \<not> (1 \<le> month \<and> month \<le> 12) \<or> \<not> (1 \<le> day \<and> day \<le> 31) then None
                    else if 23 < hour \<or> 59 < minute \<or> 60 < second then None
                    else if year < 1970 then None
                    else map_option (\<lambda>days. days * 86400 + hour * 3600 + minute * 60 + second)
                           (gregorian_days_since_epoch year month day))
               | _ \<Rightarrow> None)
        | _ \<Rightarrow> None)"

text \<open>\<open>now\<close> and \<open>age\<close> in nanoseconds, as a \<open>Duration\<close> has them.\<close>

definition object_is_older_than :: "string option \<Rightarrow> nat \<Rightarrow> nat \<Rightarrow> bool" where
  "object_is_older_than last_modified now age =
     (case last_modified of
        None \<Rightarrow> False
      | Some ts \<Rightarrow>
          (case parse_iso8601_to_epoch ts of
             None \<Rightarrow> False
           | Some object_epoch \<Rightarrow> age \<le> now - object_epoch * 1000000000))"

section \<open>The store\<close>

definition parse_path_style_env :: "string option \<Rightarrow> bool" where
  "parse_path_style_env value =
     (case value of None \<Rightarrow> True | Some v \<Rightarrow> \<not> eq_ignore_ascii_case (trim v) ''false'')"

record s3_config =
  s3_endpoint :: string
  s3_region :: string
  s3_bucket :: string
  s3_access_key_id :: string
  s3_secret_access_key :: string
  s3_path_style :: bool
  s3_prefix :: string

definition s3_config_from_env :: "(string \<Rightarrow> env_var) \<Rightarrow> string \<Rightarrow> anyhow + s3_config" where
  "s3_config_from_env env prefix =
     (let opt = (\<lambda>key. case env key of Present v \<Rightarrow> Some v | _ \<Rightarrow> None);
          or_else = (\<lambda>x d. case x of None \<Rightarrow> d | Some v \<Rightarrow> v) in
      bind_sum (require_env env (prefix @ ''_ENDPOINT'')) (\<lambda>endpoint.
      bind_sum (require_env env (prefix @ ''_BUCKET'')) (\<lambda>bucket.
      bind_sum (require_env env (prefix @ ''_ACCESS_KEY_ID'')) (\<lambda>access.
      bind_sum (require_env env (prefix @ ''_SECRET_ACCESS_KEY'')) (\<lambda>secret.
        Ok \<lparr>s3_endpoint = endpoint, s3_region = or_else (opt (prefix @ ''_REGION'')) ''us-east-1'', s3_bucket = bucket,
            s3_access_key_id = access, s3_secret_access_key = secret,
            s3_path_style = parse_path_style_env (opt (prefix @ ''_PATH_STYLE'')),
            s3_prefix = or_else (opt (prefix @ ''_PREFIX'')) []\<rparr>)))))"

text \<open>The client: uploads report the bytes sent, downloads a status and a stream, deletions a status, listings pages of
  keys with their \<open>LastModified\<close> text.\<close>

record 'w s3_client =
  sc_put_stream :: "string \<Rightarrow> reader \<Rightarrow> 'w \<Rightarrow> (anyhow + nat) \<times> 'w"
  sc_get_stream :: "string \<Rightarrow> 'w \<Rightarrow> (anyhow + nat \<times> reader) \<times> 'w"
  sc_delete :: "string \<Rightarrow> 'w \<Rightarrow> (anyhow + nat) \<times> 'w"
  sc_list :: "string \<Rightarrow> 'w \<Rightarrow> (anyhow + (string \<times> string) list list) \<times> 'w"

definition s3_generate_key :: "string \<Rightarrow> uuid \<Rightarrow> string" where
  "s3_generate_key prefix u = prefix @ uuid_simple u"

definition s3_put ::
    "('w, 'x) s3_client_scheme \<Rightarrow> string \<Rightarrow> uuid \<Rightarrow> reader \<Rightarrow> 'w \<Rightarrow> (attachment_store_error + put_result) \<times> 'w" where
  "s3_put C prefix u rd =
     (let key = s3_generate_key prefix u in
      and_then (map_err_st (\<lambda>_. StoreIo ''failed to upload object to S3'') (sc_put_stream C key rd)) (\<lambda>uploaded.
        done_with \<lparr>pr_blob = \<lparr>blob_backend = ''s3'', blob_key = key\<rparr>, pr_size_bytes = uploaded\<rparr>))"

definition s3_get :: "('w, 'x) s3_client_scheme \<Rightarrow> blob_ref \<Rightarrow> 'w \<Rightarrow> (attachment_store_error + reader) \<times> 'w" where
  "s3_get C b =
     and_then (map_err_st (\<lambda>_. StoreIo ''failed to get object stream from S3'') (sc_get_stream C (blob_key b)))
       (\<lambda>(status, rd).
          if status = 404 then fail_with StoreNotFound
          else if 400 \<le> status then fail_with (StoreIo ''S3 get returned status'')
          else done_with rd)"

definition s3_delete :: "('w, 'x) s3_client_scheme \<Rightarrow> blob_ref \<Rightarrow> 'w \<Rightarrow> (attachment_store_error + unit) \<times> 'w" where
  "s3_delete C b =
     and_then (map_err_st (\<lambda>_. StoreIo ''failed to delete object from S3'') (sc_delete C (blob_key b)))
       (\<lambda>status. if status = 404 \<or> status < 300 then done_with () else fail_with (StoreIo ''S3 delete returned status''))"

definition s3_list_keys_older_than ::
    "('w, 'x) s3_client_scheme \<Rightarrow> string \<Rightarrow> nat \<Rightarrow> nat \<Rightarrow> 'w \<Rightarrow> (anyhow + string list) \<times> 'w" where
  "s3_list_keys_older_than C prefix now age =
     and_then (map_err_st (\<lambda>_. ''S3 list failed'') (sc_list C prefix))
       (\<lambda>pages. done_with (concat (map (\<lambda>contents.
          map fst (filter (\<lambda>(key, modified). object_is_older_than (Some modified) now age) contents)) pages)))"

section \<open>The calendar\<close>

text \<open>The reference: the days of the years and months before, added up one by one.\<close>

definition year_length :: "nat \<Rightarrow> nat" where
  "year_length y = (if is_leap y then 366 else 365)"

definition month_length :: "nat \<Rightarrow> nat \<Rightarrow> nat" where
  "month_length y m = month_days ! (m - 1) + (if m = 2 \<and> is_leap y then 1 else 0)"

definition calendar_days :: "nat \<Rightarrow> nat \<Rightarrow> nat \<Rightarrow> nat" where
  "calendar_days y m d = (\<Sum>k = 1970..<y. year_length k) + (\<Sum>k = 1..<m. month_length y k) + (d - 1)"

text \<open>Leap years up to and including a year.\<close>

definition leaps :: "nat \<Rightarrow> nat" where
  "leaps y = y div 4 - y div 100 + y div 400"

lemma div_step: "0 < k \<Longrightarrow> Suc y div k = y div k + (if Suc y mod k = 0 then 1 else 0)" for k :: nat
  by (simp add: div_Suc)

lemma leaps_sum: "leaps y + y div 100 = y div 4 + y div 400"
proof -
  have "y div 100 \<le> y div 4" by (rule div_le_mono2) simp_all
  then show ?thesis by (simp add: leaps_def)
qed

lemma four_divides_hundred: "(4::nat) dvd 100" and hundred_divides: "(100::nat) dvd 400"
  by simp_all

lemma leap_cases: "(if Suc y mod 4 = 0 then 1 else 0) + (if Suc y mod 400 = 0 then 1 else 0)
    = (if is_leap (Suc y) then 1 else 0) + (if Suc y mod 100 = 0 then 1 else (0::nat))"
proof -
  have "Suc y mod 4 = 0" if "Suc y mod 100 = 0"
    using that by (metis mod_eq_0_iff_dvd dvd_trans dvd_triv_left four_divides_hundred)
  moreover have "Suc y mod 100 = 0" if "Suc y mod 400 = 0"
    using that by (metis mod_eq_0_iff_dvd dvd_trans hundred_divides)
  ultimately show ?thesis unfolding is_leap_def by (cases "Suc y mod 4 = 0"; cases "Suc y mod 100 = 0"; cases "Suc y mod 400 = 0"; simp only: if_True if_False simp_thms; simp)
qed

lemma leaps_Suc: "leaps (Suc y) = leaps y + (if is_leap (Suc y) then 1 else 0)"
proof -
  have "Suc y div 4 = y div 4 + (if Suc y mod 4 = 0 then 1 else 0)" by (rule div_step) simp
  moreover have "Suc y div 100 = y div 100 + (if Suc y mod 100 = 0 then 1 else 0)" by (rule div_step) simp
  moreover have "Suc y div 400 = y div 400 + (if Suc y mod 400 = 0 then 1 else 0)" by (rule div_step) simp
  ultimately show ?thesis using leaps_sum [of y] leaps_sum [of "Suc y"] leap_cases [of y] by linarith
qed

lemma leaps_mono: "a \<le> b \<Longrightarrow> leaps a \<le> leaps b"
  by (induction b rule: dec_induct) (auto simp: leaps_Suc)

lemma days_of_years: "1970 \<le> y \<Longrightarrow> (\<Sum>k = 1970..<y. year_length k) = (y - 1970) * 365 + (leaps (y - 1) - leaps 1969)"
proof (induction y rule: dec_induct)
  case (step y)
  have "leaps 1969 \<le> leaps (y - 1)"
    using step(1) by (intro leaps_mono) simp
  moreover have "leaps y = leaps (y - 1) + (if is_leap y then 1 else 0)"
    using leaps_Suc [of "y - 1"] step(1) by simp
  moreover have "(\<Sum>k = 1970..<Suc y. year_length k) = (\<Sum>k = 1970..<y. year_length k) + year_length y"
    using step(1) by simp
  moreover have "year_length y = 365 + (if is_leap y then 1 else 0)" by (simp add: year_length_def)
  moreover have "Suc y - 1970 = Suc (y - 1970)" using step(1) by simp
  ultimately show ?case using step(3) by (simp split: if_split) (auto simp: ac_simps)
qed simp

lemma months_before:
  assumes "1 \<le> m" "m \<le> 12"
  shows "foldl (\<lambda>acc k. acc + month_days ! (k - 1)) 0 [1..<m] + (if is_leap y \<and> 2 < m then 1 else 0)
    = (\<Sum>k = 1..<m. month_length y k)"
proof -
  have "m \<in> {1, 2, 3, 4, 5, 6, 7, 8, 9, 10, 11, 12}" using assms by simp arith
  then show ?thesis
    by (elim insertE emptyE; simp add: upt_conv_Cons month_days_def month_length_def numeral_2_eq_2 numeral_eq_Suc sum.atLeast_Suc_lessThan)
qed

lemma gregorian_exact:
  assumes "1970 \<le> y" "1 \<le> m" "m \<le> 12"
  shows "gregorian_days_since_epoch y m d = Some (calendar_days y m d)"
proof -
  have month: "(if is_leap y \<and> 2 < m then mo + 1 else mo) = (\<Sum>k = 1..<m. month_length y k)"
    if "mo = foldl (\<lambda>acc k. acc + month_days ! (k - 1)) 0 [1..<m]" for mo
    using months_before [OF assms(2,3), of y] that by (simp split: if_splits)
  have "\<not> y < 1970" using assms(1) by simp
  then show ?thesis
    by (simp only: gregorian_days_since_epoch_def Let_def leaps_def [symmetric] if_False month [OF refl]
        calendar_days_def days_of_years [OF assms(1)])
qed

section \<open>Printed timestamps are read back\<close>

definition dig :: "nat \<Rightarrow> char" where
  "dig n = char_of (48 + n mod 10)"

definition two_digits :: "nat \<Rightarrow> string" where
  "two_digits n = [dig (n div 10), dig n]"

definition four_digits :: "nat \<Rightarrow> string" where
  "four_digits n = [dig (n div 1000), dig (n div 100), dig (n div 10), dig n]"

text \<open>\<open>YYYY-MM-DDThh:mm:ss\<close> with whatever follows the seconds: fractions, \<open>Z\<close>, an offset.\<close>

definition timestamp_text :: "char \<Rightarrow> nat \<Rightarrow> nat \<Rightarrow> nat \<Rightarrow> nat \<Rightarrow> nat \<Rightarrow> nat \<Rightarrow> string \<Rightarrow> string" where
  "timestamp_text sep y mo d h mi sec rest =
     four_digits y @ ''-'' @ two_digits mo @ ''-'' @ two_digits d @ sep # two_digits h @ '':'' @ two_digits mi @ '':''
       @ two_digits sec @ rest"

lemma of_char_dig: "(of_char (dig n) :: nat) = 48 + n mod 10"
proof -
  have "48 + n mod 10 < 256" using mod_less_divisor [of 10 n] by simp
  then show ?thesis by (simp add: dig_def)
qed

lemma digit_val_dig [simp]: "digit_val (dig n) = Some (n mod 10)"
  using mod_less_divisor [of 10 n] by (simp add: digit_val_def of_char_dig)

lemma dig_neq_plus [simp]: "dig n \<noteq> CHR ''+''"
proof
  assume "dig n = CHR ''+''"
  then have "(of_char (dig n) :: nat) = of_char (CHR ''+'')" by (rule arg_cong)
  then show False by (simp only: of_char_dig) simp
qed

lemma not_ws_dig [simp]: "\<not> is_ws (dig n)"
  using mod_less_divisor [of 10 n] by (auto simp: is_ws_def of_char_dig)

lemma parse_two_digits: "n < 100 \<Longrightarrow> parse_uint u64_max [dig (n div 10), dig n] = Some n"
  by (simp add: parse_uint_def u64_max_def)

lemma parse_four_digits: "n < 10000 \<Longrightarrow>
    parse_uint u64_max [dig (n div 1000), dig (n div 100), dig (n div 10), dig n] = Some n"
proof -
  assume n: "n < 10000"
  have "10 * (10 * (10 * (n div 1000 mod 10) + n div 100 mod 10) + n div 10 mod 10) + n mod 10 = n"
  proof -
    have "n div 1000 mod 10 = n div 1000" using n by simp
    moreover have "10 * (n div 1000) + n div 100 mod 10 = n div 100"
      using mult_div_mod_eq [of 10 "n div 100"] by (simp add: div_mult2_eq [symmetric])
    moreover have "10 * (n div 100) + n div 10 mod 10 = n div 10"
      using mult_div_mod_eq [of 10 "n div 10"] by (simp add: div_mult2_eq [symmetric])
    moreover have "10 * (n div 10) + n mod 10 = n" by simp
    ultimately show ?thesis by simp
  qed
  then show ?thesis using n by (simp add: parse_uint_def u64_max_def)
qed

lemma trim_keeps_core:
  assumes "\<not> is_ws a" "\<not> is_ws b"
  shows "\<exists>r. trim (a # mid @ b # rest) = a # mid @ b # r"
proof -
  have "trim (a # mid @ b # rest) = a # mid @ b # rev (dropWhile is_ws (rev rest))"
    using assms by (simp add: trim_def dropWhile_append)
  then show ?thesis by blast
qed

lemma trim_timestamp: "\<exists>r. trim (timestamp_text sep y mo d h mi sec rest) = timestamp_text sep y mo d h mi sec r"
  using trim_keeps_core [of "dig (y div 1000)" "dig sec"
      "[dig (y div 100), dig (y div 10), dig y] @ ''-'' @ two_digits mo @ ''-'' @ two_digits d @ sep # two_digits h
        @ '':'' @ two_digits mi @ '':'' @ [dig (sec div 10)]" rest]
  by (simp add: timestamp_text_def two_digits_def four_digits_def)

text \<open>C33: the age of an S3 object is computed from the right instant.  A timestamp printed for a year from 1970 to 9999
  in the shape S3 uses (separator \<open>T\<close> or a blank, anything after the seconds) reads as the seconds since the epoch that
  adding up the lengths of the years and months before gives; and so the object is old enough for the collector exactly
  when that instant lies at least \<open>age\<close> before now.  What follows the seconds, an offset included, is ignored.\<close>

theorem s3_timestamp_exact:
  assumes "1970 \<le> y" "y < 10000" "1 \<le> mo" "mo \<le> 12" "1 \<le> d" "d \<le> 31" "h < 24" "mi < 60" "sec \<le> 60"
    and "sep = CHR ''T'' \<or> sep = CHR '' ''"
  shows "parse_iso8601_to_epoch (timestamp_text sep y mo d h mi sec rest)
      = Some (calendar_days y mo d * 86400 + h * 3600 + mi * 60 + sec)
    \<and> (object_is_older_than (Some (timestamp_text sep y mo d h mi sec rest)) now age \<longleftrightarrow>
       age \<le> now - (calendar_days y mo d * 86400 + h * 3600 + mi * 60 + sec) * 1000000000)"
proof -
  obtain r where r: "trim (timestamp_text sep y mo d h mi sec rest) = timestamp_text sep y mo d h mi sec r"
    using trim_timestamp by blast
  let ?t = "timestamp_text sep y mo d h mi sec r"
  note t = timestamp_text_def two_digits_def four_digits_def slice_def
  have "slice 0 4 ?t = [dig (y div 1000), dig (y div 100), dig (y div 10), dig y]"
    "slice 5 7 ?t = [dig (mo div 10), dig mo]" "slice 8 10 ?t = [dig (d div 10), dig d]"
    "slice 11 13 ?t = [dig (h div 10), dig h]" "slice 14 16 ?t = [dig (mi div 10), dig mi]"
    "slice 17 19 ?t = [dig (sec div 10), dig sec]" "?t ! 10 = sep" "\<not> length ?t < 19"
    by (simp_all add: t)
  moreover have "parse_uint u64_max [dig (y div 1000), dig (y div 100), dig (y div 10), dig y] = Some y"
    using assms(2) by (rule parse_four_digits)
  moreover have "gregorian_days_since_epoch y mo d = Some (calendar_days y mo d)"
    using assms by (intro gregorian_exact) auto
  ultimately have "parse_iso8601_to_epoch (timestamp_text sep y mo d h mi sec rest)
      = Some (calendar_days y mo d * 86400 + h * 3600 + mi * 60 + sec)"
    using assms by (auto simp: parse_iso8601_to_epoch_def Let_def r parse_two_digits)
  then show ?thesis by (simp add: object_is_older_than_def)
qed

theorem s3_timestamp_exact_witness:
  "parse_iso8601_to_epoch (timestamp_text (CHR ''T'') 2024 2 29 12 0 5 ''.000Z'') =
     Some (calendar_days 2024 2 29 * 86400 + 43205)"
  using s3_timestamp_exact [of 2024 2 29 12 0 5 "CHR ''T''" "''.000Z''" 0 0] by simp

end
