(* ===== verification/Smtp.thy ===== *)
theory Smtp
  imports RoutedSender
begin

text \<open>
  The SMTP senders (\<open>adapter/outbound-smtp/src\<close>): their configuration from the environment (\<open>transport.rs\<close>,
  \<open>multi_sender.rs\<close>), the message built for an outbound email, and its delivery.

  Crate \<open>lettre\<close> is the record \<open>smtp_libs\<close>: what parses as an address and as a content type, and the assembly
  of a message from its headers and its tree of parts, which may fail; the SMTP connection is a function of the world.
  \<open>smtp_deliver_exact\<close> says which message goes out, \<open>senders_from_env\<close> which senders are configured, in which order.
\<close>

definition u16_max :: nat where "u16_max = 65535"
definition u8_max :: nat where "u8_max = 255"

section \<open>Transport configuration\<close>

datatype smtp_tls = Starttls | TlsOnConnect | NoTls

record smtp_config =
  smtp_host :: string
  smtp_port :: nat
  smtp_username :: "string option"
  smtp_password :: "string option"
  smtp_tls_mode :: smtp_tls

definition parse_port :: "string option \<Rightarrow> string \<Rightarrow> anyhow + nat" where
  "parse_port raw key =
     (case raw of
        Some val \<Rightarrow> ok_or (''invalid value for env var '' @ key) (parse_uint u16_max val)
      | None \<Rightarrow> Ok 587)"

definition parse_tls_str :: "string \<Rightarrow> string \<Rightarrow> anyhow + smtp_tls" where
  "parse_tls_str val key =
     (if val = ''starttls'' then Ok Starttls
      else if val = ''tls'' then Ok TlsOnConnect
      else if val = ''none'' then Ok NoTls
      else Err (''unknown value for env var '' @ key @ '': '' @ val))"

definition parse_tls :: "string option \<Rightarrow> string \<Rightarrow> anyhow + smtp_tls" where
  "parse_tls raw key = (case raw of None \<Rightarrow> Ok Starttls | Some val \<Rightarrow> parse_tls_str val key)"

definition smtp_config_from_lookup :: "(string \<Rightarrow> env_var) \<Rightarrow> string \<Rightarrow> anyhow + smtp_config" where
  "smtp_config_from_lookup env prefix =
     bind_sum (require_env env (prefix @ ''_HOST'')) (\<lambda>host.
     bind_sum (parse_port (env_ok_var env (prefix @ ''_PORT'')) (prefix @ ''_PORT'')) (\<lambda>port.
     bind_sum (parse_tls (env_ok_var env (prefix @ ''_TLS'')) (prefix @ ''_TLS'')) (\<lambda>tls.
       Ok \<lparr>smtp_host = host, smtp_port = port, smtp_username = env_ok_var env (prefix @ ''_USERNAME''),
           smtp_password = env_ok_var env (prefix @ ''_PASSWORD''), smtp_tls_mode = tls\<rparr>)))"

text \<open>A transport as \<open>lettre\<close> is asked to set it up; \<open>relay_ok\<close> says for which hosts it accepts TLS.\<close>

record smtp_transport =
  tp_host :: string
  tp_port :: nat
  tp_tls :: smtp_tls
  tp_credentials :: "(string \<times> string) option"

definition build_transport_builder :: "(smtp_tls \<Rightarrow> string \<Rightarrow> bool) \<Rightarrow> smtp_tls \<Rightarrow> string \<Rightarrow> anyhow + smtp_transport" where
  "build_transport_builder relay_ok tls host =
     (if tls = NoTls \<or> relay_ok tls host
      then Ok \<lparr>tp_host = host, tp_port = 0, tp_tls = tls, tp_credentials = None\<rparr>
      else Err ''building smtp transport'')"

definition apply_credentials :: "smtp_transport \<Rightarrow> string option \<Rightarrow> string option \<Rightarrow> smtp_transport" where
  "apply_credentials b username password =
     (case (username, password) of
        (Some u, Some p) \<Rightarrow> b\<lparr>tp_credentials := Some (u, p)\<rparr>
      | _ \<Rightarrow> b)"

definition smtp_config_build :: "(smtp_tls \<Rightarrow> string \<Rightarrow> bool) \<Rightarrow> smtp_config \<Rightarrow> anyhow + smtp_transport" where
  "smtp_config_build relay_ok cfg =
     map_ok (\<lambda>b. apply_credentials (b\<lparr>tp_port := smtp_port cfg\<rparr>) (smtp_username cfg) (smtp_password cfg))
       (build_transport_builder relay_ok (smtp_tls_mode cfg) (smtp_host cfg))"

section \<open>Senders\<close>

record single_sender =
  sg_name :: sender_name
  sg_smtp :: smtp_config
  sg_priority :: nat
  sg_quota :: "sender_quota option"
  sg_match_sender_domain :: "string option"

record smtp_entry =
  se_name :: sender_name
  se_priority :: nat
  se_quota :: "sender_quota option"
  se_match_sender_domain :: "string option"
  se_transport :: smtp_transport

definition parse_priority :: "string option \<Rightarrow> string \<Rightarrow> anyhow + nat" where
  "parse_priority raw key =
     (case raw of
        None \<Rightarrow> Ok 100
      | Some val \<Rightarrow> ok_or (''invalid value for env var '' @ key) (parse_uint u8_max val))"

definition parse_quota_range :: "string \<Rightarrow> string \<Rightarrow> anyhow + quota_range" where
  "parse_quota_range val key =
     (if val = ''hourly'' then Ok Hourly
      else if val = ''daily'' then Ok Daily
      else if val = ''weekly'' then Ok Weekly
      else if val = ''monthly'' then Ok Monthly
      else Err (''unknown value for env var '' @ key @ '': '' @ val))"

definition parse_quota :: "(string \<Rightarrow> env_var) \<Rightarrow> string \<Rightarrow> anyhow + sender_quota option" where
  "parse_quota env prefix =
     (let count_key = prefix @ ''_QUOTA_COUNT''; range_key = prefix @ ''_QUOTA_RANGE'' in
      case (env_ok_var env count_key, env_ok_var env range_key) of
        (None, None) \<Rightarrow> Ok None
      | (Some count_str, Some range_str) \<Rightarrow>
          bind_sum (ok_or (''invalid value for env var '' @ count_key) (parse_uint u64_max count_str)) (\<lambda>count.
          bind_sum (parse_quota_range range_str range_key) (\<lambda>range.
            Ok (Some \<lparr>quota_count = count, quota_window = range\<rparr>)))
      | (Some _, None) \<Rightarrow> Err (''env var '' @ count_key @ '' is set but '' @ range_key @ '' is missing'')
      | (None, Some _) \<Rightarrow> Err (''env var '' @ range_key @ '' is set but '' @ count_key @ '' is missing''))"

definition sender_from_lookup :: "(string \<Rightarrow> env_var) \<Rightarrow> string \<Rightarrow> anyhow + single_sender" where
  "sender_from_lookup env raw_name =
     (let prefix = ''CATAPULTE_SENDER_'' @ to_ascii_uppercase raw_name in
      bind_sum (smtp_config_from_lookup env prefix) (\<lambda>smtp.
      bind_sum (parse_priority (env_ok_var env (prefix @ ''_PRIORITY'')) (prefix @ ''_PRIORITY'')) (\<lambda>priority.
      bind_sum (parse_quota env prefix) (\<lambda>quota.
        Ok \<lparr>sg_name = SenderName raw_name, sg_smtp = smtp, sg_priority = priority, sg_quota = quota,
            sg_match_sender_domain = env_trimmed env (prefix @ ''_MATCH_DOMAIN'')\<rparr>))))"

definition multi_sender_from_lookup :: "(string \<Rightarrow> env_var) \<Rightarrow> anyhow + single_sender list" where
  "multi_sender_from_lookup env =
     bind_sum (require_env env ''CATAPULTE_SENDERS'') (\<lambda>names_raw.
       map_ok (sort_key sg_priority) (collect_results (sender_from_lookup env) (comma_list names_raw)))"

definition multi_sender_single :: "string \<Rightarrow> smtp_config \<Rightarrow> single_sender list" where
  "multi_sender_single name smtp =
     [\<lparr>sg_name = SenderName name, sg_smtp = smtp, sg_priority = 100, sg_quota = None, sg_match_sender_domain = None\<rparr>]"

definition with_sender_domain ::
    "single_sender list \<Rightarrow> string \<Rightarrow> smtp_config \<Rightarrow> nat \<Rightarrow> sender_quota option \<Rightarrow> string option \<Rightarrow> single_sender list" where
  "with_sender_domain senders name smtp priority quota domain =
     sort_key sg_priority (senders @
       [\<lparr>sg_name = SenderName name, sg_smtp = smtp, sg_priority = priority, sg_quota = quota, sg_match_sender_domain = domain\<rparr>])"

definition with_sender ::
    "single_sender list \<Rightarrow> string \<Rightarrow> smtp_config \<Rightarrow> nat \<Rightarrow> sender_quota option \<Rightarrow> single_sender list" where
  "with_sender senders name smtp priority quota =
     sort_key sg_priority (senders @
       [\<lparr>sg_name = SenderName name, sg_smtp = smtp, sg_priority = priority, sg_quota = quota, sg_match_sender_domain = None\<rparr>])"

definition multi_sender_build :: "(smtp_tls \<Rightarrow> string \<Rightarrow> bool) \<Rightarrow> single_sender list \<Rightarrow> anyhow + smtp_entry list" where
  "multi_sender_build relay_ok senders =
     collect_results (\<lambda>cfg. map_ok (\<lambda>t.
         \<lparr>se_name = sg_name cfg, se_priority = sg_priority cfg, se_quota = sg_quota cfg,
          se_match_sender_domain = sg_match_sender_domain cfg, se_transport = t\<rparr>)
       (smtp_config_build relay_ok (sg_smtp cfg))) senders"

text \<open>What the composition root (\<open>binary/src/lib.rs\<close>) makes of the entries.\<close>

definition sender_configs_of :: "smtp_entry list \<Rightarrow> sender_config list" where
  "sender_configs_of entries =
     map (\<lambda>e. \<lparr>sc_name = se_name e, sc_quota = se_quota e, sc_match_sender_domain = se_match_sender_domain e\<rparr>) entries"

definition routes_of :: "smtp_entry list \<Rightarrow> smtp_transport sender_route list" where
  "routes_of entries =
     map (\<lambda>e. \<lparr>rt_name = se_name e, rt_priority = se_priority e, rt_quota = se_quota e,
               rt_match_sender_domain = se_match_sender_domain e, rt_transport = se_transport e\<rparr>) entries"

section \<open>Messages\<close>

datatype mime_part =
    TextPart string
  | HtmlPart string
  | FilePart string string "byte list"

datatype mime = Single mime_part | Alternative "mime list" | Mixed "mime list"

text \<open>The headers a \<open>MessageBuilder\<close> has collected; adding a mailbox to a header appends it.\<close>

record draft =
  dr_from :: "string list"
  dr_to :: "string list"
  dr_cc :: "string list"
  dr_bcc :: "string list"
  dr_subject :: "string option"

record 'm smtp_libs =
  sl_address :: "string \<Rightarrow> string option"
  sl_content_type :: "string \<Rightarrow> string option"
  sl_message :: "draft \<Rightarrow> mime \<Rightarrow> 'm option"

definition draft_from :: "string \<Rightarrow> draft" where
  "draft_from mailbox = \<lparr>dr_from = [mailbox], dr_to = [], dr_cc = [], dr_bcc = [], dr_subject = None\<rparr>"

definition parse_mailbox :: "'m smtp_libs \<Rightarrow> string \<Rightarrow> anyhow + string" where
  "parse_mailbox L addr = ok_or (''invalid address: '' @ addr) (sl_address L addr)"

fun add_recipient :: "draft \<Rightarrow> recipient_kind \<Rightarrow> string \<Rightarrow> draft" where
  "add_recipient b To m = b\<lparr>dr_to := dr_to b @ [m]\<rparr>"
| "add_recipient b Cc m = b\<lparr>dr_cc := dr_cc b @ [m]\<rparr>"
| "add_recipient b Bcc m = b\<lparr>dr_bcc := dr_bcc b @ [m]\<rparr>"

fun apply_recipients :: "'m smtp_libs \<Rightarrow> draft \<Rightarrow> (recipient_kind \<times> string) list \<Rightarrow> anyhow + draft" where
  "apply_recipients L b [] = Ok b"
| "apply_recipients L b ((kind, address) # rs) =
     bind_sum (parse_mailbox L address) (\<lambda>m. apply_recipients L (add_recipient b kind m) rs)"

text \<open>\<open>None\<close> is the panic of \<open>unreachable!\<close>.\<close>

definition build_body_part :: "rendered_body \<Rightarrow> mime option" where
  "build_body_part body =
     (case (rendered_text body, rendered_html body) of
        (Some t, Some h) \<Rightarrow> Some (Alternative [Single (TextPart t), Single (HtmlPart h)])
      | (Some t, None) \<Rightarrow> Some (Alternative [Single (TextPart t)])
      | (None, Some h) \<Rightarrow> Some (Alternative [Single (HtmlPart h)])
      | (None, None) \<Rightarrow> None)"

definition plain_message_part :: "rendered_body \<Rightarrow> mime option" where
  "plain_message_part body =
     (case (rendered_text body, rendered_html body) of
        (Some t, Some h) \<Rightarrow> Some (Alternative [Single (TextPart t), Single (HtmlPart h)])
      | (Some t, None) \<Rightarrow> Some (Single (TextPart t))
      | (None, Some h) \<Rightarrow> Some (Single (HtmlPart h))
      | (None, None) \<Rightarrow> None)"

definition attachment_part :: "'m smtp_libs \<Rightarrow> resolved_attachment \<Rightarrow> anyhow + mime" where
  "attachment_part L a =
     map_ok (\<lambda>ct. Single (FilePart ct (ra_filename a) (ra_bytes a)))
       (ok_or (''invalid attachment content-type: '' @ ra_content_type a) (sl_content_type L (ra_content_type a)))"

definition finalize_message ::
    "'m smtp_libs \<Rightarrow> draft \<Rightarrow> string option \<Rightarrow> rendered_body \<Rightarrow> resolved_attachment list \<Rightarrow> (anyhow + 'm) option" where
  "finalize_message L b subject body atts =
     (let b = (case subject of Some s \<Rightarrow> b\<lparr>dr_subject := Some s\<rparr> | None \<Rightarrow> b) in
      if atts = [] then
        (case plain_message_part body of
           None \<Rightarrow> None
         | Some part \<Rightarrow> Some (ok_or ''building email message'' (sl_message L b part)))
      else
        case build_body_part body of
          None \<Rightarrow> None
        | Some body_part \<Rightarrow>
            Some (bind_sum (collect_results (attachment_part L) atts) (\<lambda>files.
              ok_or ''building email message with attachments'' (sl_message L b (Mixed (body_part # files))))))"

definition smtp_deliver ::
    "'m smtp_libs \<Rightarrow> ('m \<Rightarrow> 'w \<Rightarrow> (anyhow + unit) \<times> 'w) \<Rightarrow> outbound_email \<Rightarrow> 'w \<Rightarrow> (anyhow + unit) option \<times> 'w" where
  "smtp_deliver L send_smtp email w =
     (case bind_sum (parse_mailbox L (oe_sender email)) (\<lambda>from. apply_recipients L (draft_from from) (oe_recipients email)) of
        Inl e \<Rightarrow> (Some (Err e), w)
      | Inr b \<Rightarrow>
          (case finalize_message L b (oe_subject email) (oe_body email) (oe_attachments email) of
             None \<Rightarrow> (None, w)
           | Some (Inl e) \<Rightarrow> (Some (Err e), w)
           | Some (Inr m) \<Rightarrow>
               (case send_smtp m w of
                  (Inl e, w') \<Rightarrow> (Some (Err ''smtp send failed''), w')
                | (Inr _, w') \<Rightarrow> (Some (Ok ()), w'))))"

section \<open>The message that goes out\<close>

text \<open>What the message of an email has to be: its addresses under their headers in order, its bodies, and its files.\<close>

definition of_kind :: "recipient_kind \<Rightarrow> (recipient_kind \<times> string) list \<Rightarrow> string list" where
  "of_kind k rs = map snd (filter (\<lambda>(k', _). k' = k) rs)"

definition headers_of :: "string \<Rightarrow> (recipient_kind \<times> string) list \<Rightarrow> string option \<Rightarrow> draft" where
  "headers_of from rs subject =
     \<lparr>dr_from = [from], dr_to = of_kind To rs, dr_cc = of_kind Cc rs, dr_bcc = of_kind Bcc rs, dr_subject = subject\<rparr>"

definition body_parts :: "rendered_body \<Rightarrow> mime list" where
  "body_parts body = map Single (map TextPart (case rendered_text body of None \<Rightarrow> [] | Some t \<Rightarrow> [t]) @
     map HtmlPart (case rendered_html body of None \<Rightarrow> [] | Some h \<Rightarrow> [h]))"

definition content_of :: "rendered_body \<Rightarrow> mime list \<Rightarrow> mime" where
  "content_of body files =
     (if files \<noteq> [] then Mixed (Alternative (body_parts body) # files)
      else if length (body_parts body) = 1 then hd (body_parts body)
      else Alternative (body_parts body))"

lemma apply_recipients_Inr:
  "apply_recipients L b rs = Inr b' \<longleftrightarrow>
     (\<exists>ms. list_all2 (\<lambda>(k, a) (k', m). k' = k \<and> sl_address L a = Some m) rs ms \<and>
        b' = b\<lparr>dr_to := dr_to b @ of_kind To ms, dr_cc := dr_cc b @ of_kind Cc ms, dr_bcc := dr_bcc b @ of_kind Bcc ms\<rparr>)"
proof (induction rs arbitrary: b)
  case (Cons r rs)
  obtain k a where r: "r = (k, a)" by (cases r)
  have "add_recipient b k m\<lparr>dr_to := dr_to (add_recipient b k m) @ of_kind To ms,
      dr_cc := dr_cc (add_recipient b k m) @ of_kind Cc ms, dr_bcc := dr_bcc (add_recipient b k m) @ of_kind Bcc ms\<rparr>
    = b\<lparr>dr_to := dr_to b @ of_kind To ((k, m) # ms), dr_cc := dr_cc b @ of_kind Cc ((k, m) # ms),
        dr_bcc := dr_bcc b @ of_kind Bcc ((k, m) # ms)\<rparr>" for m ms
    by (cases k) (simp_all add: of_kind_def)
  with r Cons.IH show ?case
    by (auto simp: bind_sum_Inr parse_mailbox_def list_all2_Cons1 split_paired_Ex)
qed (auto simp: of_kind_def)

lemma attachments_parsed:
  "collect_results (attachment_part L) atts = Inr files \<longleftrightarrow>
     list_all2 (\<lambda>a f. \<exists>ct. sl_content_type L (ra_content_type a) = Some ct \<and> f = Single (FilePart ct (ra_filename a) (ra_bytes a)))
       atts files"
  by (auto simp: collect_results_Inr attachment_part_def map_ok_eq_Inr intro!: list_all2_mono)

lemma finalize_message_Some:
  assumes "plain_ok (into_plain body)"
  shows "\<exists>r. finalize_message L b subject body atts = Some r \<and>
    (\<forall>m. r = Inr m \<longleftrightarrow> (\<exists>files. collect_results (attachment_part L) atts = Inr files \<and>
      sl_message L (case subject of Some s \<Rightarrow> b\<lparr>dr_subject := Some s\<rparr> | None \<Rightarrow> b) (content_of body files) = Some m))"
proof (cases "atts = []")
  case True
  with assms show ?thesis
    by (cases "plain_text (into_plain body)"; cases "plain_html (into_plain body)")
      (simp_all add: finalize_message_def plain_message_part_def content_of_def body_parts_def rendered_text_def
        rendered_html_def plain_ok_def)
next
  case False
  then have "files \<noteq> []" if "collect_results (attachment_part L) atts = Inr files" for files
    using collect_results_length [OF that] by auto
  with False assms show ?thesis
    by (cases "plain_text (into_plain body)"; cases "plain_html (into_plain body)")
      (auto simp: finalize_message_def build_body_part_def content_of_def body_parts_def rendered_text_def
        rendered_html_def plain_ok_def bind_sum_Inr Let_def)
qed

text \<open>C34: An email is handed to SMTP at most once, as the one message that carries its sender, all its recipients under their
  headers in order, its bodies (text before HTML) and every attachment with its name, type and bytes; and when any address or content
  type is invalid or the message cannot be built, nothing is sent.  The \<open>unreachable!\<close> for an empty body is never
  reached.\<close>

theorem smtp_deliver_exact:
  assumes "plain_ok (into_plain (oe_body email))"
  shows "\<exists>r. fst (smtp_deliver L send_smtp email w) = Some r \<and>
    (let sent = (\<lambda>m. \<exists>frm ms files.
        sl_address L (oe_sender email) = Some frm \<and>
        list_all2 (\<lambda>(k, a) (k', m). k' = k \<and> sl_address L a = Some m) (oe_recipients email) ms \<and>
        list_all2 (\<lambda>a f. \<exists>ct. sl_content_type L (ra_content_type a) = Some ct \<and>
            f = Single (FilePart ct (ra_filename a) (ra_bytes a))) (oe_attachments email) files \<and>
        sl_message L (headers_of frm ms (oe_subject email)) (content_of (oe_body email) files) = Some m) in
     (\<forall>m. sent m \<longrightarrow> smtp_deliver L send_smtp email w =
        (Some (map_err (\<lambda>_. ''smtp send failed'') (fst (send_smtp m w))), snd (send_smtp m w))) \<and>
     ((\<nexists>m. sent m) \<longrightarrow> \<not> is_ok r \<and> snd (smtp_deliver L send_smtp email w) = w))"
proof -
  define sent where "sent m \<longleftrightarrow> (\<exists>frm ms files.
        sl_address L (oe_sender email) = Some frm \<and>
        list_all2 (\<lambda>(k, a) (k', m). k' = k \<and> sl_address L a = Some m) (oe_recipients email) ms \<and>
        list_all2 (\<lambda>a f. \<exists>ct. sl_content_type L (ra_content_type a) = Some ct \<and>
            f = Single (FilePart ct (ra_filename a) (ra_bytes a))) (oe_attachments email) files \<and>
        sl_message L (headers_of frm ms (oe_subject email)) (content_of (oe_body email) files) = Some m)" for m
  let ?head = "bind_sum (parse_mailbox L (oe_sender email)) (\<lambda>frm. apply_recipients L (draft_from frm) (oe_recipients email))"
  have head: "?head = Inr b \<longleftrightarrow> (\<exists>frm ms. sl_address L (oe_sender email) = Some frm \<and>
      list_all2 (\<lambda>(k, a) (k', m). k' = k \<and> sl_address L a = Some m) (oe_recipients email) ms \<and> b = headers_of frm ms None)" for b
    by (simp add: bind_sum_Inr parse_mailbox_def apply_recipients_Inr draft_from_def headers_of_def)
  have subject: "(case s of Some x \<Rightarrow> headers_of frm ms None\<lparr>dr_subject := Some x\<rparr> | None \<Rightarrow> headers_of frm ms None)
      = headers_of frm ms s" for frm ms s
    by (cases s) (simp_all add: headers_of_def)
  have "\<exists>r. fst (smtp_deliver L send_smtp email w) = Some r \<and>
     (\<forall>m. sent m \<longrightarrow> smtp_deliver L send_smtp email w =
        (Some (map_err (\<lambda>_. ''smtp send failed'') (fst (send_smtp m w))), snd (send_smtp m w))) \<and>
     ((\<nexists>m. sent m) \<longrightarrow> \<not> is_ok r \<and> snd (smtp_deliver L send_smtp email w) = w)"
  proof (cases ?head)
    case (Inl e)
    moreover have "\<exists>b. ?head = Inr b" if "sent m" for m using that unfolding sent_def head by blast
    ultimately have "\<not> sent m" for m by fastforce
    with Inl show ?thesis by (simp add: smtp_deliver_def)
  next
    case (Inr b)
    then obtain frm ms where b: "sl_address L (oe_sender email) = Some frm"
        "list_all2 (\<lambda>(k, a) (k', m). k' = k \<and> sl_address L a = Some m) (oe_recipients email) ms" "b = headers_of frm ms None"
      using head by blast
    have once: "ms' = ms" if "list_all2 (\<lambda>(k, a) (k', m). k' = k \<and> sl_address L a = Some m) (oe_recipients email) ms'" for ms'
      using that b(2) unfolding list_all2_conv_all_nth
      by (intro nth_equalityI) (auto simp: case_prod_unfold prod_eq_iff)
    obtain r where r: "finalize_message L b (oe_subject email) (oe_body email) (oe_attachments email) = Some r"
        "\<And>m. r = Inr m \<longleftrightarrow> (\<exists>files. collect_results (attachment_part L) (oe_attachments email) = Inr files \<and>
           sl_message L (headers_of frm ms (oe_subject email)) (content_of (oe_body email) files) = Some m)"
      using finalize_message_Some [OF assms, of L b "oe_subject email" "oe_attachments email"] subject b(3) by auto
    have sent: "sent m \<longleftrightarrow> r = Inr m" for m
    proof
      assume "sent m"
      then obtain f' ms' files where *: "sl_address L (oe_sender email) = Some f'"
          "list_all2 (\<lambda>(k, a) (k', m). k' = k \<and> sl_address L a = Some m) (oe_recipients email) ms'"
          "collect_results (attachment_part L) (oe_attachments email) = Inr files"
          "sl_message L (headers_of f' ms' (oe_subject email)) (content_of (oe_body email) files) = Some m"
        unfolding sent_def attachments_parsed by blast
      then have "f' = frm" "ms' = ms" using b(1) once by simp_all
      with * show "r = Inr m" unfolding r(2) by blast
    next
      assume "r = Inr m"
      with b(1,2) show "sent m" unfolding sent_def r(2) attachments_parsed by blast
    qed
    have run: "smtp_deliver L send_smtp email w =
        (case r of Inl e \<Rightarrow> (Some (Err e), w) | Inr m \<Rightarrow>
          (case send_smtp m w of (Inl e, w') \<Rightarrow> (Some (Err ''smtp send failed''), w') | (Inr _, w') \<Rightarrow> (Some (Ok ()), w')))"
      by (simp add: smtp_deliver_def Inr r(1) split: sum.split)
    show ?thesis
    proof (cases r)
      case (Inl e)
      then show ?thesis by (simp add: run sent)
    next
      case m: (Inr m)
      obtain x w' where x: "send_smtp m w = (x, w')" by (rule prod.exhaust)
      then show ?thesis by (cases x) (simp_all add: run sent m)
    qed
  qed
  then show ?thesis by (simp add: sent_def Let_def)
qed

section \<open>The senders of an environment\<close>

text \<open>The senders come from the names in \<open>CATAPULTE_SENDERS\<close>, one for each name that is not blank, as its variables
  describe it; they are ordered by priority, those of equal priority as listed.  A quota is set exactly when both of its
  variables are, and the priority fits a byte.\<close>

theorem senders_from_env:
  assumes "multi_sender_from_lookup env = Inr senders"
  shows "\<exists>names listed. env ''CATAPULTE_SENDERS'' = Present names \<and>
      list_all2 (\<lambda>name s. sender_from_lookup env name = Inr s \<and> sg_name s = SenderName name) (comma_list names) listed \<and>
      mset senders = mset listed \<and> sorted (map sg_priority senders) \<and>
      (\<forall>p. filter (\<lambda>s. sg_priority s = p) senders = filter (\<lambda>s. sg_priority s = p) listed) \<and>
      (\<forall>s\<in>set senders. sg_priority s \<le> 255 \<and>
         (\<exists>name\<in>set (comma_list names). sg_name s = SenderName name \<and>
           (let prefix = ''CATAPULTE_SENDER_'' @ to_ascii_uppercase name in
            (sg_quota s = None \<longleftrightarrow> env_ok_var env (prefix @ ''_QUOTA_COUNT'') = None) \<and>
            (sg_quota s = None \<longleftrightarrow> env_ok_var env (prefix @ ''_QUOTA_RANGE'') = None))))"
proof -
  obtain names listed where names: "env ''CATAPULTE_SENDERS'' = Present names"
      and listed: "list_all2 (\<lambda>name s. sender_from_lookup env name = Inr s) (comma_list names) listed"
      and senders: "senders = sort_key sg_priority listed"
    using assms
    by (auto simp: multi_sender_from_lookup_def bind_sum_Inr require_env_def map_ok_eq_Inr collect_results_Inr split: env_var.splits)
  have name: "sg_name s = SenderName name" if "sender_from_lookup env name = Inr s" for name s
    using that by (auto simp: sender_from_lookup_def bind_sum_Inr Let_def)
  have fields: "sg_priority s \<le> 255 \<and>
      (let prefix = ''CATAPULTE_SENDER_'' @ to_ascii_uppercase name in
        (sg_quota s = None \<longleftrightarrow> env_ok_var env (prefix @ ''_QUOTA_COUNT'') = None) \<and>
        (sg_quota s = None \<longleftrightarrow> env_ok_var env (prefix @ ''_QUOTA_RANGE'') = None))"
    if "sender_from_lookup env name = Inr s" for name s
    using that
    by (auto simp: sender_from_lookup_def bind_sum_Inr Let_def parse_priority_def parse_quota_def u8_max_def
        split: option.splits dest: parse_uint_le)
  have "\<exists>name\<in>set (comma_list names). sender_from_lookup env name = Inr s" if "s \<in> set senders" for s
    using listed that unfolding senders set_sort by (induction rule: list_all2_induct) auto
  then have "\<forall>s\<in>set senders. sg_priority s \<le> 255 \<and> (\<exists>name\<in>set (comma_list names). sg_name s = SenderName name \<and>
      (let prefix = ''CATAPULTE_SENDER_'' @ to_ascii_uppercase name in
        (sg_quota s = None \<longleftrightarrow> env_ok_var env (prefix @ ''_QUOTA_COUNT'') = None) \<and>
        (sg_quota s = None \<longleftrightarrow> env_ok_var env (prefix @ ''_QUOTA_RANGE'') = None)))"
    using fields name by blast
  moreover have "list_all2 (\<lambda>name s. sender_from_lookup env name = Inr s \<and> sg_name s = SenderName name) (comma_list names) listed"
    using listed by (rule list_all2_mono) (auto dest: name)
  moreover have "filter (\<lambda>s. sg_priority s = p) senders = filter (\<lambda>s. sg_priority s = p) listed" for p
    unfolding senders by (rule sort_key_stable)
  ultimately show ?thesis using names by (intro exI [of _ names] exI [of _ listed]) (simp add: senders)
qed

text \<open>Two senders, the second one listed first in priority.\<close>

definition sample_env :: "string \<Rightarrow> env_var" where
  "sample_env key =
     (if key = ''CATAPULTE_SENDERS'' then Present ''slow, fast''
      else if key = ''CATAPULTE_SENDER_SLOW_HOST'' then Present ''a''
      else if key = ''CATAPULTE_SENDER_FAST_HOST'' then Present ''b''
      else if key = ''CATAPULTE_SENDER_FAST_PRIORITY'' then Present ''10''
      else NotPresent)"

lemma sample_senders: "map_ok (map sg_name) (multi_sender_from_lookup sample_env) = Inr [SenderName ''fast'', SenderName ''slow'']"
  by code_simp

theorem senders_from_env_witness:
  "\<exists>senders. multi_sender_from_lookup sample_env = Inr senders \<and> map sg_name senders = [SenderName ''fast'', SenderName ''slow''] \<and>
     sorted (map sg_priority senders)"
proof -
  obtain senders where s: "multi_sender_from_lookup sample_env = Inr senders" "map sg_name senders = [SenderName ''fast'', SenderName ''slow'']"
    using sample_senders by (auto simp: map_ok_eq_Inr)
  from senders_from_env [OF s(1)] have "sorted (map sg_priority senders)" by (elim exE conjE)
  with s show ?thesis by (intro exI conjI)
qed

definition sample_smtp_libs :: "(draft \<times> mime) smtp_libs" where
  "sample_smtp_libs = \<lparr>sl_address = Some, sl_content_type = Some, sl_message = (\<lambda>d m. Some (d, m))\<rparr>"

definition sample_mail :: outbound_email where
  "sample_mail =
     \<lparr>oe_sender = ''a@x.org'', oe_subject = Some ''hello'', oe_recipients = [(Cc, ''c@x.org''), (To, ''b@x.org'')],
      oe_body = RenderedBody \<lparr>plain_text = Some ''hi'', plain_html = None\<rparr>,
      oe_attachments = [\<lparr>ra_filename = ''f'', ra_content_type = ''text/plain'', ra_bytes = [1]\<rparr>]\<rparr>"

theorem smtp_deliver_exact_witness:
  "smtp_deliver sample_smtp_libs (\<lambda>m sent. (Ok (), sent @ [m])) sample_mail [] =
     (Some (Ok ()), [(headers_of ''a@x.org'' [(Cc, ''c@x.org''), (To, ''b@x.org'')] (Some ''hello''),
        Mixed [Alternative [Single (TextPart ''hi'')], Single (FilePart ''text/plain'' ''f'' [1])])])"
proof -
  have "plain_ok (into_plain (oe_body sample_mail))" by (simp add: sample_mail_def plain_ok_def)
  from smtp_deliver_exact [OF this, of sample_smtp_libs "\<lambda>m sent. (Ok (), sent @ [m])" "[]"] show ?thesis
    by (simp add: sample_mail_def sample_smtp_libs_def content_of_def body_parts_def rendered_text_def rendered_html_def Let_def
        list_all2_Cons1 split_paired_Ex)
qed

end
