(* ===== verification/Publishers.thy ===== *)
theory Publishers
  imports Ports
begin

text \<open>
  Where lifecycle events go: the webhook (\<open>adapter/outbound-webhook/src/lib.rs\<close>), the NATS subject
  (\<open>adapter/outbound-nats/src/event_publisher.rs\<close>), and the fan-out over the storage and those two
  (\<open>binary/src/publisher.rs\<close>).

  The HTTP client, the NATS client and the sleep are functions of a world.  The futures that \<open>join!\<close> polls together
  act on worlds of their own, the database, the webhook's endpoint and the NATS server, so their interleaving does not
  matter and the fan-out runs each on its own component.
\<close>

section \<open>The webhook\<close>

definition event_to_json :: "lifecycle_event \<Rightarrow> json" where
  "event_to_json event =
     JObj [(''event_type'', JStr (event_type event)),
           (''email_id'', JStr (uuid_hyphenated (as_uuid (event_email_id event)))),
           (''payload'', event_payload event)]"

record web_state =
  web_url :: url

text \<open>The body of the loop for one attempt and those after it; \<open>None\<close> is the panic of \<open>last_err.unwrap()\<close>.\<close>

fun webhook_attempts ::
    "('w \<Rightarrow> (anyhow + nat) \<times> 'w) \<Rightarrow> (nat \<Rightarrow> 'w \<Rightarrow> 'w) \<Rightarrow> nat list \<Rightarrow> nat \<Rightarrow> anyhow option \<Rightarrow> 'w \<Rightarrow>
     (event_publisher_error + unit) option \<times> 'w" where
  "webhook_attempts post sleep [] delay last_err w = (map_option (\<lambda>e. Err (PublishError e)) last_err, w)"
| "webhook_attempts post sleep (attempt # rest) delay last_err w =
     (let w1 = (if 0 < attempt then sleep delay w else w); delay' = (if 0 < attempt then 500 else delay) in
      case post w1 of
        (Inl e, w2) \<Rightarrow> webhook_attempts post sleep rest delay' (Some ''sending webhook request'') w2
      | (Inr status, w2) \<Rightarrow>
          if 400 \<le> status \<and> status < 600
          then webhook_attempts post sleep rest delay' (Some ''webhook returned error status'') w2
          else (Some (Ok ()), w2))"

definition webhook_publish ::
    "(url \<Rightarrow> json \<Rightarrow> 'w \<Rightarrow> (anyhow + nat) \<times> 'w) \<Rightarrow> (nat \<Rightarrow> 'w \<Rightarrow> 'w) \<Rightarrow> web_state \<Rightarrow> lifecycle_event \<Rightarrow> 'w \<Rightarrow>
     (event_publisher_error + unit) option \<times> 'w" where
  "webhook_publish post sleep W event w =
     webhook_attempts (post (web_url W) (event_to_json event)) sleep [0..<3] 100 None w"

record webhook_config =
  wc_url :: "url option"
  wc_timeout_ms :: nat

definition webhook_config_from_env :: "(string \<Rightarrow> url option) \<Rightarrow> (string \<Rightarrow> env_var) \<Rightarrow> string \<Rightarrow> anyhow + webhook_config" where
  "webhook_config_from_env parse_url env prefix =
     bind_sum (map_transpose (\<lambda>v. ok_or ''parsing webhook URL'' (parse_url v)) (env_ok_var env (prefix @ ''_URL''))) (\<lambda>u.
       Ok \<lparr>wc_url = u,
           wc_timeout_ms = (case Option.bind (env_ok_var env (prefix @ ''_TIMEOUT_MS'')) (parse_uint u64_max) of
                              None \<Rightarrow> 5000 | Some n \<Rightarrow> n)\<rparr>)"

text \<open>\<open>client_ok\<close>: whether the HTTP client can be set up.\<close>

definition webhook_config_build :: "bool \<Rightarrow> webhook_config \<Rightarrow> anyhow + web_state option" where
  "webhook_config_build client_ok cfg =
     (case wc_url cfg of
        None \<Rightarrow> Ok None
      | Some u \<Rightarrow> if client_ok then Ok (Some \<lparr>web_url = u\<rparr>) else Err ''building reqwest client'')"

section \<open>The NATS subject\<close>

definition nats_event_to_json :: "lifecycle_event \<Rightarrow> json" where
  "nats_event_to_json event =
     JObj [(''event_type'', JStr (event_type event)),
           (''email_id'', JStr (uuid_hyphenated (as_uuid (event_email_id event)))),
           (''payload'', event_payload event)]"

record nats_event_publisher =
  np_subject :: string

definition nats_event_publish ::
    "(json \<Rightarrow> byte list option) \<Rightarrow> (string \<Rightarrow> byte list \<Rightarrow> 'w \<Rightarrow> (anyhow + unit) \<times> 'w) \<Rightarrow> nats_event_publisher \<Rightarrow>
     lifecycle_event \<Rightarrow> 'w \<Rightarrow> (event_publisher_error + unit) \<times> 'w" where
  "nats_event_publish to_vec publish N event w =
     (case to_vec (nats_event_to_json event) of
        None \<Rightarrow> (Err (PublishError ''serializing event''), w)
      | Some body \<Rightarrow> map_err_st (\<lambda>_. PublishError ''publishing event to NATS'') (publish (np_subject N) body) w)"

record nats_event_config =
  ne_url :: "string option"
  ne_subject :: string

definition nats_event_config_from_env :: "(string \<Rightarrow> env_var) \<Rightarrow> string \<Rightarrow> anyhow + nats_event_config" where
  "nats_event_config_from_env env prefix =
     Ok \<lparr>ne_url = env_ok_var env (prefix @ ''_URL''),
         ne_subject = (case env_ok_var env (prefix @ ''_SUBJECT'') of None \<Rightarrow> ''catapulte.lifecycle'' | Some v \<Rightarrow> v)\<rparr>"

definition nats_event_config_build :: "(string \<Rightarrow> bool) \<Rightarrow> nats_event_config \<Rightarrow> anyhow + nats_event_publisher option" where
  "nats_event_config_build connects cfg =
     (case ne_url cfg of
        None \<Rightarrow> Ok None
      | Some u \<Rightarrow> if connects u then Ok (Some \<lparr>np_subject = ne_subject cfg\<rparr>)
                  else Err ''connecting to NATS for event publisher'')"

section \<open>The fan-out\<close>

datatype publisher_adapter =
    StorageOnly
  | StorageWebhook web_state
  | StorageNats nats_event_publisher
  | StorageBoth web_state nats_event_publisher

text \<open>The three sinks, each on its own world.\<close>

record ('s, 'h, 'n) sinks =
  sk_storage :: "lifecycle_event \<Rightarrow> 's \<Rightarrow> (event_publisher_error + unit) \<times> 's"
  sk_webhook :: "web_state \<Rightarrow> lifecycle_event \<Rightarrow> 'h \<Rightarrow> (event_publisher_error + unit) option \<times> 'h"
  sk_nats :: "nats_event_publisher \<Rightarrow> lifecycle_event \<Rightarrow> 'n \<Rightarrow> (event_publisher_error + unit) \<times> 'n"

definition adapter_publish ::
    "('s, 'h, 'n) sinks \<Rightarrow> publisher_adapter \<Rightarrow> lifecycle_event \<Rightarrow> 's \<times> 'h \<times> 'n \<Rightarrow>
     (event_publisher_error + unit) option \<times> 's \<times> 'h \<times> 'n" where
  "adapter_publish K A event world =
     (let (s, h, n) = world; (sr, s') = sk_storage K event s in
      case A of
        StorageOnly \<Rightarrow> (Some sr, s', h, n)
      | StorageWebhook W \<Rightarrow>
          (let (wr, h') = sk_webhook K W event h in (map_option (\<lambda>_. bind_sum sr (\<lambda>_. Ok ())) wr, s', h', n))
      | StorageNats N \<Rightarrow>
          (let (nr, n') = sk_nats K N event n in (Some (bind_sum sr (\<lambda>_. Ok ())), s', h, n'))
      | StorageBoth W N \<Rightarrow>
          (let (wr, h') = sk_webhook K W event h; (nr, n') = sk_nats K N event n in
           (map_option (\<lambda>_. bind_sum sr (\<lambda>_. Ok ())) wr, s', h', n')))"

record publisher_config =
  pc_webhook :: webhook_config
  pc_nats_events :: nats_event_config

definition publisher_storage_only :: publisher_config where
  "publisher_storage_only =
     \<lparr>pc_webhook = \<lparr>wc_url = None, wc_timeout_ms = 5000\<rparr>,
      pc_nats_events = \<lparr>ne_url = None, ne_subject = ''catapulte.lifecycle''\<rparr>\<rparr>"

definition publisher_with_nats_events :: "string \<Rightarrow> string \<Rightarrow> publisher_config" where
  "publisher_with_nats_events u subject =
     \<lparr>pc_webhook = \<lparr>wc_url = None, wc_timeout_ms = 5000\<rparr>, pc_nats_events = \<lparr>ne_url = Some u, ne_subject = subject\<rparr>\<rparr>"

definition publisher_config_from_env :: "(string \<Rightarrow> url option) \<Rightarrow> (string \<Rightarrow> env_var) \<Rightarrow> anyhow + publisher_config" where
  "publisher_config_from_env parse_url env =
     bind_sum (webhook_config_from_env parse_url env ''CATAPULTE_WEBHOOK'') (\<lambda>webhook.
     bind_sum (nats_event_config_from_env env ''CATAPULTE_NATS_EVENTS'') (\<lambda>nats_events.
       Ok \<lparr>pc_webhook = webhook, pc_nats_events = nats_events\<rparr>))"

definition publisher_config_build :: "bool \<Rightarrow> (string \<Rightarrow> bool) \<Rightarrow> publisher_config \<Rightarrow> anyhow + publisher_adapter" where
  "publisher_config_build client_ok connects cfg =
     bind_sum (webhook_config_build client_ok (pc_webhook cfg)) (\<lambda>webhook.
     bind_sum (nats_event_config_build connects (pc_nats_events cfg)) (\<lambda>nats.
       Ok (case (webhook, nats) of
             (None, None) \<Rightarrow> StorageOnly
           | (Some w, None) \<Rightarrow> StorageWebhook w
           | (None, Some n) \<Rightarrow> StorageNats n
           | (Some w, Some n) \<Rightarrow> StorageBoth w n)))"

section \<open>Retries\<close>

text \<open>The world before attempt \<open>k\<close>: pauses of 100 and then 500 ms.\<close>

fun before_attempt :: "('w \<Rightarrow> (anyhow + nat) \<times> 'w) \<Rightarrow> (nat \<Rightarrow> 'w \<Rightarrow> 'w) \<Rightarrow> 'w \<Rightarrow> nat \<Rightarrow> 'w" where
  "before_attempt post sleep w 0 = w"
| "before_attempt post sleep w (Suc k) = sleep (if k = 0 then 100 else 500) (snd (post (before_attempt post sleep w k)))"

definition accepted :: "anyhow + nat \<Rightarrow> bool" where
  "accepted r \<longleftrightarrow> (case r of Inl e \<Rightarrow> False | Inr status \<Rightarrow> \<not> (400 \<le> status \<and> status < 600))"

lemma webhook_attempts_step:
  "webhook_attempts post sleep (a # rest) delay le w =
     (let w1 = (if 0 < a then sleep delay w else w) in
      if accepted (fst (post w1)) then (Some (Ok ()), snd (post w1))
      else webhook_attempts post sleep rest (if 0 < a then 500 else delay)
             (Some (case fst (post w1) of Inl _ \<Rightarrow> ''sending webhook request'' | Inr _ \<Rightarrow> ''webhook returned error status'')) (snd (post w1)))"
  by (cases "post (if 0 < a then sleep delay w else w)") (auto simp: accepted_def Let_def split: sum.splits)

text \<open>The webhook gets an event in at most three requests with the same body, 100 ms after the first failure and 500 ms after the
  second; the first request answered with neither a client nor a server error ends it with success, and after three failures
  the publisher reports an error.  The \<open>unwrap\<close> never fails.\<close>

theorem webhook_retries:
  "let try = post (web_url W) (event_to_json event);
       at = before_attempt try sleep w;
       good = (\<lambda>k. accepted (fst (try (at k)))) in
   (if good 0 then webhook_publish post sleep W event w = (Some (Ok ()), snd (try (at 0)))
    else if good 1 then webhook_publish post sleep W event w = (Some (Ok ()), snd (try (at 1)))
    else if good 2 then webhook_publish post sleep W event w = (Some (Ok ()), snd (try (at 2)))
    else (\<exists>e. webhook_publish post sleep W event w = (Some (Err e), snd (try (at 2)))))"
proof -
  have "[0..<3] = [0, 1, 2::nat]" by (simp add: upt_conv_Cons)
  then show ?thesis
    by (simp add: webhook_publish_def webhook_attempts_step Let_def numeral_2_eq_2 del: webhook_attempts.simps(2))
qed

section \<open>What the callers and the subscribers see\<close>

lemma webhook_no_panic: "fst (webhook_publish post sleep W event w) \<noteq> None"
  using webhook_retries [of post W event sleep w] by (auto simp: Let_def split: if_splits)

lemma event_to_json_inj:
  assumes "uuid_ok (as_uuid (event_email_id a))" "uuid_ok (as_uuid (event_email_id b))" "event_to_json a = event_to_json b"
  shows "a = b"
  using assms by (intro event_wire_inj) (auto simp: event_to_json_def uuid_hyphenated_inj intro: email_id.expand)

text \<open>Both contracts are the same.\<close>

lemma same_wire_format: "nats_event_to_json = event_to_json"
  by (rule ext) (simp add: nats_event_to_json_def event_to_json_def)

fun adapter_webhook :: "publisher_adapter \<Rightarrow> web_state option" where
  "adapter_webhook (StorageWebhook W) = Some W"
| "adapter_webhook (StorageBoth W N) = Some W"
| "adapter_webhook _ = None"

fun adapter_nats :: "publisher_adapter \<Rightarrow> nats_event_publisher option" where
  "adapter_nats (StorageNats N) = Some N"
| "adapter_nats (StorageBoth W N) = Some N"
| "adapter_nats _ = None"

definition real_sinks ::
    "(lifecycle_event \<Rightarrow> 's \<Rightarrow> (event_publisher_error + unit) \<times> 's) \<Rightarrow>
     (url \<Rightarrow> json \<Rightarrow> 'h \<Rightarrow> (anyhow + nat) \<times> 'h) \<Rightarrow> (nat \<Rightarrow> 'h \<Rightarrow> 'h) \<Rightarrow> (json \<Rightarrow> byte list option) \<Rightarrow>
     (string \<Rightarrow> byte list \<Rightarrow> 'n \<Rightarrow> (anyhow + unit) \<times> 'n) \<Rightarrow> ('s, 'h, 'n) sinks" where
  "real_sinks store post sleep to_vec publish =
     \<lparr>sk_storage = store, sk_webhook = webhook_publish post sleep, sk_nats = nats_event_publish to_vec publish\<rparr>"

text \<open>C35: The storage alone decides whether publishing succeeded: the answer and the stored events are those of the storage publisher,
  whatever the webhook and NATS do.  Each configured sink is handed the event once, also when the storage fails, and one
  that is not configured is left alone.\<close>

theorem publisher_storage_authority:
  "adapter_publish (real_sinks store post sleep to_vec publish) A event (s, h, n) =
     (Some (fst (store event s)), snd (store event s),
      (case adapter_webhook A of None \<Rightarrow> h | Some W \<Rightarrow> snd (webhook_publish post sleep W event h)),
      (case adapter_nats A of None \<Rightarrow> n | Some N \<Rightarrow> snd (nats_event_publish to_vec publish N event n)))"
proof -
  obtain sr s' where s: "store event s = (sr, s')" by (rule prod.exhaust)
  have sr: "bind_sum sr Ok = sr" by (cases sr) simp_all
  have web: "\<exists>r h'. webhook_publish post sleep W event h = (Some r, h')" for W
    using webhook_no_panic [of post sleep W event h] by (cases "webhook_publish post sleep W event h") auto
  show ?thesis
  proof (cases A)
    case (StorageWebhook W)
    obtain r h' where "webhook_publish post sleep W event h = (Some r, h')" using web by blast
    then show ?thesis by (simp add: adapter_publish_def real_sinks_def s sr StorageWebhook)
  next
    case (StorageNats N)
    obtain nr n' where "nats_event_publish to_vec publish N event n = (nr, n')" by (rule prod.exhaust)
    then show ?thesis by (simp add: adapter_publish_def real_sinks_def s sr StorageNats)
  next
    case (StorageBoth W N)
    obtain r h' where "webhook_publish post sleep W event h = (Some r, h')" using web by blast
    moreover obtain nr n' where "nats_event_publish to_vec publish N event n = (nr, n')" by (rule prod.exhaust)
    ultimately show ?thesis by (simp add: adapter_publish_def real_sinks_def s sr StorageBoth)
  qed (simp add: adapter_publish_def real_sinks_def s)
qed

end
