(* ===== verification/NatsQueue.thy ===== *)
theory NatsQueue
  imports SqlDto
begin

text \<open>
  The queue on NATS JetStream (\<open>adapter/outbound-nats/src\<close>): the payload of a queued email (\<open>dto.rs\<close>), the queue
  operations (\<open>email_queue.rs\<close>), the health check and the configuration (\<open>lib.rs\<close>, \<open>health.rs\<close>).  The bodies,
  recipients and attachments of the payload have the same DTOs as the SQL columns and share their model.

  The server and crates \<open>async-nats\<close>, \<open>serde_json\<close> and \<open>uuid\<close> are parameters: \<open>publish\<close> acts on a world,
  a fetch is a given result, JSON text is converted by \<open>nq_to_vec\<close> and \<open>nq_from_slice\<close>.  A header map is the list of its names
  with their values, in the order an iteration meets them.  The set-up of the stream and the consumer is in the theory \<open>JetStream\<close>.
\<close>

section \<open>Payload\<close>

record nats_envelope_dto =
  nd_idempotency_key :: "string option"
  nd_subject :: "string option"
  nd_sender :: string
  nd_recipients :: "recipient_dto list"
  nd_body :: body_source_dto
  nd_variables :: variables
  nd_attachments :: "attachment_ref_dto list"

record queued_payload =
  qp_id :: uuid
  qp_correlation_id :: "string option"
  qp_envelope :: nats_envelope_dto

definition payload_of :: "email_id \<Rightarrow> envelope \<Rightarrow> queued_payload" where
  "payload_of i env =
     \<lparr>qp_id = as_uuid i, qp_correlation_id = env_correlation_id env,
      qp_envelope = \<lparr>nd_idempotency_key = env_idempotency_key env, nd_subject = env_subject env, nd_sender = env_sender env,
        nd_recipients = recipients_to_dto (env_recipients env), nd_body = body_source_to_dto (env_body env),
        nd_variables = env_variables env, nd_attachments = map attachment_ref_to_dto (env_attachments env)\<rparr>\<rparr>"

definition of_payload :: "(string \<Rightarrow> anyhow + url) \<Rightarrow> queued_payload \<Rightarrow> anyhow + email_id \<times> envelope" where
  "of_payload parse_url p =
     (let d = qp_envelope p in
      map_ok (\<lambda>body. (EmailId (qp_id p),
         \<lparr>env_idempotency_key = nd_idempotency_key d, env_correlation_id = qp_correlation_id p, env_subject = nd_subject d,
          env_sender = nd_sender d, env_recipients = recipients_from_dto (nd_recipients d), env_body = body,
          env_variables = nd_variables d, env_attachments = map attachment_ref_of_dto (nd_attachments d)\<rparr>))
        (body_source_of_dto parse_url (nd_body d)))"

text \<open>The derived \<open>Serialize\<close> and \<open>Deserialize\<close>: \<open>correlation_id\<close> is skipped when \<open>None\<close>, and it and
  \<open>attachments\<close> default when missing.\<close>

definition ser_nats_envelope :: "nats_envelope_dto \<Rightarrow> json" where
  "ser_nats_envelope d =
     JObj [(''idempotency_key'', json_opt_str (nd_idempotency_key d)), (''subject'', json_opt_str (nd_subject d)),
           (''sender'', JStr (nd_sender d)), (''recipients'', ser_recipients (nd_recipients d)),
           (''body'', ser_body_source (nd_body d)), (''variables'', JObj (nd_variables d)),
           (''attachments'', JArr (map ser_attachment_ref (nd_attachments d)))]"

definition de_nats_envelope :: "json \<Rightarrow> nats_envelope_dto option" where
  "de_nats_envelope j =
     (case (de_opt_str (json_field ''idempotency_key'' j), de_opt_str (json_field ''subject'' j), de_str (json_field ''sender'' j),
            Option.bind (json_field ''recipients'' j) de_recipients, Option.bind (json_field ''body'' j) de_body_source,
            (case json_field ''variables'' j of Some (JObj vs) \<Rightarrow> Some vs | _ \<Rightarrow> None),
            (case json_field ''attachments'' j of None \<Rightarrow> Some [] | Some (JArr xs) \<Rightarrow> traverse_option de_attachment_ref xs | _ \<Rightarrow> None)) of
        (Some k, Some s, Some f, Some rs, Some b, Some vs, Some atts) \<Rightarrow>
          Some \<lparr>nd_idempotency_key = k, nd_subject = s, nd_sender = f, nd_recipients = rs, nd_body = b,
                nd_variables = vs, nd_attachments = atts\<rparr>
      | _ \<Rightarrow> None)"

definition ser_payload :: "queued_payload \<Rightarrow> json" where
  "ser_payload p =
     JObj ((''id'', JStr (uuid_hyphenated (qp_id p))) #
           (case qp_correlation_id p of None \<Rightarrow> [] | Some c \<Rightarrow> [(''correlation_id'', JStr c)]) @
           [(''envelope'', ser_nats_envelope (qp_envelope p))])"

definition de_payload :: "(string \<Rightarrow> uuid option) \<Rightarrow> json \<Rightarrow> queued_payload option" where
  "de_payload parse_uuid j =
     (case (Option.bind (de_str (json_field ''id'' j)) parse_uuid, de_opt_str (json_field ''correlation_id'' j),
            Option.bind (json_field ''envelope'' j) de_nats_envelope) of
        (Some i, Some c, Some e) \<Rightarrow> Some \<lparr>qp_id = i, qp_correlation_id = c, qp_envelope = e\<rparr>
      | _ \<Rightarrow> None)"

section \<open>Trace headers\<close>

type_synonym nats_headers = "(string \<times> string list) list"

text \<open>\<open>HeaderMap::insert\<close> replaces the values of a name.\<close>

fun header_insert :: "string \<Rightarrow> string \<Rightarrow> nats_headers \<Rightarrow> nats_headers" where
  "header_insert k v [] = [(k, [v])]"
| "header_insert k v ((k', vs) # hs) = (if k' = k then (k, [v]) # hs else (k', vs) # header_insert k v hs)"

definition pairs_to_header_map :: "(string \<times> string) list \<Rightarrow> nats_headers option" where
  "pairs_to_header_map pairs =
     (if pairs = [] then None else Some (foldl (\<lambda>m (k, v). header_insert k v m) [] pairs))"

definition find_header :: "string \<Rightarrow> nats_headers \<Rightarrow> string list option" where
  "find_header name hs = map_option snd (List.find (\<lambda>(k, _). eq_ignore_ascii_case k name) hs)"

definition header_map_to_pairs :: "nats_headers \<Rightarrow> (string \<times> string) list" where
  "header_map_to_pairs hs =
     (let traceparent = (case find_header ''traceparent'' hs of Some (v # _) \<Rightarrow> Some v | _ \<Rightarrow> None);
          tracestate_values = (case find_header ''tracestate'' hs of None \<Rightarrow> [] | Some vs \<Rightarrow> vs) in
      (case traceparent of None \<Rightarrow> [] | Some v \<Rightarrow> [(''traceparent'', v)]) @
      (if tracestate_values = [] then [] else [(''tracestate'', join '','' tracestate_values)]))"

section \<open>Queue operations\<close>

record nats_message =
  nm_payload :: "byte list"
  nm_headers :: "nats_headers option"
  nm_reply :: "string option"
  nm_delivered :: "int option"

record nats_libs =
  nq_to_vec :: "json \<Rightarrow> byte list option"
  nq_from_slice :: "byte list \<Rightarrow> json option"
  nq_parse_uuid :: "string \<Rightarrow> uuid option"
  nq_parse_url :: "string \<Rightarrow> anyhow + url"
  nq_from_utf8 :: "byte list \<Rightarrow> string option"

text \<open>\<open>publish subject headers payload\<close>; \<open>trace\<close> is what \<open>inject_current\<close> returns.\<close>

definition nats_enqueue ::
    "nats_libs \<Rightarrow> (string \<Rightarrow> nats_headers option \<Rightarrow> byte list \<Rightarrow> 'w \<Rightarrow> (anyhow + unit) \<times> 'w) \<Rightarrow> string \<Rightarrow>
     (string \<times> string) list \<Rightarrow> email_id \<Rightarrow> envelope \<Rightarrow> 'w \<Rightarrow> (email_queue_error + unit) \<times> 'w" where
  "nats_enqueue L publish subject trace i env w =
     (case nq_to_vec L (ser_payload (payload_of i env)) of
        None \<Rightarrow> (Err (QueueStorage ''serializing envelope''), w)
      | Some bytes \<Rightarrow>
          map_err_st (\<lambda>_. QueueStorage ''publishing to NATS'') (publish subject (pairs_to_header_map trace) bytes) w)"

definition delivered_attempt :: "int \<Rightarrow> nat" where
  "delivered_attempt n = max 1 (if 0 \<le> n \<and> n \<le> int u32_max then nat n else 1)"

definition receive_message :: "nats_libs \<Rightarrow> nats_message \<Rightarrow> email_queue_error + dequeued_email" where
  "receive_message L msg =
     map_err QueueStorage (
       bind_sum (ok_or ''reading message info'' (nm_delivered msg)) (\<lambda>delivered.
       bind_sum (ok_or ''message has no reply subject'' (nm_reply msg)) (\<lambda>reply.
       bind_sum (ok_or ''deserializing NATS payload'' (Option.bind (nq_from_slice L (nm_payload msg)) (de_payload (nq_parse_uuid L)))) (\<lambda>payload.
       bind_sum (of_payload (nq_parse_url L) payload) (\<lambda>(i, env).
         Ok \<lparr>dq_id = i, dq_envelope = env, dq_attempt = delivered_attempt delivered,
             dq_token = ack_token_new (map of_char reply),
             dq_trace = trace_carrier_new (case nm_headers msg of None \<Rightarrow> [] | Some hs \<Rightarrow> header_map_to_pairs hs)\<rparr>)))))"

text \<open>\<open>dequeue\<close> fetches until a batch holds a message; \<open>None\<close> is a call still waiting when the given fetches end.\<close>

fun nats_dequeue :: "nats_libs \<Rightarrow> (anyhow + (anyhow + nats_message) option) list \<Rightarrow> (email_queue_error + dequeued_email) option" where
  "nats_dequeue L [] = None"
| "nats_dequeue L (Inl e # fetches) = Some (Err (QueueStorage ''fetching from NATS consumer''))"
| "nats_dequeue L (Inr None # fetches) = nats_dequeue L fetches"
| "nats_dequeue L (Inr (Some (Inl e)) # fetches) = Some (Err (QueueStorage ''receiving NATS message''))"
| "nats_dequeue L (Inr (Some (Inr msg)) # fetches) = Some (receive_message L msg)"

fun show_nat :: "nat \<Rightarrow> string" where
  "show_nat n = (if n < 10 then [char_of (48 + n)] else show_nat (n div 10) @ [char_of (48 + n mod 10)])"

declare show_nat.simps [simp del]

definition nak_payload :: "nat \<Rightarrow> string" where
  "nak_payload delay_ns = ''-NAK {'' @ [CHR 0x22] @ ''delay'' @ [CHR 0x22] @ '':'' @ show_nat (min delay_ns (nat i64_max)) @ ''}''"

text \<open>Publishing to the reply subject, without headers.\<close>

definition nats_ack ::
    "nats_libs \<Rightarrow> (string \<Rightarrow> nats_headers option \<Rightarrow> byte list \<Rightarrow> 'w \<Rightarrow> (anyhow + unit) \<times> 'w) \<Rightarrow> ack_token \<Rightarrow> 'w \<Rightarrow>
     (email_queue_error + unit) \<times> 'w" where
  "nats_ack L publish tok w =
     (case nq_from_utf8 L (ack_token_into_bytes tok) of
        None \<Rightarrow> (Err (QueueStorage ''invalid ack token encoding''), w)
      | Some reply \<Rightarrow> map_err_st (\<lambda>_. QueueStorage ''publishing ack to NATS'') (publish reply None (map of_char ''+ACK'')) w)"

definition nats_nack ::
    "nats_libs \<Rightarrow> (string \<Rightarrow> nats_headers option \<Rightarrow> byte list \<Rightarrow> 'w \<Rightarrow> (anyhow + unit) \<times> 'w) \<Rightarrow> ack_token \<Rightarrow> nat \<Rightarrow> 'w \<Rightarrow>
     (email_queue_error + unit) \<times> 'w" where
  "nats_nack L publish tok delay_ns w =
     (case nq_from_utf8 L (ack_token_into_bytes tok) of
        None \<Rightarrow> (Err (QueueStorage ''invalid nack token encoding''), w)
      | Some reply \<Rightarrow>
          map_err_st (\<lambda>_. QueueStorage ''publishing nack to NATS'') (publish reply None (map of_char (nak_payload delay_ns))) w)"

datatype nats_connection = NatsPending | NatsConnected | NatsDisconnected

definition nats_check :: "nats_connection \<Rightarrow> health_check_error + unit" where
  "nats_check s = (if s = NatsConnected then Ok () else Err (Unavailable ''NATS connection not ready''))"

section \<open>Configuration\<close>

record nats_config =
  nc_url :: string
  nc_stream :: string
  nc_subject :: string
  nc_consumer :: string
  nc_ack_wait_secs :: nat
  nc_max_deliver :: int
  nc_backoff_secs :: "nat list"

definition env_parsed :: "(string \<Rightarrow> env_var) \<Rightarrow> string \<Rightarrow> 'a \<Rightarrow> (string \<Rightarrow> 'a option) \<Rightarrow> anyhow + 'a" where
  "env_parsed env key dflt parse =
     (case env_ok_var env key of
        None \<Rightarrow> Ok dflt
      | Some v \<Rightarrow> ok_or (''invalid '' @ key @ '': '' @ debug_str v) (parse v))"

definition env_text :: "(string \<Rightarrow> env_var) \<Rightarrow> string \<Rightarrow> string \<Rightarrow> string" where
  "env_text env key dflt = (case env_ok_var env key of None \<Rightarrow> dflt | Some v \<Rightarrow> v)"

definition nats_config_from_env :: "(string \<Rightarrow> env_var) \<Rightarrow> string \<Rightarrow> anyhow + nats_config" where
  "nats_config_from_env env prefix =
     bind_sum (require_env env (prefix @ ''_URL'')) (\<lambda>u.
     bind_sum (env_parsed env (prefix @ ''_ACK_WAIT_SECS'') 30 (parse_uint u64_max)) (\<lambda>ack_wait.
     bind_sum (env_parsed env (prefix @ ''_MAX_DELIVER'') 3 parse_i64) (\<lambda>max_deliver.
     bind_sum (case env_ok_var env (prefix @ ''_BACKOFF'') of
                 None \<Rightarrow> Ok [30, 60, 120]
               | Some v \<Rightarrow> collect_results (\<lambda>s. ok_or (''invalid value in '' @ prefix @ ''_BACKOFF: '' @ debug_str s)
                                                  (parse_uint u64_max (trim s))) (split_on CHR '','' v)) (\<lambda>backoff.
       Ok \<lparr>nc_url = u, nc_stream = env_text env (prefix @ ''_STREAM'') ''CATAPULTE_EMAILS'',
           nc_subject = env_text env (prefix @ ''_SUBJECT'') ''catapulte.emails.queued'',
           nc_consumer = env_text env (prefix @ ''_CONSUMER'') ''catapulte-worker'',
           nc_ack_wait_secs = ack_wait, nc_max_deliver = max_deliver, nc_backoff_secs = backoff\<rparr>))))"

section \<open>Round trips\<close>

lemma de_ser_nats_envelope:
  "\<forall>a\<in>set (nd_attachments d). ad_size_bytes a \<le> u64_max \<Longrightarrow> de_nats_envelope (ser_nats_envelope d) = Some d"
proof -
  assume fits: "\<forall>a\<in>set (nd_attachments d). ad_size_bytes a \<le> u64_max"
  have "traverse_option de_attachment_ref (map ser_attachment_ref (nd_attachments d)) = Some (map (\<lambda>a. a) (nd_attachments d))"
    using fits by (intro traverse_option_map) (simp add: de_attachment_ref_def ser_attachment_ref_def de_blob_ref_def de_u64_def)
  then show ?thesis by (simp add: de_nats_envelope_def ser_nats_envelope_def)
qed

lemma of_payload_of:
  "body_ok (env_body env) \<Longrightarrow> url_stable parse_url (env_body env) \<Longrightarrow> of_payload parse_url (payload_of i env) = Inr (i, env)"
  by (simp add: of_payload_def payload_of_def body_source_of_to_dto comp_def)

lemma de_ser_payload:
  assumes "parse_uuid (uuid_hyphenated (qp_id p)) = Some (qp_id p)" "\<forall>a\<in>set (nd_attachments (qp_envelope p)). ad_size_bytes a \<le> u64_max"
  shows "de_payload parse_uuid (ser_payload p) = Some p"
  using assms by (cases "qp_correlation_id p") (simp_all add: de_payload_def ser_payload_def de_ser_nats_envelope de_opt_str_def)

lemma fits_to_dto: "\<forall>a\<in>set atts. size_fits a \<Longrightarrow> \<forall>d\<in>set (map attachment_ref_to_dto atts). ad_size_bytes d \<le> u64_max"
  by (auto simp: size_fits_def attachment_ref_to_dto_def)

section \<open>Nesting\<close>

text \<open>How deep arrays and objects are nested; the text of a deeper value than \<open>json_recursion_limit\<close> is refused by the parser of crate
  \<open>serde_json\<close>, while its writer has no limit.\<close>

primrec json_depth :: "json \<Rightarrow> nat" where
  "json_depth JNull = 0"
| "json_depth (JBool b) = 0"
| "json_depth (JNum n) = 0"
| "json_depth (JStr s) = 0"
| "json_depth (JArr xs) = Suc (foldr max (map json_depth xs) 0)"
| "json_depth (JObj kvs) = Suc (foldr max (map snd (map (map_prod id json_depth) kvs)) 0)"

definition json_recursion_limit :: nat where
  "json_recursion_limit = 127"

lemma foldr_max_le: "foldr max ns 0 \<le> (b :: nat) \<longleftrightarrow> (\<forall>n\<in>set ns. n \<le> b)"
  by (induction ns) auto

lemma json_depth_Arr: "json_depth (JArr xs) \<le> Suc b \<longleftrightarrow> (\<forall>x\<in>set xs. json_depth x \<le> b)"
  by (simp add: foldr_max_le)

lemma json_depth_Obj: "json_depth (JObj kvs) \<le> Suc b \<longleftrightarrow> (\<forall>(k, x)\<in>set kvs. json_depth x \<le> b)"
  by (auto simp: foldr_max_le)

lemma json_depth_opt_str [simp]: "json_depth (json_opt_str x) = 0"
  by (simp add: json_opt_str_def split: option.split)

lemma json_depth_body: "json_depth (ser_body_source b) \<le> 1"
  by (cases b) simp_all

text \<open>The variables of an email are two levels deep in its payload, the rest is at most five levels deep.\<close>

lemma json_depth_payload:
  assumes "3 \<le> n" "json_depth (JObj (env_variables env)) \<le> n"
  shows "json_depth (ser_payload (payload_of i env)) \<le> Suc (Suc n)"
proof -
  have one: "x \<le> 1 \<Longrightarrow> x \<le> n" for x :: nat using assms(1) by simp
  have "json_depth (ser_recipient_kind k) = 0" for k by (cases k) simp_all
  then have "json_depth (ser_recipients rs) \<le> 3" for rs
    by (simp add: ser_recipients_def foldr_max_le ser_recipient_def)
  moreover have "json_depth (JArr (map ser_attachment_ref ds)) \<le> 3" for ds
    by (simp add: foldr_max_le ser_attachment_ref_def)
  ultimately have "json_depth (ser_nats_envelope (qp_envelope (payload_of i env))) \<le> Suc n"
    unfolding ser_nats_envelope_def json_depth_Obj
    using assms one [OF json_depth_body] by (auto simp: payload_of_def json_depth.simps(4) intro: order_trans [OF _ assms(1)] simp del: map_map json_depth.simps(5,6))
  then show ?thesis
    unfolding ser_payload_def json_depth_Obj by (auto split: option.splits)
qed

text \<open>A trace context as the propagator writes it: no header but the two of W3C, each once.\<close>

definition w3c_trace :: "(string \<times> string) list \<Rightarrow> bool" where
  "w3c_trace ps \<longleftrightarrow> distinct (map fst ps) \<and> fst ` set ps \<subseteq> {''traceparent'', ''tracestate''}"

lemma w3c_trace_cases:
  assumes "w3c_trace ps"
  obtains "ps = []" | t where "ps = [(''traceparent'', t)]" | s where "ps = [(''tracestate'', s)]"
  | t s where "ps = [(''traceparent'', t), (''tracestate'', s)]" | t s where "ps = [(''tracestate'', s), (''traceparent'', t)]"
proof -
  have "length ps \<le> card {''traceparent'', ''tracestate''}"
    using assms card_mono [of "{''traceparent'', ''tracestate''}" "set (map fst ps)"] distinct_card [of "map fst ps"]
    by (simp add: w3c_trace_def)
  then have "length ps \<le> 2" by simp
  then consider "ps = []" | x where "ps = [x]" | x y where "ps = [x, y]"
    by (cases ps; cases "tl ps"; cases "tl (tl ps)") auto
  then show thesis using assms that by cases (auto simp: w3c_trace_def)
qed

lemma headers_keep_trace:
  "w3c_trace ps \<Longrightarrow> map_of (case pairs_to_header_map ps of None \<Rightarrow> [] | Some hs \<Rightarrow> header_map_to_pairs hs) = map_of ps"
  by (erule w3c_trace_cases)
    (simp_all add: pairs_to_header_map_def header_map_to_pairs_def find_header_def Let_def eq_ignore_ascii_case_def
      to_ascii_lowercase_def ascii_lower_def fun_eq_iff)

lemma dequeue_skips: "nats_dequeue L (replicate k (Inr None) @ fetches) = nats_dequeue L fetches"
  by (induction k) auto

text \<open>What crate \<open>serde_json\<close> documents of its text: it is read back as it was written, up to the recursion limit.\<close>

definition json_text_reads_back :: "nats_libs \<Rightarrow> bool" where
  "json_text_reads_back L \<longleftrightarrow>
     (\<forall>j b. json_depth j \<le> json_recursion_limit \<longrightarrow> nq_to_vec L j = Some b \<longrightarrow> nq_from_slice L b = Some j)"

text \<open>C36: What is put on the NATS queue is what a worker takes off it: when the variables of an email are not nested deeper than 124
  levels in the object that holds them, the message published for it decodes, whenever it arrives and however often it was
  delivered before, to the same id and envelope with the delivery count as the attempt, its trace context, and a token that
  acknowledges exactly that message.  (Deeper variables pass the HTTP request, where they are one level less deep, and are
  published, but the parser refuses the payload.)\<close>

theorem nats_queue_roundtrip:
  assumes "body_ok (env_body env)" "url_stable (nq_parse_url L) (env_body env)" "\<forall>a\<in>set (env_attachments env). size_fits a"
    and "nq_parse_uuid L (uuid_hyphenated (as_uuid i)) = Some (as_uuid i)"
    and "json_text_reads_back L" "json_depth (JObj (env_variables env)) \<le> Suc 124"
    and "nq_from_utf8 L (map of_char reply) = Some reply"
    and "w3c_trace trace" "nats_enqueue L publish subject trace i env w = (Inr (), w')"
  shows "\<exists>headers bytes item. publish subject headers bytes w = (Inr (), w') \<and>
    (\<forall>n k later. 1 \<le> n \<longrightarrow> n \<le> u32_max \<longrightarrow>
       nats_dequeue L (replicate k (Inr None) @ Inr (Some (Inr
          \<lparr>nm_payload = bytes, nm_headers = headers, nm_reply = Some reply, nm_delivered = Some (int n)\<rparr>)) # later)
       = Some (Inr (item\<lparr>dq_attempt := n\<rparr>))) \<and>
    dq_id item = i \<and> dq_envelope item = env \<and> map_of (as_pairs (dq_trace item)) = map_of trace \<and>
    (\<forall>p (v :: 'v). nats_ack L p (dq_token item) v =
       map_err_st (\<lambda>_. QueueStorage ''publishing ack to NATS'') (p reply None (map of_char ''+ACK'')) v)"
proof -
  obtain bytes where bytes: "nq_to_vec L (ser_payload (payload_of i env)) = Some bytes"
      and sent: "publish subject (pairs_to_header_map trace) bytes w = (Inr (), w')"
    using assms(9) by (auto simp: nats_enqueue_def map_err_st_Inr split: option.splits)
  have decoded: "Option.bind (nq_from_slice L bytes) (de_payload (nq_parse_uuid L)) = Some (payload_of i env)"
  proof -
    have "json_depth (ser_payload (payload_of i env)) \<le> json_recursion_limit"
      using json_depth_payload [OF _ assms(6), of i] by (simp add: json_recursion_limit_def)
    then have "nq_from_slice L bytes = Some (ser_payload (payload_of i env))"
      using assms(5) bytes by (simp add: json_text_reads_back_def)
    with assms(3,4) fits_to_dto show ?thesis by (simp add: de_ser_payload payload_of_def)
  qed
  define item where "item = \<lparr>dq_id = i, dq_envelope = env, dq_attempt = 1, dq_token = ack_token_new (map of_char reply),
      dq_trace = trace_carrier_new (case pairs_to_header_map trace of None \<Rightarrow> [] | Some hs \<Rightarrow> header_map_to_pairs hs)\<rparr>"
  have "receive_message L \<lparr>nm_payload = bytes, nm_headers = pairs_to_header_map trace, nm_reply = Some reply, nm_delivered = Some (int n)\<rparr>
      = Inr (item\<lparr>dq_attempt := n\<rparr>)" if "1 \<le> n" "n \<le> u32_max" for n
    using that decoded of_payload_of [OF assms(1,2), of i]
    by (simp add: receive_message_def item_def delivered_attempt_def)
  moreover have "map_of (as_pairs (dq_trace item)) = map_of trace"
    using headers_keep_trace [OF assms(8)] by (simp add: item_def trace_carrier_new_def)
  moreover have "nats_ack L p (dq_token item) v =
      map_err_st (\<lambda>_. QueueStorage ''publishing ack to NATS'') (p reply None (map of_char ''+ACK'')) v" for p and v :: 'v
    using assms(7) by (simp add: nats_ack_def item_def ack_token_new_def ack_token_into_bytes_def)
  ultimately show ?thesis using sent
    by (intro exI [of _ "pairs_to_header_map trace"] exI [of _ bytes] exI [of _ item])
      (simp add: dequeue_skips item_def)
qed

text \<open>A codec that knows one message.\<close>

definition nats_mail :: envelope where
  "nats_mail =
     \<lparr>env_idempotency_key = None, env_correlation_id = Some ''c'', env_subject = None, env_sender = ''a@x.org'',
      env_recipients = [(To, ''b@x.org'')], env_body = BodyMjml (MjmlNamed ''welcome''), env_variables = [], env_attachments = []\<rparr>"

definition nats_mail_libs :: nats_libs where
  "nats_mail_libs =
     \<lparr>nq_to_vec = (\<lambda>j. if j = ser_payload (payload_of (EmailId 7) nats_mail) then Some [1] else None),
      nq_from_slice = (\<lambda>b. if b = [1] then Some (ser_payload (payload_of (EmailId 7) nats_mail)) else None),
      nq_parse_uuid = (\<lambda>s. if s = uuid_hyphenated 7 then Some 7 else None),
      nq_parse_url = (\<lambda>s. Err ''no urls''), nq_from_utf8 = (\<lambda>bs. if bs = map of_char ''r'' then Some ''r'' else None)\<rparr>"

theorem nats_queue_roundtrip_witness:
  "\<exists>headers item. nats_dequeue nats_mail_libs [Inr None, Inr (Some (Inr
       \<lparr>nm_payload = [1], nm_headers = headers, nm_reply = Some ''r'', nm_delivered = Some 2\<rparr>))] = Some (Inr item) \<and>
     dq_id item = EmailId 7 \<and> dq_envelope item = nats_mail \<and> dq_attempt item = 2"
proof -
  let ?publish = "\<lambda>s (hs :: nats_headers option) (b :: byte list) (log :: byte list list). (Inr () :: anyhow + unit, log @ [b])"
  have enqueued: "nats_enqueue nats_mail_libs ?publish ''q'' [(''traceparent'', ''t'')] (EmailId 7) nats_mail [] = (Inr (), [[1]])"
    by (simp add: nats_enqueue_def nats_mail_libs_def map_err_st_def)
  have ready: "body_ok (env_body nats_mail)" "url_stable (nq_parse_url nats_mail_libs) (env_body nats_mail)"
      "\<forall>a\<in>set (env_attachments nats_mail). size_fits a"
      "nq_parse_uuid nats_mail_libs (uuid_hyphenated (as_uuid (EmailId 7))) = Some (as_uuid (EmailId 7))"
      "json_text_reads_back nats_mail_libs" "json_depth (JObj (env_variables nats_mail)) \<le> Suc 124"
      "nq_from_utf8 nats_mail_libs (map of_char ''r'') = Some ''r''" "w3c_trace [(''traceparent'', ''t'')]"
    by (auto simp: nats_mail_libs_def nats_mail_def w3c_trace_def json_text_reads_back_def split: if_splits)
  obtain headers bytes item where "(Inr () :: anyhow + unit, [] @ [bytes]) = (Inr (), [[1]])"
      "\<forall>n k later. 1 \<le> n \<longrightarrow> n \<le> u32_max \<longrightarrow>
       nats_dequeue nats_mail_libs (replicate k (Inr None) @ Inr (Some (Inr
          \<lparr>nm_payload = bytes, nm_headers = headers, nm_reply = Some ''r'', nm_delivered = Some (int n)\<rparr>)) # later)
       = Some (Inr (item\<lparr>dq_attempt := n\<rparr>))" "dq_id item = EmailId 7" "dq_envelope item = nats_mail"
    using nats_queue_roundtrip [OF ready enqueued] by blast
  from this(1,3,4) this(2) [rule_format, of 2 1 "[]"] show ?thesis
    by (intro exI [of _ headers] exI [of _ "item\<lparr>dq_attempt := 2\<rparr>"]) (simp add: u32_max_def)
qed

end
