(* ===== verification/InboundNats.thy ===== *)
theory InboundNats
  imports HttpSystem NatsQueue
begin

text \<open>
  Submission over NATS (\<open>adapter/inbound-nats/src/server.rs\<close>): the configuration, the handling of one message, and
  the server loop.  A message is parsed and checked like an HTTP request and submitted by the same use case; the code then
  settles it with the server, with an ack or a nak, whose failure is only logged.

  The server is a world of its own, on which \<open>settle\<close> acts.  Whatever it delivers, and delivers again because a settlement was
  lost, is a list of messages here; the lemmas add up what the deliveries do to the SQLite and filesystem world.  The trace headers
  only set the parent of a span; how they are read, and the set-up of stream and consumer, is in the theory \<open>JetStream\<close>.
\<close>

section \<open>Configuration\<close>

definition positive_or :: "string \<Rightarrow> (string \<Rightarrow> env_var) \<Rightarrow> string \<Rightarrow> int \<Rightarrow> (string \<Rightarrow> int option) \<Rightarrow> anyhow + int" where
  "positive_or what env key dflt parse =
     (case env_ok_var env key of
        None \<Rightarrow> Ok dflt
      | Some v \<Rightarrow>
          bind_sum (ok_or (key @ '' is not a valid '' @ what @ '': '' @ debug_str v) (parse v)) (\<lambda>n.
            if 0 < n then Ok n else Err (key @ '' must be greater than 0'')))"

definition inbound_nats_from_lookup :: "(string \<Rightarrow> env_var) \<Rightarrow> string \<Rightarrow> anyhow + nats_config option" where
  "inbound_nats_from_lookup env prefix =
     (case env_ok_var env (prefix @ ''_URL'') of
        None \<Rightarrow> Ok None
      | Some u \<Rightarrow>
          if u = [] then Ok None
          else
            bind_sum (require_env env (prefix @ ''_STREAM'')) (\<lambda>stream.
            bind_sum (require_env env (prefix @ ''_SUBJECT'')) (\<lambda>subject.
            bind_sum (require_env env (prefix @ ''_CONSUMER'')) (\<lambda>consumer.
            bind_sum (positive_or ''u64'' env (prefix @ ''_ACK_WAIT_SECS'') 30 (map_option int \<circ> parse_uint u64_max)) (\<lambda>ack_wait.
            bind_sum (positive_or ''integer'' env (prefix @ ''_MAX_DELIVER'') 5 parse_i64) (\<lambda>max_deliver.
            bind_sum (case env_ok_var env (prefix @ ''_BACKOFF_SECS'') of
                        None \<Rightarrow> Ok [1, 5, 30]
                      | Some v \<Rightarrow>
                          (case collect_results (\<lambda>s. ok_or () (parse_uint u64_max (trim s))) (split_on CHR '','' v) of
                             Inl _ \<Rightarrow> Err (prefix @ ''_BACKOFF_SECS contains an unparseable entry: '' @ debug_str v)
                           | Inr parsed \<Rightarrow>
                               if parsed = [] then Err (prefix @ ''_BACKOFF_SECS must not be empty'') else Ok parsed)) (\<lambda>backoff.
              Ok (Some \<lparr>nc_url = u, nc_stream = stream, nc_subject = subject, nc_consumer = consumer,
                        nc_ack_wait_secs = nat ack_wait, nc_max_deliver = max_deliver, nc_backoff_secs = backoff\<rparr>))))))))"

section \<open>Messages\<close>

datatype settlement_kind = AckMessage | NakMessage

definition handle_message ::
    "http_libs \<Rightarrow> (submit_email_input \<Rightarrow> 'w \<Rightarrow> (submit_email_error + email_id) \<times> 'w) \<Rightarrow>
     (settlement_kind \<Rightarrow> 'n \<Rightarrow> (anyhow + unit) \<times> 'n) \<Rightarrow> byte list \<Rightarrow> 'w \<times> 'n \<Rightarrow> 'w \<times> 'n" where
  "handle_message L submit settle payload world =
     (let (w, n) = world in
      case hl_request_json L payload of
        None \<Rightarrow> (w, snd (settle AckMessage n))
      | Some request \<Rightarrow>
          (case request_into_submit_input L request of
             Inl e \<Rightarrow> (w, snd (settle AckMessage n))
           | Inr input \<Rightarrow>
               (case submit input w of
                  (Inr i, w') \<Rightarrow> (w', snd (settle AckMessage n))
                | (Inl e, w') \<Rightarrow>
                    (w', snd (settle (if submit_error_is_transient e then NakMessage else AckMessage) n)))))"

text \<open>The loop meets cancellation or the outcome of a fetch, with the id that a submission would generate; it reports whether it
  has stopped.\<close>

datatype inbound_event = CancelSeen | Fetched "anyhow + byte list option"

fun inbound_run ::
    "http_libs \<Rightarrow> (email_id \<Rightarrow> submit_email_input \<Rightarrow> 'w \<Rightarrow> (submit_email_error + email_id) \<times> 'w) \<Rightarrow>
     (settlement_kind \<Rightarrow> 'n \<Rightarrow> (anyhow + unit) \<times> 'n) \<Rightarrow> (email_id \<times> inbound_event) list \<Rightarrow> 'w \<times> 'n \<Rightarrow> bool \<times> 'w \<times> 'n" where
  "inbound_run L submit settle [] world = (False, world)"
| "inbound_run L submit settle ((i, CancelSeen) # events) world = (True, world)"
| "inbound_run L submit settle ((i, Fetched (Inl e)) # events) world = inbound_run L submit settle events world"
| "inbound_run L submit settle ((i, Fetched (Inr None)) # events) world = inbound_run L submit settle events world"
| "inbound_run L submit settle ((i, Fetched (Inr (Some payload))) # events) world =
     inbound_run L submit settle events (handle_message L (submit i) settle payload world)"

section \<open>Resubmission under a key\<close>

context submit_laws
begin

lemma submit_known_key:
  assumes "inv w" "body_ok (si_body input)" "\<not> key_free (si_idempotency_key input) (view w)"
    and "submit_execute P i input w = (r, w')"
  shows "inv w' \<and> view w' = view w"
proof -
  let ?env = "envelope_of_input input []"
  have env: "env_attachments ?env = []" "body_ok (env_body ?env)" "env_idempotency_key ?env = si_idempotency_key input"
    using assms(2) by (simp_all add: envelope_of_input_def)
  obtain y w1 where save: "sp_save P i ?env w = (y, w1)" by (rule prod.exhaust)
  show ?thesis
  proof (cases y)
    case (Inl e)
    with save assms(4) have "w' = w1" by (simp add: submit_execute_def)
    with save_error [OF assms(1) env(1,2) save [unfolded Inl]] show ?thesis by simp
  next
    case (Inr s)
    show ?thesis
    proof (cases s)
      case (Created j)
      from save_created [OF assms(1) env(1,2) save [unfolded Inr Created]] assms(3) env(3) show ?thesis by simp
    next
      case (Duplicate j)
      with save Inr assms(4) have "w' = w1" by (simp add: submit_execute_def)
      with save_duplicate [OF assms(1) env(1,2) save [unfolded Inr Duplicate]] show ?thesis by simp
    qed
  qed
qed

lemma submit_key_once:
  assumes "inv w" "body_ok (si_body input)" "si_idempotency_key input \<noteq> None" "submit_execute P i input w = (r, w')"
  shows "inv w' \<and>
    (v_jobs (view w') = v_jobs (view w) \<or>
     v_jobs (view w') = v_jobs (view w) @ [i] \<and> \<not> key_free (si_idempotency_key input) (view w'))"
proof (cases r)
  case (Inl e)
  with submit_Err [OF assms(1,2)] assms(4) show ?thesis by blast
next
  case (Inr j)
  with submit_Ok [OF assms(1,2), of i j w'] assms(4) consider "inv w'" "view w' = view w"
    | refs new evs where "inv w'" "view w' = (view_after_submit i input refs new (view w))\<lparr>v_events := v_events (view w) @ evs\<rparr>"
    by blast
  then show ?thesis using assms(3) by cases (auto simp: view_after_submit_def key_free_def)
qed

end

section \<open>What deliveries do\<close>

text \<open>The server records every settlement it is asked for; \<open>res\<close> is how it answers.\<close>

definition log_settle :: "(settlement_kind \<Rightarrow> settlement_kind list \<Rightarrow> anyhow + unit) \<Rightarrow> settlement_kind \<Rightarrow> settlement_kind list \<Rightarrow>
    (anyhow + unit) \<times> settlement_kind list" where
  "log_settle res k n = (res k n, n @ [k])"

text \<open>C37: Every message is settled exactly once.  It is acked when it cannot be parsed or is invalid, and then nothing has happened; when
  the email is stored and queued exactly once, or was stored before under its idempotency key; or when a remote attachment
  cannot be fetched, and then nothing was queued.  It is left for redelivery by a nak exactly when the submission failed for a reason
  that can pass, and then nothing was queued either.\<close>

theorem inbound_message_settled:
  assumes "sys_inv w" "handle_message L (submit_execute (sys_ports fetch) i) (log_settle res) payload (w, n) = (w', n')"
  shows "sys_inv w' \<and>
    (let input = Option.bind (hl_request_json L payload) (\<lambda>r. result_ok (request_into_submit_input L r)) in
     case input of
       None \<Rightarrow> w' = w \<and> n' = n @ [AckMessage]
     | Some inp \<Rightarrow>
         (case fst (submit_execute (sys_ports fetch) i inp w) of
            Inr j \<Rightarrow> queued_once (si_idempotency_key inp) i w j w' \<and> n' = n @ [AckMessage]
          | Inl (SubmitAttachmentFetch e) \<Rightarrow> nothing_queued i w w' \<and> n' = n @ [AckMessage]
          | Inl e \<Rightarrow> nothing_queued i w w' \<and> n' = n @ [NakMessage]))"
proof (cases "Option.bind (hl_request_json L payload) (\<lambda>r. result_ok (request_into_submit_input L r))")
  case None
  with assms show ?thesis
    by (auto simp: handle_message_def log_settle_def Option.bind_eq_None_conv split: option.splits sum.splits)
next
  case (Some inp)
  then obtain request where request: "hl_request_json L payload = Some request" "request_into_submit_input L request = Inr inp"
    by (cases "hl_request_json L payload") (auto elim: result_ok.elims)
  have ok: "http_input_ok L inp" using request(2) by (rule request_input_ok)
  obtain r w1 where run: "submit_execute (sys_ports fetch) i inp w = (r, w1)" by (rule prod.exhaust)
  show ?thesis
  proof (cases r)
    case (Inl e)
    from sys_submit_Err [OF assms(1) ok run [unfolded Inl]] show ?thesis
      using assms(2) by (cases e) (auto simp: handle_message_def log_settle_def request Some run Inl)
  next
    case (Inr j)
    from sys_submit_Ok [OF assms(1) ok run [unfolded Inr]] show ?thesis
      using assms(2) by (simp add: handle_message_def log_settle_def request Some run Inr)
  qed
qed

text \<open>A message delivered again and again, with the id each attempt would generate and the network it meets.\<close>

fun redelivered ::
    "http_libs \<Rightarrow> (settlement_kind \<Rightarrow> 'n \<Rightarrow> (anyhow + unit) \<times> 'n) \<Rightarrow> byte list \<Rightarrow>
     (email_id \<times> (url \<Rightarrow> attachment_fetch_error + reader)) list \<Rightarrow> world \<times> 'n \<Rightarrow> world \<times> 'n" where
  "redelivered L settle payload [] world = world"
| "redelivered L settle payload ((i, fetch) # rest) world =
     redelivered L settle payload rest (handle_message L (submit_execute (sys_ports fetch) i) settle payload world)"

lemma handle_known_payload:
  assumes "hl_request_json L payload = Some request" "request_into_submit_input L request = Inr inp"
  shows "fst (handle_message L submit settle payload (w, n)) = snd (submit inp w)"
  using assms by (auto simp: handle_message_def split: sum.splits prod.splits)

lemma redelivered_once:
  assumes "hl_request_json L payload = Some request" "request_into_submit_input L request = Inr inp"
    and "si_idempotency_key inp \<noteq> None" "sys_inv (fst world)"
  shows "let w' = fst (redelivered L settle payload tries world) in
    sys_inv w' \<and> (v_jobs (sys_view w') = v_jobs (sys_view (fst world)) \<or>
      (\<exists>i\<in>fst ` set tries. v_jobs (sys_view w') = v_jobs (sys_view (fst world)) @ [i])) \<and>
    (\<not> key_free (si_idempotency_key inp) (sys_view (fst world)) \<longrightarrow> sys_view w' = sys_view (fst world))"
  using assms(4)
proof (induction tries arbitrary: world)
  case (Cons a tries)
  obtain i fetch where a: "a = (i, fetch)" by (cases a)
  obtain w n where world: "world = (w, n)" by (cases world)
  have inv: "sys_inv w" using Cons.prems world by simp
  have body: "body_ok (si_body inp)" using request_input_ok [OF assms(2)] by (simp add: http_input_ok_def)
  obtain r w1 where run: "submit_execute (sys_ports fetch) i inp w = (r, w1)" by (rule prod.exhaust)
  obtain n1 where step: "handle_message L (submit_execute (sys_ports fetch) i) settle payload (w, n) = (w1, n1)"
    using handle_known_payload [OF assms(1,2), of "submit_execute (sys_ports fetch) i" settle w n] run
    by (cases "handle_message L (submit_execute (sys_ports fetch) i) settle payload (w, n)") simp
  have once: "sys_inv w1 \<and> (v_jobs (sys_view w1) = v_jobs (sys_view w) \<or>
      v_jobs (sys_view w1) = v_jobs (sys_view w) @ [i] \<and> \<not> key_free (si_idempotency_key inp) (sys_view w1))"
    by (rule stack.submit_key_once [OF inv body assms(3) run])
  have known: "sys_view w1 = sys_view w" if "\<not> key_free (si_idempotency_key inp) (sys_view w)"
    using stack.submit_known_key [OF inv body that run] by simp
  from once Cons.IH [of "(w1, n1)"] known show ?case
    by (fastforce simp: a world step Let_def)
qed simp

text \<open>A message that carries an idempotency key queues at most one email, however often it is delivered, whatever fails on the
  way (a lost ack, the database, the file system, a fetch), and once an email is stored under the key, a delivery
  changes nothing at all.\<close>

theorem inbound_redelivery_once:
  assumes "sys_inv w" "hl_request_json L payload = Some request" "request_into_submit_input L request = Inr inp"
    and "ec_idempotency_key request = Some key" "redelivered L settle payload tries (w, n) = (w', n')"
  shows "sys_inv w' \<and>
    (v_jobs (sys_view w') = v_jobs (sys_view w) \<or> (\<exists>i\<in>fst ` set tries. v_jobs (sys_view w') = v_jobs (sys_view w) @ [i])) \<and>
    (\<not> key_free (Some key) (sys_view w) \<longrightarrow> sys_view w' = sys_view w)"
proof -
  have key: "si_idempotency_key inp = Some key"
    using assms(3,4) by (auto simp: request_into_submit_input_def bind_sum_Inr submit_input_of_def split: if_splits)
  then show ?thesis
    using redelivered_once [OF assms(2,3), of "(w, n)" settle tries] assms(1,5) by (simp add: Let_def)
qed

section \<open>Examples\<close>

theorem inbound_message_settled_witness:
  "\<exists>w'. handle_message sample_libs (submit_execute (sys_ports no_fetch) (EmailId 7)) (log_settle (\<lambda>_ _. Ok ())) [1] (empty_world, [])
      = (w', [AckMessage]) \<and> v_jobs (sys_view w') = [EmailId 7]"
proof -
  obtain w where w: "submit_execute (sys_ports no_fetch) (EmailId 7) sample_input_of_request empty_world = (Inr (EmailId 7), w)"
    using sample_first by blast
  have request: "hl_request_json sample_libs [1] = Some sample_request" by (simp add: sample_libs_def)
  have handled: "handle_message sample_libs (submit_execute (sys_ports no_fetch) (EmailId 7)) (log_settle (\<lambda>_ _. Ok ())) [1] (empty_world, [])
      = (w, [AckMessage])"
    by (simp add: handle_message_def request sample_request_input w log_settle_def)
  have "v_jobs (sys_view empty_world) = []" "v_rows (sys_view empty_world) j = None" for j
    by (simp_all add: sys_view_def empty_world_def empty_db_def find_email_def)
  with inbound_message_settled [OF empty_world_inv(1) handled] handled show ?thesis
    by (auto simp: request sample_request_input w queued_once_def)
qed

text \<open>The sample request under a key, delivered twice.\<close>

definition keyed_request :: submit_email_request where
  "keyed_request = sample_request\<lparr>ec_idempotency_key := Some ''k''\<rparr>"

definition keyed_libs :: http_libs where
  "keyed_libs = sample_libs\<lparr>hl_request_json := (\<lambda>bs. Some keyed_request)\<rparr>"

theorem inbound_redelivery_once_witness:
  "\<exists>w' n'. redelivered keyed_libs (log_settle (\<lambda>_ _. Err ''lost'')) [1] [(EmailId 7, no_fetch), (EmailId 8, no_fetch)] (empty_world, [])
      = (w', n') \<and> (v_jobs (sys_view w') = [] \<or> v_jobs (sys_view w') = [EmailId 7] \<or> v_jobs (sys_view w') = [EmailId 8])"
proof -
  have request: "hl_request_json keyed_libs [1] = Some keyed_request" "ec_idempotency_key keyed_request = Some ''k''"
    by (simp_all add: keyed_libs_def keyed_request_def)
  obtain inp where inp: "request_into_submit_input keyed_libs keyed_request = Inr inp"
    by (simp add: request_into_submit_input_def validate_sender_def validate_recipients_def keyed_libs_def sample_libs_def
        keyed_request_def sample_request_def plain_body_def plain_try_new_def)
  obtain w' n' where run: "redelivered keyed_libs (log_settle (\<lambda>_ _. Err ''lost'')) [1] [(EmailId 7, no_fetch), (EmailId 8, no_fetch)] (empty_world, [])
      = (w', n')" by (rule prod.exhaust)
  have "v_jobs (sys_view empty_world) = []" by (simp add: sys_view_def empty_world_def empty_db_def)
  with inbound_redelivery_once [OF empty_world_inv(1) request(1) inp request(2) run] run show ?thesis by auto
qed

end
