(* ===== verification/JetStream.thy ===== *)
theory JetStream
  imports NatsQueue InboundNats
begin

text \<open>
  Setting up NATS JetStream: \<open>NatsAdapter::connect\<close> and \<open>pending\<close> of the queue (\<open>adapter/outbound-nats/src/lib.rs\<close>),
  \<open>build\<close> of the inbound server and how it reads trace headers (\<open>adapter/inbound-nats/src/server.rs\<close>).

  The server is a parameter: a record of the calls the code makes, on a world.  \<open>documented\<close> says what JetStream documents of
  them: \<open>get_or_create\<close> leaves an existing stream or consumer as it is.  Under it, a set-up that succeeds ends with a stream
  that takes the configured subject, and one that fails changed no existing stream or consumer.
\<close>

section \<open>The server\<close>

datatype retention_policy = Limits | Interest | WorkQueue
datatype storage_type = FileStorage | MemoryStorage
datatype ack_policy = AckExplicit | AckNone | AckAll

record stream_config =
  stc_name :: string
  stc_subjects :: "string list"
  stc_retention :: retention_policy
  stc_storage :: storage_type

record consumer_config =
  cc_durable_name :: "string option"
  cc_ack_policy :: ack_policy
  cc_ack_wait_secs :: nat
  cc_max_deliver :: int
  cc_filter_subject :: string
  cc_backoff_secs :: "nat list"

record 'w jetstream =
  js_connect :: "string \<Rightarrow> 'w \<Rightarrow> (anyhow + unit) \<times> 'w"
  js_get_or_create_stream :: "stream_config \<Rightarrow> 'w \<Rightarrow> (anyhow + unit) \<times> 'w"
  js_stream_info :: "string \<Rightarrow> 'w \<Rightarrow> (anyhow + stream_config) \<times> 'w"
  js_get_or_create_consumer :: "string \<Rightarrow> string \<Rightarrow> consumer_config \<Rightarrow> 'w \<Rightarrow> (anyhow + unit) \<times> 'w"
  js_num_pending :: "string \<Rightarrow> string \<Rightarrow> 'w \<Rightarrow> (anyhow + nat) \<times> 'w"

section \<open>Set-up\<close>

definition stream_config_of :: "nats_config \<Rightarrow> stream_config" where
  "stream_config_of cfg =
     \<lparr>stc_name = nc_stream cfg, stc_subjects = [nc_subject cfg], stc_retention = WorkQueue, stc_storage = FileStorage\<rparr>"

definition consumer_config_of :: "nats_config \<Rightarrow> consumer_config" where
  "consumer_config_of cfg =
     \<lparr>cc_durable_name = Some (nc_consumer cfg), cc_ack_policy = AckExplicit, cc_ack_wait_secs = nc_ack_wait_secs cfg,
      cc_max_deliver = nc_max_deliver cfg, cc_filter_subject = nc_subject cfg, cc_backoff_secs = nc_backoff_secs cfg\<rparr>"

definition debug_strs :: "string list \<Rightarrow> string" where
  "debug_strs xs = ''['' @ join '', '' (map debug_str xs) @ '']''"

text \<open>An adapter is the consumer (its stream and name) and the subject.\<close>

record nats_adapter =
  na_stream :: string
  na_consumer :: string
  na_subject :: string

definition ensure_subject :: "nats_config \<Rightarrow> stream_config \<Rightarrow> anyhow + unit" where
  "ensure_subject cfg info =
     (if nc_subject cfg \<in> set (stc_subjects info) then Ok ()
      else Err (''NATS stream '' @ debug_str (nc_stream cfg) @ '' does not include subject '' @ debug_str (nc_subject cfg) @
                ''; found: '' @ debug_strs (stc_subjects info)))"

definition nats_connect :: "'w jetstream \<Rightarrow> nats_config \<Rightarrow> 'w \<Rightarrow> (anyhow + nats_adapter) \<times> 'w" where
  "nats_connect J cfg =
     and_then (map_err_st (\<lambda>_. ''connecting to NATS'') (js_connect J (nc_url cfg))) (\<lambda>_.
     and_then (map_err_st (\<lambda>_. ''creating NATS stream'') (js_get_or_create_stream J (stream_config_of cfg))) (\<lambda>_.
     and_then (map_err_st (\<lambda>_. ''fetching NATS stream info'') (js_stream_info J (nc_stream cfg))) (\<lambda>info.
     and_then (\<lambda>w. (ensure_subject cfg info, w)) (\<lambda>_.
     and_then (map_err_st (\<lambda>_. ''creating NATS consumer'')
       (js_get_or_create_consumer J (nc_stream cfg) (nc_consumer cfg) (consumer_config_of cfg))) (\<lambda>_.
       done_with \<lparr>na_stream = nc_stream cfg, na_consumer = nc_consumer cfg, na_subject = nc_subject cfg\<rparr>)))))"

definition nats_build :: "'w jetstream \<Rightarrow> nats_config \<Rightarrow> 'w \<Rightarrow> (anyhow + nats_adapter) \<times> 'w" where
  "nats_build J cfg = nats_connect J cfg"

definition nats_pending :: "'w jetstream \<Rightarrow> nats_adapter \<Rightarrow> 'w \<Rightarrow> (anyhow + nat) \<times> 'w" where
  "nats_pending J a = map_err_st (\<lambda>_. ''fetching NATS consumer info'') (js_num_pending J (na_stream a) (na_consumer a))"

text \<open>The inbound server keeps its consumer only.\<close>

definition inbound_build :: "'w jetstream \<Rightarrow> nats_config \<Rightarrow> 'w \<Rightarrow> (anyhow + string \<times> string) \<times> 'w" where
  "inbound_build J cfg =
     and_then (map_err_st (\<lambda>_. ''connecting to NATS'') (js_connect J (nc_url cfg))) (\<lambda>_.
     and_then (map_err_st (\<lambda>_. ''creating NATS stream'') (js_get_or_create_stream J (stream_config_of cfg))) (\<lambda>_.
     and_then (map_err_st (\<lambda>_. ''fetching NATS stream info'') (js_stream_info J (nc_stream cfg))) (\<lambda>info.
     and_then (\<lambda>w. (ensure_subject cfg info, w)) (\<lambda>_.
     and_then (map_err_st (\<lambda>_. ''creating NATS consumer'')
       (js_get_or_create_consumer J (nc_stream cfg) (nc_consumer cfg) (consumer_config_of cfg))) (\<lambda>_.
       done_with (nc_stream cfg, nc_consumer cfg))))))"

text \<open>Trace headers of a submission, as the inbound server reads them.\<close>

definition inbound_header_map_to_pairs :: "nats_headers \<Rightarrow> (string \<times> string) list" where
  "inbound_header_map_to_pairs hs =
     (let traceparent = Option.bind (List.find (\<lambda>(name, _). eq_ignore_ascii_case name ''traceparent'') hs)
            (\<lambda>(_, values). case values of [] \<Rightarrow> None | v # _ \<Rightarrow> Some v);
          pairs = (case traceparent of None \<Rightarrow> [] | Some v \<Rightarrow> [(''traceparent'', v)]);
          tracestate_values = (case List.find (\<lambda>(name, _). eq_ignore_ascii_case name ''tracestate'') hs of
            None \<Rightarrow> [] | Some (_, values) \<Rightarrow> values) in
      if tracestate_values \<noteq> [] then pairs @ [(''tracestate'', join '','' tracestate_values)] else pairs)"

section \<open>What the set-up guarantees\<close>

text \<open>The two copies of the header reader agree, and so do the two set-ups.\<close>

lemma inbound_headers_same: "inbound_header_map_to_pairs hs = header_map_to_pairs hs"
  by (auto simp: inbound_header_map_to_pairs_def header_map_to_pairs_def find_header_def Let_def split: option.splits list.splits)

lemma inbound_build_connects:
  "inbound_build J cfg w = (map_ok (\<lambda>a. (na_stream a, na_consumer a)) (fst (nats_connect J cfg w)), snd (nats_connect J cfg w))"
  by (auto simp: inbound_build_def nats_connect_def and_then_def done_with_def split: prod.splits sum.splits)

definition documented ::
    "'w jetstream \<Rightarrow> ('w \<Rightarrow> string \<rightharpoonup> stream_config) \<Rightarrow> ('w \<Rightarrow> string \<times> string \<rightharpoonup> consumer_config) \<Rightarrow> bool" where
  "documented J streams consumers \<longleftrightarrow>
     (\<forall>url w r w'. js_connect J url w = (r, w') \<longrightarrow> streams w' = streams w \<and> consumers w' = consumers w) \<and>
     (\<forall>c w r w'. js_get_or_create_stream J c w = (r, w') \<longrightarrow> consumers w' = consumers w \<and> streams w \<subseteq>\<^sub>m streams w' \<and>
        (is_ok r \<longrightarrow> streams w' (stc_name c) = (if streams w (stc_name c) = None then Some c else streams w (stc_name c)))) \<and>
     (\<forall>n w r w'. js_stream_info J n w = (r, w') \<longrightarrow> streams w' = streams w \<and> consumers w' = consumers w \<and>
        (\<forall>c. r = Inr c \<longrightarrow> streams w n = Some c)) \<and>
     (\<forall>n k c w r w'. js_get_or_create_consumer J n k c w = (r, w') \<longrightarrow> streams w' = streams w \<and> consumers w \<subseteq>\<^sub>m consumers w' \<and>
        (is_ok r \<longrightarrow> consumers w' (n, k) = (if consumers w (n, k) = None then Some c else consumers w (n, k))))"

lemma connect_outcome:
  assumes doc: "documented J streams consumers" and run: "nats_connect J cfg w = (r, w')"
  shows "streams w \<subseteq>\<^sub>m streams w' \<and> consumers w \<subseteq>\<^sub>m consumers w' \<and>
    (case r of
       Inl e \<Rightarrow> True
     | Inr a \<Rightarrow> a = \<lparr>na_stream = nc_stream cfg, na_consumer = nc_consumer cfg, na_subject = nc_subject cfg\<rparr> \<and>
         (\<exists>info c. streams w' (nc_stream cfg) = Some info \<and> nc_subject cfg \<in> set (stc_subjects info) \<and>
            (streams w (nc_stream cfg) = None \<longrightarrow> info = stream_config_of cfg) \<and>
            consumers w' (nc_stream cfg, nc_consumer cfg) = Some c \<and>
            (consumers w (nc_stream cfg, nc_consumer cfg) = None \<longrightarrow> c = consumer_config_of cfg)))"
proof -
  obtain r1 w1 where 1: "js_connect J (nc_url cfg) w = (r1, w1)" by fastforce
  obtain r2 w2 where 2: "js_get_or_create_stream J (stream_config_of cfg) w1 = (r2, w2)" by fastforce
  obtain r3 w3 where 3: "js_stream_info J (nc_stream cfg) w2 = (r3, w3)" by fastforce
  obtain r4 w4 where 4: "js_get_or_create_consumer J (nc_stream cfg) (nc_consumer cfg) (consumer_config_of cfg) w3 = (r4, w4)" by fastforce
  note d = doc [unfolded documented_def]
  note d1 = d [THEN conjunct1, rule_format, OF 1] and d2 = d [THEN conjunct2, THEN conjunct1, rule_format, OF 2]
    and d3 = d [THEN conjunct2, THEN conjunct2, THEN conjunct1, rule_format, OF 3]
    and d4 = d [THEN conjunct2, THEN conjunct2, THEN conjunct2, rule_format, OF 4]
  have s1: "streams w1 = streams w" "consumers w1 = consumers w" using d1 by simp_all
  have s2: "consumers w2 = consumers w1" "streams w1 \<subseteq>\<^sub>m streams w2"
    "is_ok r2 \<Longrightarrow> streams w2 (nc_stream cfg) = (if streams w1 (nc_stream cfg) = None then Some (stream_config_of cfg) else streams w1 (nc_stream cfg))"
    using d2 by (simp_all add: stream_config_of_def)
  have s3: "streams w3 = streams w2" "consumers w3 = consumers w2" "\<And>c. r3 = Inr c \<Longrightarrow> streams w2 (nc_stream cfg) = Some c"
    using d3 by simp_all
  have s4: "streams w4 = streams w3" "consumers w3 \<subseteq>\<^sub>m consumers w4"
    "is_ok r4 \<Longrightarrow> consumers w4 (nc_stream cfg, nc_consumer cfg) =
       (if consumers w3 (nc_stream cfg, nc_consumer cfg) = None then Some (consumer_config_of cfg) else consumers w3 (nc_stream cfg, nc_consumer cfg))"
    using d4 by simp_all
  note run' = run [unfolded nats_connect_def and_then_def map_err_st_def done_with_def]
  show ?thesis
  proof (cases r1)
    case (Inl e)
    with run' 1 s1 show ?thesis by auto
  next
    case a1: (Inr u1)
    show ?thesis
    proof (cases r2)
      case (Inl e)
      with run' 1 2 a1 s1 s2(1,2) show ?thesis by auto
    next
      case a2: (Inr u2)
      show ?thesis
      proof (cases r3)
        case (Inl e)
        with run' 1 2 3 a1 a2 s1 s2(1,2) s3(1,2) show ?thesis by auto
      next
        case a3: (Inr info)
        show ?thesis
        proof (cases "nc_subject cfg \<in> set (stc_subjects info)")
          case False
          with run' 1 2 3 a1 a2 a3 s1 s2(1,2) s3(1,2) show ?thesis by (auto simp: ensure_subject_def)
        next
          case True
          have "r = map_ok (\<lambda>_. \<lparr>na_stream = nc_stream cfg, na_consumer = nc_consumer cfg, na_subject = nc_subject cfg\<rparr>)
              (map_err (\<lambda>_. ''creating NATS consumer'') r4)" "w' = w4"
            using run' 1 2 3 4 a1 a2 a3 True by (auto simp: ensure_subject_def split: sum.splits)
          then show ?thesis
            using a2 a3 True s1 s2 s3 s4 by (cases r4) (auto split: if_splits)
        qed
      qed
    qed
  qed
qed

text \<open>An existing stream that does not take the subject is refused, so that no message is published into the void.\<close>

lemma connect_refuses:
  assumes "documented J streams consumers" "streams w (nc_stream cfg) = Some info" "nc_subject cfg \<notin> set (stc_subjects info)"
  shows "\<not> is_ok (fst (nats_connect J cfg w))"
proof -
  obtain r w' where run: "nats_connect J cfg w = (r, w')" by fastforce
  from connect_outcome [OF assms(1) run] assms(2,3) run show ?thesis
    by (cases r) (auto simp: map_le_def dom_def)
qed

text \<open>A server that does what is documented.\<close>

definition ideal_jetstream :: "((string \<rightharpoonup> stream_config) \<times> (string \<times> string \<rightharpoonup> consumer_config)) jetstream" where
  "ideal_jetstream =
     \<lparr>js_connect = (\<lambda>_ w. (Ok (), w)),
      js_get_or_create_stream = (\<lambda>c (ss, cs). (Ok (), if ss (stc_name c) = None then ss(stc_name c \<mapsto> c) else ss, cs)),
      js_stream_info = (\<lambda>n (ss, cs). (ok_or ''stream not found'' (ss n), ss, cs)),
      js_get_or_create_consumer = (\<lambda>n k c (ss, cs). (Ok (), ss, if cs (n, k) = None then cs((n, k) \<mapsto> c) else cs)),
      js_num_pending = (\<lambda>n k w. (Ok 0, w))\<rparr>"

lemma ideal_documented: "documented ideal_jetstream fst snd"
  by (auto simp: documented_def ideal_jetstream_def map_le_def split: if_splits option.splits)

end
