(* ===== verification/Templates.thy ===== *)
theory Templates
  imports Remote ProcessEmail Smtp
begin

text \<open>
  Template interpolation (\<open>adapter/outbound-interpolator/src/interpolator.rs\<close>), MJML rendering
  (\<open>adapter/outbound-mjml/src/renderer.rs\<close>) and the choice of the loaders for \<open>mj-include\<close> (\<open>include_loader.rs\<close>).

  The engines are parameters: crate \<open>minijinja\<close> compiles a template and renders it with variables, crate \<open>mrml\<close> parses MJML
  (loading includes, so it acts on a world), renders it and reads its preview text; crate \<open>url\<close> gives the origin of a
  URL.  The lemmas follow a body from the envelope to the SMTP message.
\<close>

section \<open>Interpolation\<close>

record 't engine =
  eg_compile :: "string \<Rightarrow> 't option"
  eg_render :: "'t \<Rightarrow> variables \<Rightarrow> string option"

text \<open>Looking up the template that was just added always succeeds.\<close>

definition render_str :: "'t engine \<Rightarrow> string \<Rightarrow> variables \<Rightarrow> interpolate_error + string" where
  "render_str E src vars =
     bind_sum (ok_or (InterpolateEngine ''adding template'') (eg_compile E src)) (\<lambda>t.
       ok_or (InterpolateEngine ''rendering template'') (eg_render E t vars))"

definition interpolate_plain :: "'t engine \<Rightarrow> plain \<Rightarrow> variables \<Rightarrow> interpolate_error + interpolated_body" where
  "interpolate_plain E p vars =
     (let (t, h) = plain_into_parts p in
      bind_sum (map_transpose (\<lambda>t. render_str E t vars) t) (\<lambda>t'.
      bind_sum (map_transpose (\<lambda>h. render_str E h vars) h) (\<lambda>h'.
      bind_sum (map_err (\<lambda>_. InterpolateEngine ''reconstructing plain body'') (plain_try_new t' h')) (\<lambda>p'.
        Ok (InterpolatedPlain p')))))"

fun interpolate :: "'t engine \<Rightarrow> resolved_body \<Rightarrow> variables \<Rightarrow> interpolate_error + interpolated_body" where
  "interpolate E (ResolvedMjml src) vars = map_ok InterpolatedMjml (render_str E src vars)"
| "interpolate E (ResolvedPlain p) vars = interpolate_plain E p vars"

section \<open>Rendering\<close>

record ('e, 'w) mjml_engine =
  mj_parse :: "string \<Rightarrow> 'w \<Rightarrow> (anyhow + 'e) \<times> 'w"
  mj_render :: "'e \<Rightarrow> string option"
  mj_preview :: "'e \<Rightarrow> string option"

definition render_mjml :: "('e, 'w) mjml_engine \<Rightarrow> string \<Rightarrow> 'w \<Rightarrow> (render_error + rendered_body) \<times> 'w" where
  "render_mjml M src =
     and_then (map_err_st (\<lambda>_. RenderMjml ''failed to parse mjml'') (mj_parse M src)) (\<lambda>parsed w.
       (bind_sum (ok_or (RenderMjml ''failed to render mjml'') (mj_render M parsed)) (\<lambda>html.
          map_err (\<lambda>_. RenderMjml ''rendered mjml has no body parts'')
            (map_ok RenderedBody (plain_try_new (mj_preview M parsed) (Some html)))), w))"

fun render_template :: "('e, 'w) mjml_engine \<Rightarrow> interpolated_body \<Rightarrow> 'w \<Rightarrow> (render_error + rendered_body) \<times> 'w" where
  "render_template M (InterpolatedPlain p) w = (Ok (RenderedBody p), w)"
| "render_template M (InterpolatedMjml src) w = render_mjml M src w"

section \<open>Include loaders\<close>

datatype http_origin_config = AllowOrigins "string set" | DenyOrigins "string set"

record include_config =
  il_fs_root :: "string option"
  il_http_origin :: "http_origin_config option"

text \<open>\<open>parse_origin\<close>: \<open>None\<close> for text that is no URL, \<open>Some None\<close> for a URL with an opaque origin, else the serialised
  origin.\<close>

fun collect_origins :: "(string \<Rightarrow> string option option) \<Rightarrow> string \<Rightarrow> string list \<Rightarrow> string set \<Rightarrow> anyhow + string set" where
  "collect_origins parse_origin name [] acc = Ok acc"
| "collect_origins parse_origin name (entry # es) acc =
     (case parse_origin entry of
        None \<Rightarrow> Err (name @ '' entry '' @ entry @ '' must be a full origin'')
      | Some None \<Rightarrow> Err (name @ '' entry '' @ entry @ '' has no tuple origin'')
      | Some (Some origin) \<Rightarrow> collect_origins parse_origin name es (insert origin acc))"

definition parse_origin_set :: "(string \<Rightarrow> string option option) \<Rightarrow> string \<Rightarrow> string option \<Rightarrow> anyhow + string set option" where
  "parse_origin_set parse_origin name raw =
     (case raw of
        None \<Rightarrow> Ok None
      | Some s \<Rightarrow> if s = [] then Ok None else map_ok Some (collect_origins parse_origin name (comma_list s) {}))"

definition include_config_from_lookup ::
    "(string \<Rightarrow> string option) \<Rightarrow> (string \<Rightarrow> string option option) \<Rightarrow> (string \<Rightarrow> env_var) \<Rightarrow> string \<Rightarrow> anyhow + include_config" where
  "include_config_from_lookup canonicalize parse_origin env prefix =
     bind_sum (case env_ok_var env (prefix @ ''_FS_ROOT'') of
                 None \<Rightarrow> Ok None
               | Some raw \<Rightarrow>
                   if raw = [] then Ok None
                   else map_ok Some (ok_or (''canonicalizing '' @ prefix @ ''_FS_ROOT='' @ raw) (canonicalize raw))) (\<lambda>root.
     bind_sum (parse_origin_set parse_origin (prefix @ ''_HTTP_ALLOW'') (env_ok_var env (prefix @ ''_HTTP_ALLOW''))) (\<lambda>allow.
     bind_sum (parse_origin_set parse_origin (prefix @ ''_HTTP_DENY'') (env_ok_var env (prefix @ ''_HTTP_DENY''))) (\<lambda>deny.
     bind_sum (case (allow, deny) of
                 (Some _, Some _) \<Rightarrow> Err (prefix @ ''_HTTP_ALLOW and '' @ prefix @ ''_HTTP_DENY are mutually exclusive'')
               | (Some a, None) \<Rightarrow> Ok (Some (AllowOrigins a))
               | (None, Some d) \<Rightarrow> Ok (Some (DenyOrigins d))
               | (None, None) \<Rightarrow> Ok None) (\<lambda>origin.
       Ok \<lparr>il_fs_root = root, il_http_origin = origin\<rparr>))))"

text \<open>The loaders of crate \<open>mrml\<close> that the configuration puts together: a multi-loader asks the first one whose prefix fits.\<close>

datatype include_loader =
    NoopLoader
  | LocalLoader string
  | HttpLoader http_origin_config
  | MultiLoader "(string \<times> include_loader) list" include_loader

definition include_config_build :: "include_config \<Rightarrow> include_loader" where
  "include_config_build cfg =
     (case (il_fs_root cfg, il_http_origin cfg) of
        (None, None) \<Rightarrow> NoopLoader
      | (Some root, None) \<Rightarrow> LocalLoader root
      | (None, Some origin) \<Rightarrow>
          MultiLoader [(''http://'', HttpLoader origin), (''https://'', HttpLoader origin)] NoopLoader
      | (Some root, Some origin) \<Rightarrow>
          MultiLoader [(''file://'', LocalLoader root), (''http://'', HttpLoader origin), (''https://'', HttpLoader origin)] NoopLoader)"

fun loader_for :: "include_loader \<Rightarrow> string \<Rightarrow> include_loader" where
  "loader_for (MultiLoader ls rest) path =
     (case List.find (\<lambda>(p, _). strip_prefix p path \<noteq> None) ls of None \<Rightarrow> rest | Some (_, l) \<Rightarrow> l)"
| "loader_for l path = l"

section \<open>From the envelope to the message\<close>

lemma interpolate_plain_Ok:
  "interpolate_plain E p vars = Inr b \<Longrightarrow> plain_ok p \<Longrightarrow>
     \<exists>p'. b = InterpolatedPlain p' \<and> plain_ok p' \<and>
       map_transpose (\<lambda>t. render_str E t vars) (plain_text p) = Inr (plain_text p') \<and>
       map_transpose (\<lambda>h. render_str E h vars) (plain_html p) = Inr (plain_html p')"
  by (auto simp: interpolate_plain_def plain_into_parts_def bind_sum_Inr plain_try_new_Ok)

text \<open>The error for a body that lost both parts cannot occur.\<close>

lemma interpolate_plain_error:
  "plain_ok p \<Longrightarrow> interpolate_plain E p vars \<noteq> Inl (InterpolateEngine ''reconstructing plain body'')"
  by (cases "plain_text p"; cases "plain_html p")
    (auto simp: interpolate_plain_def plain_into_parts_def bind_sum_def plain_try_new_def plain_ok_def map_ok_eq_Inr
      render_str_def split: sum.splits option.splits elim!: ok_or.elims)

lemma render_mjml_Ok: "render_mjml M src w = (Inr r, w') \<Longrightarrow> plain_html (into_plain r) \<noteq> None"
  by (auto simp: render_mjml_def and_then_def map_err_st_def bind_sum_Inr map_ok_eq_Inr plain_try_new_Ok split: prod.splits sum.splits)

lemma smtp_no_panic: "plain_ok (into_plain (oe_body m)) \<Longrightarrow> fst (smtp_deliver L send_smtp m w) \<noteq> None"
  using finalize_message_Some [of "oe_body m" L _ "oe_subject m" "oe_attachments m"]
  by (auto simp: smtp_deliver_def split: sum.splits option.splits prod.splits) (metis option.distinct(1))

text \<open>The ports of the delivery use case as the binary wires them: the stages above, a blob store and a sender.\<close>

definition adapter_ports ::
    "resolver_libs \<Rightarrow> (url \<Rightarrow> header_map \<Rightarrow> 'w \<Rightarrow> (anyhow + http_response) \<times> 'w) \<Rightarrow> template_resolver \<Rightarrow> 't engine \<Rightarrow>
     ('e, 'w) mjml_engine \<Rightarrow> (blob_ref \<Rightarrow> 'w \<Rightarrow> (attachment_store_error + reader) \<times> 'w) \<Rightarrow>
     (outbound_email \<Rightarrow> 'w \<Rightarrow> (send_error + sender_name) \<times> 'w) \<Rightarrow> 'w process_ports" where
  "adapter_ports RL client R E M get send =
     \<lparr>pp_resolve = template_resolve RL client R, pp_interpolate = interpolate E, pp_render = render_template M,
      pp_send = send, pp_get = get\<rparr>"

text \<open>What a message made for an envelope looks like: a plain body keeps exactly the parts it has, an MJML body becomes HTML.\<close>

definition made_for :: "envelope \<Rightarrow> outbound_email \<Rightarrow> bool" where
  "made_for env m \<longleftrightarrow> oe_sender m = env_sender env \<and> oe_recipients m = env_recipients env \<and>
     (case env_body env of
        BodyPlain p \<Rightarrow> (rendered_text (oe_body m) = None \<longleftrightarrow> plain_text p = None) \<and>
                       (rendered_html (oe_body m) = None \<longleftrightarrow> plain_html p = None)
      | BodyMjml _ \<Rightarrow> rendered_html (oe_body m) \<noteq> None)"

lemma and_then_cong:
  "(\<And>a w'. m w = (Inr a, w') \<Longrightarrow> k a w' = k' a w') \<Longrightarrow> and_then m k w = and_then m k' w"
  by (auto simp: and_then_def split: prod.splits sum.splits)

lemma map_transpose_None: "map_transpose f x = Inr y \<Longrightarrow> y = None \<longleftrightarrow> x = None"
  by (cases x) (auto simp: map_ok_eq_Inr)

lemma stages_made_for:
  assumes "body_ok (env_body env)" "template_resolve RL client R (env_body env) w = (Inr resolved, w1)"
    and "interpolate E resolved vars = Inr body" "render_template M body w2 = (Inr rendered, w3)"
  shows "made_for env (outbound_of env rendered atts)"
proof (cases "env_body env")
  case (BodyPlain p)
  with assms(2) have resolved: "resolved = ResolvedPlain p" by simp
  obtain p' where p': "body = InterpolatedPlain p'" "map_transpose (\<lambda>t. render_str E t vars) (plain_text p) = Inr (plain_text p')"
      "map_transpose (\<lambda>h. render_str E h vars) (plain_html p) = Inr (plain_html p')"
    using interpolate_plain_Ok [of E p vars body] assms(1,3) BodyPlain resolved by auto
  moreover have "rendered = RenderedBody p'" using assms(4) p'(1) by simp
  ultimately show ?thesis
    using BodyPlain map_transpose_None [OF p'(2)] map_transpose_None [OF p'(3)]
    by (simp add: made_for_def outbound_of_def rendered_text_def rendered_html_def)
next
  case (BodyMjml m)
  with assms(2) obtain src where "resolved = ResolvedMjml src"
    by (cases "resolve_mjml RL client R m w") (auto simp: map_ok_eq_Inr)
  with assms(3) obtain src' where "body = InterpolatedMjml src'" by (auto simp: map_ok_eq_Inr)
  with assms(4) have "plain_html (into_plain rendered) \<noteq> None" by (auto dest: render_mjml_Ok)
  with BodyMjml show ?thesis by (simp add: made_for_def outbound_of_def rendered_html_def)
qed

lemma made_for_ok: "body_ok (env_body env) \<Longrightarrow> made_for env m \<Longrightarrow> plain_ok (into_plain (oe_body m))"
  by (cases "env_body env") (auto simp: made_for_def plain_ok_def rendered_text_def rendered_html_def)

text \<open>C38: Whatever templates, variables and includes an email meets, the sender is only ever handed a message made for that email: a
  plain body keeps exactly the parts it had and an MJML body always has HTML (so what the sender would do with any other message
  does not matter); and such a message never makes the SMTP transport panic.\<close>

theorem templates_feed_sender:
  assumes "body_ok (env_body env)"
  shows "process_execute (adapter_ports RL client R E M get send) env w =
      process_execute (adapter_ports RL client R E M get (\<lambda>m. if made_for env m then send m else other m)) env w \<and>
    (\<forall>m. made_for env m \<longrightarrow> fst (smtp_deliver L send_smtp m v) \<noteq> None)"
proof -
  let ?P = "\<lambda>send. adapter_ports RL client R E M get send"
  have same: "process_execute (?P send) env w = process_execute (?P (\<lambda>m. if made_for env m then send m else other m)) env w"
    unfolding process_execute_def adapter_ports_def process_ports.simps
  proof (intro and_then_cong, goal_cases)
    case (1 resolved w1 body w2 rendered w3 atts w4)
    have "template_resolve RL client R (env_body env) w = (Inr resolved, w1)"
      using 1(1) by (simp only: map_err_st_Inr)
    moreover have "interpolate E resolved (env_variables env) = Inr body"
      using 1(2) by (simp only: prod.inject map_err_eq_Inr)
    moreover have "render_template M body w2 = (Inr rendered, w3)"
      using 1(3) by (simp only: map_err_st_Inr)
    ultimately have "made_for env (outbound_of env rendered atts)" by (rule stages_made_for [OF assms])
    then show ?case by (simp add: map_err_st_def)
  qed
  have "fst (smtp_deliver L send_smtp m v) \<noteq> None" if "made_for env m" for m
    by (rule smtp_no_panic [OF made_for_ok [OF assms that]])
  then show ?thesis by (intro conjI allI impI same)
qed

text \<open>A template that prints itself, and a plain email.\<close>

definition echo_engine :: "string engine" where
  "echo_engine = \<lparr>eg_compile = Some, eg_render = (\<lambda>t vars. Some t)\<rparr>"

definition plain_mail :: envelope where
  "plain_mail =
     \<lparr>env_idempotency_key = None, env_correlation_id = None, env_subject = None, env_sender = ''a@x.org'',
      env_recipients = [(To, ''b@x.org'')], env_body = BodyPlain \<lparr>plain_text = Some ''hi'', plain_html = None\<rparr>,
      env_variables = [], env_attachments = []\<rparr>"

definition sample_ports :: "(outbound_email \<Rightarrow> nat \<Rightarrow> (send_error + sender_name) \<times> nat) \<Rightarrow> nat process_ports" where
  "sample_ports send =
     adapter_ports any_resolver_libs (\<lambda>u hs n. (Err ''no network'', n))
       \<lparr>tr_templates = Map.empty, tr_allowed_domains = [], tr_auth_headers = Map.empty\<rparr> echo_engine
       \<lparr>mj_parse = (\<lambda>s n. (Ok s, n)), mj_render = Some, mj_preview = (\<lambda>s. None)\<rparr> (\<lambda>b n. (Err StoreNotFound, n)) send"

theorem templates_feed_sender_witness:
  "process_execute (sample_ports (\<lambda>m. if made_for plain_mail m then (\<lambda>n. (Ok (SenderName ''s''), Suc n)) else (\<lambda>n. (Err (NoMatchingRoute []), n))))
     plain_mail 0 = (Ok (SenderName ''s''), 1)"
proof -
  have ok: "body_ok (env_body plain_mail)" by (simp add: plain_mail_def plain_ok_def)
  have "process_execute (sample_ports (\<lambda>m n. (Ok (SenderName ''s''), Suc n))) plain_mail 0 = (Ok (SenderName ''s''), 1)"
    by (simp add: sample_ports_def adapter_ports_def process_execute_def and_then_def map_err_st_def plain_mail_def
        interpolate_plain_def plain_into_parts_def render_str_def echo_engine_def plain_try_new_def)
  with templates_feed_sender [OF ok, THEN conjunct1] show ?thesis unfolding sample_ports_def by (rule trans [OF sym])
qed

end
