(* ===== verification/Telemetry.thy ===== *)
theory Telemetry
  imports Ports
begin

text \<open>
  The configuration of telemetry (\<open>telemetry/src/config.rs\<close>) and what its initialisation makes of it
  (\<open>telemetry.rs\<close>), the exporters' headers, the flush at the end, and the propagation of the trace context
  (\<open>propagation.rs\<close>), as far as they do not belong to the OpenTelemetry crates.  The environment is a map from names to
  values, as \<open>std::env::vars\<close> collects it.
\<close>

datatype otlp_protocol = Grpc | HttpProtobuf

record telemetry_config =
  tc_traces_enabled :: bool
  tc_metrics_enabled :: bool
  tc_metric_export_interval_secs :: nat
  tc_protocol :: otlp_protocol
  tc_endpoint :: "string option"
  tc_headers :: "(string \<times> string) list"
  tc_service_name :: string
  tc_service_version :: string
  tc_service_instance_id :: "string option"

text \<open>\<open>str::split_once(c)\<close>: around the first occurrence.\<close>

definition split_once :: "char \<Rightarrow> string \<Rightarrow> (string \<times> string) option" where
  "split_once c s =
     (case dropWhile (\<lambda>x. x \<noteq> c) s of [] \<Rightarrow> None | _ # r \<Rightarrow> Some (takeWhile (\<lambda>x. x \<noteq> c) s, r))"

definition parse_header_pair :: "string \<Rightarrow> anyhow + string \<times> string" where
  "parse_header_pair pair =
     map_ok (\<lambda>(k, v). (trim k, trim v))
       (ok_or (''header pair '' @ debug_str pair @ '' is not in k=v format'') (split_once CHR ''='' pair))"

definition parse_headers :: "string \<Rightarrow> anyhow + (string \<times> string) list" where
  "parse_headers raw = collect_results parse_header_pair (comma_list raw)"

definition exporter_enabled :: "string \<Rightarrow> string option \<Rightarrow> anyhow + bool" where
  "exporter_enabled what exporter =
     (case exporter of
        None \<Rightarrow> Ok False
      | Some e \<Rightarrow>
          if e = ''none'' then Ok False
          else if e = ''otlp'' then Ok True
          else Err (''unsupported '' @ what @ '' exporter '' @ debug_str e @ ''; accepted values: otlp, none''))"

definition or_value :: "'a option \<Rightarrow> 'a option \<Rightarrow> 'a option" where
  "or_value a b = (case a of None \<Rightarrow> b | Some x \<Rightarrow> Some x)"

definition text_or :: "string option \<Rightarrow> string \<Rightarrow> string" where
  "text_or v dflt = (case v of None \<Rightarrow> dflt | Some s \<Rightarrow> s)"

definition parse_protocol :: "string \<Rightarrow> anyhow + otlp_protocol" where
  "parse_protocol raw =
     (if raw = ''grpc'' then Ok Grpc
      else if raw = ''http/protobuf'' then Ok HttpProtobuf
      else Err (''unsupported OTLP protocol '' @ debug_str raw @ ''; accepted values: grpc, http/protobuf''))"

definition metric_interval :: "string \<Rightarrow> string option \<Rightarrow> anyhow + nat" where
  "metric_interval key raw =
     (case raw of
        None \<Rightarrow> Ok 60
      | Some v \<Rightarrow>
          bind_sum (ok_or (''invalid '' @ key @ '': '' @ debug_str v) (parse_uint u64_max v)) (\<lambda>secs.
            if secs = 0 then Err (key @ '' must be greater than 0'') else Ok secs))"

definition nonempty :: "string option \<Rightarrow> string option" where
  "nonempty v = (if v = Some [] then None else v)"

definition telemetry_config_from_map :: "(string \<rightharpoonup> string) \<Rightarrow> string \<Rightarrow> string \<Rightarrow> anyhow + telemetry_config" where
  "telemetry_config_from_map env prefix service_version =
     (let lookup = (\<lambda>primary fallback. or_value (env primary) (env fallback));
          endpoint_key = prefix @ ''_EXPORTER_OTLP_ENDPOINT''; interval_key = prefix @ ''_METRIC_EXPORT_INTERVAL_SECS'';
          endpoint = lookup endpoint_key ''OTEL_EXPORTER_OTLP_ENDPOINT'' in
      bind_sum (exporter_enabled ''traces'' (lookup (prefix @ ''_TRACES_EXPORTER'') ''OTEL_TRACES_EXPORTER'')) (\<lambda>traces.
      bind_sum (parse_protocol (text_or (lookup (prefix @ ''_EXPORTER_OTLP_PROTOCOL'') ''OTEL_EXPORTER_OTLP_PROTOCOL'') ''grpc'')) (\<lambda>protocol.
      bind_sum (exporter_enabled ''metrics'' (lookup (prefix @ ''_METRICS_EXPORTER'') ''OTEL_METRICS_EXPORTER'')) (\<lambda>metrics.
      if (traces \<or> metrics) \<and> endpoint = None then
        Err (''OTLP export requires an endpoint; set '' @ endpoint_key @ '' or OTEL_EXPORTER_OTLP_ENDPOINT'')
      else
      bind_sum (metric_interval interval_key (env interval_key)) (\<lambda>interval.
      bind_sum (map_err (\<lambda>_. ''parsing OTLP headers'')
          (parse_headers (text_or (lookup (prefix @ ''_EXPORTER_OTLP_HEADERS'') ''OTEL_EXPORTER_OTLP_HEADERS'') []))) (\<lambda>headers.
        Ok \<lparr>tc_traces_enabled = traces, tc_metrics_enabled = metrics, tc_metric_export_interval_secs = interval,
            tc_protocol = protocol, tc_endpoint = endpoint, tc_headers = headers,
            tc_service_name = text_or (lookup (prefix @ ''_SERVICE_NAME'') ''OTEL_SERVICE_NAME'') ''catapulte'',
            tc_service_version = service_version,
            tc_service_instance_id =
              nonempty (or_value (lookup (prefix @ ''_SERVICE_INSTANCE_ID'') ''OTEL_SERVICE_INSTANCE_ID'') (env ''HOSTNAME''))\<rparr>))))))"

text \<open>\<open>std::env::vars()\<close> of an environment; \<open>None\<close> is its panic for a variable that is not Unicode.\<close>

fun env_vars :: "(string \<times> env_var) list \<Rightarrow> (string \<rightharpoonup> string) option" where
  "env_vars [] = Some Map.empty"
| "env_vars ((key, Present v) # env) = map_option (\<lambda>m. m(key \<mapsto> v)) (env_vars env)"
| "env_vars ((key, NotPresent) # env) = env_vars env"
| "env_vars ((key, NotUnicode) # env) = None"

definition telemetry_config_from_env :: "(string \<times> env_var) list \<Rightarrow> string \<Rightarrow> string \<Rightarrow> (anyhow + telemetry_config) option" where
  "telemetry_config_from_env env prefix service_version =
     map_option (\<lambda>m. telemetry_config_from_map m prefix service_version) (env_vars env)"

lemma env_vars_Some: "(\<forall>(key, v)\<in>set env. v \<noteq> NotUnicode) \<Longrightarrow> \<exists>m. env_vars env = Some m"
  by (induction env rule: env_vars.induct) auto

text \<open>The initialisation: the exporters may fail to build; \<open>None\<close> is the panic of \<open>expect\<close> on a missing endpoint.\<close>

record telemetry =
  tl_traces :: bool
  tl_metrics :: bool
  tl_interval_secs :: nat

definition telemetry_init ::
    "(otlp_protocol \<Rightarrow> string \<Rightarrow> (string \<times> string) list \<Rightarrow> bool) \<Rightarrow> (otlp_protocol \<Rightarrow> string \<Rightarrow> (string \<times> string) list \<Rightarrow> bool) \<Rightarrow>
     telemetry_config \<Rightarrow> (anyhow + telemetry) option" where
  "telemetry_init span_exporter metric_exporter cfg =
     (let metrics = (if tc_metrics_enabled cfg \<and>
                        \<not> metric_exporter (tc_protocol cfg) (case tc_endpoint cfg of None \<Rightarrow> [] | Some e \<Rightarrow> e) (tc_headers cfg)
                     then Err ''building OTLP metric exporter''
                     else Ok \<lparr>tl_traces = tc_traces_enabled cfg, tl_metrics = tc_metrics_enabled cfg,
                              tl_interval_secs = tc_metric_export_interval_secs cfg\<rparr>) in
      if tc_traces_enabled cfg then
        (case tc_endpoint cfg of
           None \<Rightarrow> None
         | Some e \<Rightarrow> if span_exporter (tc_protocol cfg) e (tc_headers cfg) then Some metrics
                     else Some (Err ''building OTLP span exporter''))
      else Some metrics)"

lemma telemetry_config_facts:
  assumes "telemetry_config_from_map env prefix version = Inr cfg"
  shows "0 < tc_metric_export_interval_secs cfg"
    and "tc_traces_enabled cfg \<or> tc_metrics_enabled cfg \<Longrightarrow> tc_endpoint cfg \<noteq> None"
    and "tc_service_instance_id cfg \<noteq> Some []"
proof -
  have "metric_interval key raw = Inr n \<Longrightarrow> 0 < n" for key raw n
    by (auto simp: metric_interval_def bind_sum_Inr split: option.splits if_splits)
  moreover have "nonempty v \<noteq> Some []" for v by (simp add: nonempty_def)
  ultimately show "0 < tc_metric_export_interval_secs cfg"
    and "tc_traces_enabled cfg \<or> tc_metrics_enabled cfg \<Longrightarrow> tc_endpoint cfg \<noteq> None"
    and "tc_service_instance_id cfg \<noteq> Some []"
    using assms by (auto simp: telemetry_config_from_map_def Let_def bind_sum_Inr split: if_splits)
qed

text \<open>The \<open>expect\<close> in the initialisation is backed by the configuration.\<close>

lemma telemetry_init_no_panic:
  assumes "telemetry_config_from_map env prefix version = Inr cfg"
  shows "telemetry_init span_exporter metric_exporter cfg \<noteq> None"
  using telemetry_config_facts(2) [OF assms] by (auto simp: telemetry_init_def Let_def)

section \<open>Exporters\<close>

text \<open>The OpenTelemetry crates are parameters: parsing a gRPC metadata key (which also normalises it) and value, and whether a
  transport can be built for an endpoint and headers.  Spans and metrics differ in the last and in the error text.\<close>

record exporter_libs =
  xl_metadata_key :: "string \<Rightarrow> string option"
  xl_metadata_value :: "string \<Rightarrow> string option"
  xl_span_tonic :: "string \<Rightarrow> (string \<rightharpoonup> string) option \<Rightarrow> bool"
  xl_span_http :: "string \<Rightarrow> (string \<rightharpoonup> string) option \<Rightarrow> bool"
  xl_metric_tonic :: "string \<Rightarrow> (string \<rightharpoonup> string) option \<Rightarrow> bool"
  xl_metric_http :: "string \<Rightarrow> (string \<rightharpoonup> string) option \<Rightarrow> bool"

fun metadata_map :: "exporter_libs \<Rightarrow> (string \<times> string) list \<Rightarrow> (string \<rightharpoonup> string) \<Rightarrow> anyhow + (string \<rightharpoonup> string)" where
  "metadata_map L [] m = Ok m"
| "metadata_map L ((k, v) # headers) m =
     (case xl_metadata_key L k of
        None \<Rightarrow> Err (''invalid gRPC metadata key '' @ debug_str k)
      | Some key \<Rightarrow>
          (case xl_metadata_value L v of
             None \<Rightarrow> Err (''invalid gRPC metadata value for '' @ debug_str k)
           | Some value \<Rightarrow> metadata_map L headers (m(key \<mapsto> value))))"

definition header_hash_map :: "(string \<times> string) list \<Rightarrow> (string \<rightharpoonup> string)" where
  "header_hash_map headers = foldl (\<lambda>m (k, v). m(k \<mapsto> v)) Map.empty headers"

definition build_span_exporter :: "exporter_libs \<Rightarrow> otlp_protocol \<Rightarrow> string \<Rightarrow> (string \<times> string) list \<Rightarrow> anyhow + unit" where
  "build_span_exporter L protocol endpoint headers =
     (case protocol of
        Grpc \<Rightarrow>
          bind_sum (if headers \<noteq> [] then map_ok Some (metadata_map L headers Map.empty) else Ok None) (\<lambda>metadata.
            if xl_span_tonic L endpoint metadata then Ok () else Err ''building gRPC OTLP span exporter'')
      | HttpProtobuf \<Rightarrow>
          if xl_span_http L endpoint (if headers \<noteq> [] then Some (header_hash_map headers) else None) then Ok ()
          else Err ''building HTTP OTLP span exporter'')"

definition build_metric_exporter :: "exporter_libs \<Rightarrow> otlp_protocol \<Rightarrow> string \<Rightarrow> (string \<times> string) list \<Rightarrow> anyhow + unit" where
  "build_metric_exporter L protocol endpoint headers =
     (case protocol of
        Grpc \<Rightarrow>
          bind_sum (if headers \<noteq> [] then map_ok Some (metadata_map L headers Map.empty) else Ok None) (\<lambda>metadata.
            if xl_metric_tonic L endpoint metadata then Ok () else Err ''building gRPC OTLP metric exporter'')
      | HttpProtobuf \<Rightarrow>
          if xl_metric_http L endpoint (if headers \<noteq> [] then Some (header_hash_map headers) else None) then Ok ()
          else Err ''building HTTP OTLP metric exporter'')"

definition telemetry_start :: "exporter_libs \<Rightarrow> telemetry_config \<Rightarrow> (anyhow + telemetry) option" where
  "telemetry_start L =
     telemetry_init (\<lambda>p e hs. is_ok (build_span_exporter L p e hs)) (\<lambda>p e hs. is_ok (build_metric_exporter L p e hs))"

text \<open>A provider is there exactly when its signal is enabled; what its \<open>shutdown\<close> answers is a parameter.  The result is the
  warnings logged.\<close>

definition telemetry_shutdown :: "(anyhow + unit) \<Rightarrow> (anyhow + unit) \<Rightarrow> telemetry \<Rightarrow> string list" where
  "telemetry_shutdown tracer meter t =
     (if tl_traces t \<and> \<not> is_ok tracer then [''tracer provider shutdown error''] else []) @
     (if tl_metrics t \<and> \<not> is_ok meter then [''meter provider shutdown error''] else [])"

section \<open>Trace context\<close>

text \<open>The propagator and the span are parameters; \<open>entries\<close> is the order in which a hash map is iterated.\<close>

definition inject_current :: "('cx \<Rightarrow> (string \<rightharpoonup> string)) \<Rightarrow> ((string \<rightharpoonup> string) \<Rightarrow> (string \<times> string) list) \<Rightarrow> 'cx \<Rightarrow> (string \<times> string) list" where
  "inject_current inject entries cx = entries (inject cx)"

definition set_span_parent :: "((string \<rightharpoonup> string) \<Rightarrow> 'cx) \<Rightarrow> ('cx \<Rightarrow> 'span \<Rightarrow> 'span) \<Rightarrow> 'span \<Rightarrow> (string \<times> string) list \<Rightarrow> 'span" where
  "set_span_parent extract set_parent span carrier =
     (if carrier = [] then span else set_parent (extract (header_hash_map carrier)) span)"

lemma header_hash_map_of: "header_hash_map headers = map_of (rev headers)"
proof -
  have "foldl (\<lambda>m (k, v). m(k \<mapsto> v)) m headers = m ++ map_of (rev headers)" for m
    by (induction headers arbitrary: m) (auto simp: map_add_def fun_eq_iff split: option.splits)
  then show ?thesis by (simp add: header_hash_map_def)
qed

text \<open>What goes out over an entry with the current context comes back as the parent's.\<close>

lemma trace_roundtrip:
  assumes "map_of (rev (entries (inject cx))) = inject cx" "extract (inject cx) = cx" "entries (inject cx) \<noteq> []"
  shows "set_span_parent extract set_parent span (inject_current inject entries cx) = set_parent cx span"
  using assms by (simp add: set_span_parent_def inject_current_def header_hash_map_of)

lemma metadata_map_ok:
  "is_ok (metadata_map L headers m) \<longleftrightarrow> (\<forall>(k, v)\<in>set headers. xl_metadata_key L k \<noteq> None \<and> xl_metadata_value L v \<noteq> None)"
proof (induction headers arbitrary: m)
  case (Cons h headers)
  obtain k v where "h = (k, v)" by (cases h)
  then show ?case
    by (cases "xl_metadata_key L k"; cases "xl_metadata_value L v") (simp_all add: Cons.IH del: fun_upd_apply)
qed simp

text \<open>Over gRPC a header that is no metadata stops the start-up with traces or metrics enabled; over HTTP it does not.\<close>

lemma telemetry_start_headers:
  assumes "telemetry_start L cfg = Some (Inr t)" "tc_protocol cfg = Grpc" "tc_traces_enabled cfg" "tc_headers cfg \<noteq> []"
  shows "\<forall>(k, v)\<in>set (tc_headers cfg). xl_metadata_key L k \<noteq> None \<and> xl_metadata_value L v \<noteq> None"
proof -
  have "\<exists>e. is_ok (build_span_exporter L Grpc e (tc_headers cfg))"
    using assms(1-3) by (auto simp: telemetry_start_def telemetry_init_def Let_def split: option.splits if_splits)
  then have "is_ok (metadata_map L (tc_headers cfg) Map.empty)"
    using assms(4) by (cases "metadata_map L (tc_headers cfg) Map.empty") (auto simp: build_span_exporter_def bind_sum_def)
  then show ?thesis by (simp only: metadata_map_ok)
qed

end
