(* ===== verification/Wiring.thy ===== *)
theory Wiring
  imports Worker InboundNats Templates Publishers PgStore MemoryQueue RedisStore S3Store Telemetry
begin

text \<open>
  The composition root (\<open>binary/src\<close>): the choice of the storage, queue and attachment backends, the configuration of the whole
  program, what it is built from, the readiness probe, the metrics samples, and the life of the application from start to shutdown.

  Connecting to servers and opening databases is I/O whose outcome is a parameter (record \<open>build_io\<close>).
\<close>

section \<open>Backends\<close>

text \<open>Every method of the adapters is one match on the variant that calls the same method of the backend; \<open>pick_*\<close> is that match.\<close>

datatype storage_adapter = StorageSqlite | StoragePostgres
datatype queue_adapter = QueueSqlite | QueuePostgres | QueueMemory | QueueNats
datatype attachment_adapter = AttachFs | AttachS3 | AttachRedis

fun pick_storage :: "storage_adapter \<Rightarrow> 'f \<Rightarrow> 'f \<Rightarrow> 'f" where
  "pick_storage StorageSqlite sqlite pg = sqlite"
| "pick_storage StoragePostgres sqlite pg = pg"

fun pick_queue :: "queue_adapter \<Rightarrow> 'f \<Rightarrow> 'f \<Rightarrow> 'f \<Rightarrow> 'f \<Rightarrow> 'f" where
  "pick_queue QueueSqlite sqlite pg memory nats = sqlite"
| "pick_queue QueuePostgres sqlite pg memory nats = pg"
| "pick_queue QueueMemory sqlite pg memory nats = memory"
| "pick_queue QueueNats sqlite pg memory nats = nats"

fun pick_attachments :: "attachment_adapter \<Rightarrow> 'f \<Rightarrow> 'f \<Rightarrow> 'f \<Rightarrow> 'f" where
  "pick_attachments AttachFs fs s3 redis = fs"
| "pick_attachments AttachS3 fs s3 redis = s3"
| "pick_attachments AttachRedis fs s3 redis = redis"

definition storage_backend_name :: "storage_adapter \<Rightarrow> string" where
  "storage_backend_name a = pick_storage a ''sqlite'' ''postgres''"

definition queue_backend_name :: "queue_adapter \<Rightarrow> string" where
  "queue_backend_name q = pick_queue q ''sqlite'' ''postgres'' ''memory'' ''nats''"

definition attachment_backend_name :: "attachment_adapter \<Rightarrow> string" where
  "attachment_backend_name a = pick_attachments a ''fs'' ''s3'' ''redis''"

text \<open>The storage operations; both backends act on the same tables.\<close>

definition storage_save :: "storage_adapter \<Rightarrow> int \<Rightarrow> email_id \<Rightarrow> envelope \<Rightarrow> sql_db \<Rightarrow> (email_repository_error + save_result) \<times> sql_db" where
  "storage_save a = pick_storage a sqlite_save pg_save"

definition storage_list_emails :: "storage_adapter \<Rightarrow> list_emails_params \<Rightarrow> sql_db \<Rightarrow> (email_repository_error + email_record list) \<times> sql_db" where
  "storage_list_emails a = pick_storage a sqlite_list_emails pg_list_emails"

definition storage_set_attachments :: "storage_adapter \<Rightarrow> email_id \<Rightarrow> attachment_ref list \<Rightarrow> sql_db \<Rightarrow> (email_repository_error + unit) \<times> sql_db" where
  "storage_set_attachments a = pick_storage a sqlite_set_attachments pg_set_attachments"

definition storage_delete :: "storage_adapter \<Rightarrow> email_id \<Rightarrow> sql_db \<Rightarrow> (email_repository_error + unit) \<times> sql_db" where
  "storage_delete a = pick_storage a sqlite_delete pg_delete"

definition storage_list_blobs :: "storage_adapter \<Rightarrow> sql_db \<Rightarrow> (email_repository_error + blob_ref list) \<times> sql_db" where
  "storage_list_blobs a = pick_storage a sqlite_list_all_attachment_blobs pg_list_all_attachment_blobs"

definition storage_publish :: "storage_adapter \<Rightarrow> int \<Rightarrow> uuid \<Rightarrow> lifecycle_event \<Rightarrow> sql_db \<Rightarrow> (event_publisher_error + unit) \<times> sql_db" where
  "storage_publish a = pick_storage a sqlite_publish pg_publish"

definition storage_list_events :: "storage_adapter \<Rightarrow> list_events_params \<Rightarrow> sql_db \<Rightarrow> (event_repository_error + event_record list) \<times> sql_db" where
  "storage_list_events a = pick_storage a sqlite_list_events pg_list_events"

definition storage_check :: "storage_adapter \<Rightarrow> sql_db \<Rightarrow> (health_check_error + unit) \<times> sql_db" where
  "storage_check a = pick_storage a sqlite_check pg_check"

definition storage_get_stats :: "storage_adapter \<Rightarrow> sender_name list \<Rightarrow> int \<Rightarrow> sql_db \<Rightarrow> (sender_usage_error + sender_stats list) \<times> sql_db" where
  "storage_get_stats a = pick_storage a sqlite_get_stats pg_get_stats"

text \<open>\<open>QueueAdapter::pending\<close>: an error is logged and becomes \<open>None\<close>.\<close>

definition queue_pending ::
    "queue_adapter \<Rightarrow> ('w \<Rightarrow> (anyhow + nat) \<times> 'w) \<Rightarrow> ('w \<Rightarrow> (anyhow + nat) \<times> 'w) \<Rightarrow> nat \<Rightarrow> ('w \<Rightarrow> (anyhow + nat) \<times> 'w) \<Rightarrow> 'w \<Rightarrow>
     nat option \<times> 'w" where
  "queue_pending q sqlite pg memory nats w =
     pick_queue q (apfst result_ok (sqlite w)) (apfst result_ok (pg w)) (Some memory, w) (apfst result_ok (nats w))"

definition queue_check :: "queue_adapter \<Rightarrow> nats_connection \<Rightarrow> health_check_error + unit" where
  "queue_check q conn = pick_queue q (Ok ()) (Ok ()) (Ok ()) (nats_check conn)"

definition readiness_probe :: "storage_adapter \<Rightarrow> queue_adapter \<Rightarrow> nats_connection \<Rightarrow> sql_db \<Rightarrow> (health_check_error + unit) \<times> sql_db" where
  "readiness_probe a q conn = and_then (storage_check a) (\<lambda>_ db. (bind_sum (queue_check q conn) (\<lambda>_. Ok ()), db))"

text \<open>The operations of a queue; every one of the adapter is that of its backend.\<close>

record 'w queue_ops =
  qo_enqueue :: "email_id \<Rightarrow> envelope \<Rightarrow> 'w \<Rightarrow> (email_queue_error + unit) \<times> 'w"
  qo_dequeue :: "'w \<Rightarrow> (email_queue_error + dequeued_email) option \<times> 'w"
  qo_ack :: "ack_token \<Rightarrow> 'w \<Rightarrow> (email_queue_error + unit) \<times> 'w"
  qo_nack :: "ack_token \<Rightarrow> nat \<Rightarrow> 'w \<Rightarrow> (email_queue_error + unit) \<times> 'w"

definition queue_adapter_ops ::
    "queue_adapter \<Rightarrow> 'w queue_ops \<Rightarrow> 'w queue_ops \<Rightarrow> 'w queue_ops \<Rightarrow> 'w queue_ops \<Rightarrow> 'w queue_ops" where
  "queue_adapter_ops q sqlite pg memory nats =
     \<lparr>qo_enqueue = pick_queue q (qo_enqueue sqlite) (qo_enqueue pg) (qo_enqueue memory) (qo_enqueue nats),
      qo_dequeue = pick_queue q (qo_dequeue sqlite) (qo_dequeue pg) (qo_dequeue memory) (qo_dequeue nats),
      qo_ack = pick_queue q (qo_ack sqlite) (qo_ack pg) (qo_ack memory) (qo_ack nats),
      qo_nack = pick_queue q (qo_nack sqlite) (qo_nack pg) (qo_nack memory) (qo_nack nats)\<rparr>"

text \<open>An attachment method gets the blob reference as it is; its backend field is not looked at.\<close>

record 'w attachment_ops =
  ao_put :: "reader \<Rightarrow> 'w \<Rightarrow> (attachment_store_error + put_result) \<times> 'w"
  ao_get :: "blob_ref \<Rightarrow> 'w \<Rightarrow> (attachment_store_error + reader) \<times> 'w"
  ao_delete :: "blob_ref \<Rightarrow> 'w \<Rightarrow> (attachment_store_error + unit) \<times> 'w"
  ao_list_keys_older_than :: "nat \<Rightarrow> 'w \<Rightarrow> (anyhow + string list) \<times> 'w"

definition attachment_adapter_ops ::
    "attachment_adapter \<Rightarrow> 'w attachment_ops \<Rightarrow> 'w attachment_ops \<Rightarrow> 'w attachment_ops \<Rightarrow> 'w attachment_ops" where
  "attachment_adapter_ops a fs s3 redis =
     \<lparr>ao_put = pick_attachments a (ao_put fs) (ao_put s3) (ao_put redis),
      ao_get = pick_attachments a (ao_get fs) (ao_get s3) (ao_get redis),
      ao_delete = pick_attachments a (ao_delete fs) (ao_delete s3) (ao_delete redis),
      ao_list_keys_older_than =
        pick_attachments a (ao_list_keys_older_than fs) (ao_list_keys_older_than s3) (ao_list_keys_older_than redis)\<rparr>"

text \<open>What the state of the application gives to the submission, the worker and the delivery.\<close>

record 'w storage_ops =
  so_save :: "email_id \<Rightarrow> envelope \<Rightarrow> 'w \<Rightarrow> (email_repository_error + save_result) \<times> 'w"
  so_set_attachments :: "email_id \<Rightarrow> attachment_ref list \<Rightarrow> 'w \<Rightarrow> (email_repository_error + unit) \<times> 'w"
  so_delete :: "email_id \<Rightarrow> 'w \<Rightarrow> (email_repository_error + unit) \<times> 'w"

definition app_submit_ports ::
    "'w storage_ops \<Rightarrow> 'w queue_ops \<Rightarrow> (lifecycle_event \<Rightarrow> 'w \<Rightarrow> (event_publisher_error + unit) \<times> 'w) \<Rightarrow> 'w attachment_ops \<Rightarrow>
     (url \<Rightarrow> 'w \<Rightarrow> (attachment_fetch_error + reader) \<times> 'w) \<Rightarrow> 'w submit_ports" where
  "app_submit_ports storage queue publish store fetch =
     \<lparr>sp_save = so_save storage, sp_set_attachments = so_set_attachments storage, sp_delete_email = so_delete storage,
      sp_enqueue = qo_enqueue queue, sp_publish = publish, sp_put = ao_put store, sp_delete_blob = ao_delete store,
      sp_fetch = fetch\<rparr>"

definition app_worker_ports ::
    "(envelope \<Rightarrow> 'w \<Rightarrow> (process_error + sender_name) \<times> 'w) \<Rightarrow> 'w queue_ops \<Rightarrow>
     (lifecycle_event \<Rightarrow> 'w \<Rightarrow> (event_publisher_error + unit) \<times> 'w) \<Rightarrow> 'w attachment_ops \<Rightarrow> 'w storage_ops \<Rightarrow> 'w worker_ports" where
  "app_worker_ports process queue publish store storage =
     \<lparr>wk_publish = publish, wk_process = process, wk_ack = qo_ack queue, wk_nack = qo_nack queue,
      wk_set_attachments = so_set_attachments storage, wk_delete_blob = ao_delete store\<rparr>"

section \<open>Configuration\<close>

datatype storage_config = SqliteConfig string | PostgresConfig pg_config
datatype queue_config = QueueStorageConfig | QueueMemoryConfig | QueueNatsConfig nats_config
datatype attachment_config = FsConfig string | S3Config s3_config | RedisConfig "string \<times> string"

definition sqlite_config_from_env :: "(string \<Rightarrow> env_var) \<Rightarrow> string \<Rightarrow> anyhow + string" where
  "sqlite_config_from_env env prefix = require_env env (prefix @ ''_URL'')"

definition storage_config_from_env :: "(string \<Rightarrow> env_var) \<Rightarrow> anyhow + storage_config" where
  "storage_config_from_env env =
     (let backend = env_text env ''CATAPULTE_STORAGE_BACKEND'' ''sqlite'' in
      if backend = ''postgres'' \<or> backend = ''pg'' then
        map_err (\<lambda>_. ''loading postgres config'') (map_ok PostgresConfig (pg_config_from_env env ''CATAPULTE_POSTGRES''))
      else if backend = ''sqlite'' then
        map_err (\<lambda>_. ''loading sqlite config'') (map_ok SqliteConfig (sqlite_config_from_env env ''CATAPULTE_SQLITE''))
      else Err (''unknown storage backend '' @ debug_str backend @ '' in env var CATAPULTE_STORAGE_BACKEND''))"

definition queue_config_from_env :: "(string \<Rightarrow> env_var) \<Rightarrow> string \<Rightarrow> anyhow + queue_config" where
  "queue_config_from_env env prefix =
     (let key = prefix @ ''_BACKEND'' in
      case env_ok_var env key of
        None \<Rightarrow> Ok QueueStorageConfig
      | Some v \<Rightarrow>
          if v = ''memory'' then Ok QueueMemoryConfig
          else if v = ''nats'' then map_ok QueueNatsConfig (nats_config_from_env env prefix)
          else if v = ''storage'' then Ok QueueStorageConfig
          else Err (''unknown queue backend '' @ debug_str v @ '' in env var '' @ key))"

definition attachment_config_from_env :: "(string \<Rightarrow> env_var) \<Rightarrow> anyhow + attachment_config" where
  "attachment_config_from_env env =
     (let backend = env_text env ''CATAPULTE_ATTACHMENT_BACKEND'' ''fs'' in
      if backend = ''fs'' then map_ok FsConfig (fs_config_from_env env ''CATAPULTE_ATTACHMENT_FS'')
      else if backend = ''s3'' then map_ok S3Config (s3_config_from_env env ''CATAPULTE_ATTACHMENT_S3'')
      else if backend = ''redis'' then map_ok RedisConfig (redis_config_from_env env ''CATAPULTE_ATTACHMENT_REDIS'')
      else Err (''unknown attachment backend '' @ debug_str backend @ '' in env var CATAPULTE_ATTACHMENT_BACKEND''))"

text \<open>What parsing a configuration takes from libraries and the file system.\<close>

record config_libs =
  cl_socket_addr :: "string \<Rightarrow> bool"
  cl_url :: "string \<Rightarrow> url option"
  cl_origin :: "string \<Rightarrow> string option option"
  cl_canonicalize :: "string \<Rightarrow> string option"

record app_config =
  ac_storage :: storage_config
  ac_http :: inbound_http_config
  ac_inbound_nats :: "nats_config option"
  ac_smtp :: "single_sender list"
  ac_resolver :: resolver_config
  ac_worker :: worker_config
  ac_queue :: queue_config
  ac_publisher :: publisher_config
  ac_attachment_store :: attachment_config
  ac_attachment_fetcher :: fetcher_config
  ac_include_loader :: include_config
  ac_gc_sweep_secs :: nat
  ac_gc_grace_secs :: nat

text \<open>A value that does not parse counts as not set.\<close>

definition gc_secs :: "(string \<Rightarrow> env_var) \<Rightarrow> string \<Rightarrow> nat" where
  "gc_secs env key = (case Option.bind (env_ok_var env key) (parse_uint u64_max) of None \<Rightarrow> 3600 | Some n \<Rightarrow> n)"

definition loading :: "string \<Rightarrow> anyhow + 'a \<Rightarrow> anyhow + 'a" where
  "loading what = map_err (\<lambda>_. ''loading '' @ what)"

definition app_config_from_env :: "config_libs \<Rightarrow> (string \<Rightarrow> env_var) \<Rightarrow> anyhow + app_config" where
  "app_config_from_env L env =
     bind_sum (loading ''storage config'' (storage_config_from_env env)) (\<lambda>storage.
     bind_sum (loading ''http config'' (inbound_http_from_env (cl_socket_addr L) env ''CATAPULTE_HTTP'')) (\<lambda>http.
     bind_sum (loading ''inbound NATS config'' (inbound_nats_from_lookup env ''CATAPULTE_INBOUND_NATS'')) (\<lambda>inbound_nats.
     bind_sum (loading ''smtp config'' (multi_sender_from_lookup env)) (\<lambda>smtp.
     bind_sum (loading ''resolver config'' (resolver_config_from_lookup env ''CATAPULTE_RESOLVER'')) (\<lambda>resolver.
     bind_sum (loading ''worker config'' (worker_config_from_env env ''CATAPULTE_WORKER'')) (\<lambda>worker.
     bind_sum (loading ''queue backend config'' (queue_config_from_env env ''CATAPULTE_QUEUE'')) (\<lambda>queue.
     bind_sum (loading ''publisher config'' (publisher_config_from_env (cl_url L) env)) (\<lambda>publisher.
     bind_sum (loading ''attachment store config'' (attachment_config_from_env env)) (\<lambda>attachment_store.
     bind_sum (loading ''attachment fetcher config'' (fetcher_config_from_env env ''CATAPULTE_ATTACHMENT_FETCHER'')) (\<lambda>attachment_fetcher.
     bind_sum (loading ''include loader config''
         (include_config_from_lookup (cl_canonicalize L) (cl_origin L) env ''CATAPULTE_INCLUDE_LOADER'')) (\<lambda>include_loader.
       Ok \<lparr>ac_storage = storage, ac_http = http, ac_inbound_nats = inbound_nats, ac_smtp = smtp, ac_resolver = resolver,
           ac_worker = worker, ac_queue = queue, ac_publisher = publisher, ac_attachment_store = attachment_store,
           ac_attachment_fetcher = attachment_fetcher, ac_include_loader = include_loader,
           ac_gc_sweep_secs = gc_secs env ''CATAPULTE_GC_SWEEP_INTERVAL_SECS'',
           ac_gc_grace_secs = gc_secs env ''CATAPULTE_GC_GRACE_PERIOD_SECS''\<rparr>)))))))))))"

section \<open>Building\<close>

record build_io =
  bi_connect_storage :: "storage_config \<Rightarrow> anyhow + unit"
  bi_migrate :: "storage_config \<Rightarrow> anyhow + unit"
  bi_nats :: "nats_config \<Rightarrow> anyhow + unit"
  bi_nats_events :: "string \<Rightarrow> bool"
  bi_http_client :: bool
  bi_relay :: "smtp_tls \<Rightarrow> string \<Rightarrow> bool"
  bi_read_dir :: "string \<Rightarrow> anyhow + (anyhow + template_file) list"
  bi_attachments :: "attachment_config \<Rightarrow> anyhow + unit"

fun storage_config_build :: "build_io \<Rightarrow> storage_config \<Rightarrow> anyhow + storage_adapter" where
  "storage_config_build B (SqliteConfig u) =
     bind_sum (map_err (\<lambda>_. ''building sqlite adapter'') (bi_connect_storage B (SqliteConfig u))) (\<lambda>_.
     bind_sum (map_err (\<lambda>_. ''running sqlite migrations'') (bi_migrate B (SqliteConfig u))) (\<lambda>_. Ok StorageSqlite))"
| "storage_config_build B (PostgresConfig c) =
     bind_sum (map_err (\<lambda>_. ''building postgres adapter'') (bi_connect_storage B (PostgresConfig c))) (\<lambda>_.
     bind_sum (map_err (\<lambda>_. ''running postgres migrations'') (bi_migrate B (PostgresConfig c))) (\<lambda>_. Ok StoragePostgres))"

fun queue_config_build :: "build_io \<Rightarrow> storage_adapter \<Rightarrow> queue_config \<Rightarrow> anyhow + queue_adapter" where
  "queue_config_build B a QueueStorageConfig = Ok (pick_storage a QueueSqlite QueuePostgres)"
| "queue_config_build B a QueueMemoryConfig = Ok QueueMemory"
| "queue_config_build B a (QueueNatsConfig c) = map_ok (\<lambda>_. QueueNats) (bi_nats B c)"

definition attachment_config_build :: "build_io \<Rightarrow> attachment_config \<Rightarrow> anyhow + attachment_adapter" where
  "attachment_config_build B cfg =
     map_ok (\<lambda>_. case cfg of FsConfig _ \<Rightarrow> AttachFs | S3Config _ \<Rightarrow> AttachS3 | RedisConfig _ \<Rightarrow> AttachRedis) (bi_attachments B cfg)"

record application =
  ap_storage :: storage_adapter
  ap_queue :: queue_adapter
  ap_publisher :: publisher_adapter
  ap_sender_configs :: "sender_config list"
  ap_routes :: "smtp_transport sender_route list"
  ap_resolver :: template_resolver
  ap_attachments :: attachment_adapter
  ap_fetcher :: http_fetcher
  ap_includes :: include_loader
  ap_inbound_nats :: bool
  ap_gc_sweep_secs :: nat
  ap_gc_grace_secs :: nat

definition building :: "string \<Rightarrow> anyhow + 'a \<Rightarrow> anyhow + 'a" where
  "building what = map_err (\<lambda>_. ''building '' @ what)"

definition fetcher_config_build :: "build_io \<Rightarrow> fetcher_config \<Rightarrow> anyhow + http_fetcher" where
  "fetcher_config_build B cfg =
     (if bi_http_client B then Ok (fetcher_new (fc_allowed_domains cfg) (fc_allow_http cfg) (fc_max_bytes cfg))
      else Err ''building reqwest client for attachment fetcher'')"

text \<open>\<open>attachment_fetcher::from_env\<close>.\<close>

definition fetcher_from_env :: "build_io \<Rightarrow> (string \<Rightarrow> env_var) \<Rightarrow> anyhow + http_fetcher" where
  "fetcher_from_env B env =
     bind_sum (loading ''attachment fetcher config'' (fetcher_config_from_env env ''CATAPULTE_ATTACHMENT_FETCHER'')) (\<lambda>cfg.
       building ''attachment fetcher'' (fetcher_config_build B cfg))"

definition app_build :: "build_io \<Rightarrow> resolver_libs \<Rightarrow> app_config \<Rightarrow> anyhow + application" where
  "app_build B RL cfg =
     bind_sum (building ''storage adapter'' (storage_config_build B (ac_storage cfg))) (\<lambda>storage.
     bind_sum (building ''queue adapter'' (queue_config_build B storage (ac_queue cfg))) (\<lambda>queue.
     bind_sum (building ''publisher adapter'' (publisher_config_build (bi_http_client B) (bi_nats_events B) (ac_publisher cfg))) (\<lambda>publisher.
     bind_sum (building ''smtp transports'' (multi_sender_build (bi_relay B) (ac_smtp cfg))) (\<lambda>entries.
     bind_sum (map_err (\<lambda>_. ''building routed email sender'') (routed_new (routes_of entries))) (\<lambda>routes.
     bind_sum (building ''template resolver'' (resolver_config_build RL (bi_read_dir B) (ac_resolver cfg))) (\<lambda>resolver.
     bind_sum (building ''attachment store adapter'' (attachment_config_build B (ac_attachment_store cfg))) (\<lambda>attachments.
     bind_sum (building ''attachment fetcher adapter'' (fetcher_config_build B (ac_attachment_fetcher cfg))) (\<lambda>fetcher.
     bind_sum (case ac_inbound_nats cfg of
                 None \<Rightarrow> Ok False
               | Some c \<Rightarrow> building ''inbound NATS server'' (map_ok (\<lambda>_. True) (bi_nats B c))) (\<lambda>inbound.
       Ok \<lparr>ap_storage = storage, ap_queue = queue, ap_publisher = publisher, ap_sender_configs = sender_configs_of entries,
           ap_routes = routes, ap_resolver = resolver, ap_attachments = attachments, ap_fetcher = fetcher,
           ap_includes = include_config_build (ac_include_loader cfg), ap_inbound_nats = inbound,
           ap_gc_sweep_secs = ac_gc_sweep_secs cfg, ap_gc_grace_secs = ac_gc_grace_secs cfg\<rparr>)))))))))"

section \<open>What a built application satisfies\<close>

lemma built_senders:
  assumes "multi_sender_build relay senders = Inr entries" "sorted (map sg_priority senders)"
    and "routed_new (routes_of entries) = Inr routes"
  shows "routes = map normalize_route (routes_of entries) \<and> sorted (map rt_priority routes) \<and> routes \<noteq> []"
proof -
  have "list_all2 (\<lambda>s e. se_priority e = sg_priority s) senders entries"
    using assms(1) by (auto simp: multi_sender_build_def collect_results_Inr map_ok_eq_Inr elim!: list_all2_mono)
  then have "map se_priority entries = map sg_priority senders" by (induction rule: list_all2_induct) auto
  then have sorted: "sorted (map rt_priority (map normalize_route (routes_of entries)))"
    using assms(2) by (simp add: routes_of_def normalize_route_def comp_def)
  have "routes_of entries \<noteq> []" "routes = sort_key rt_priority (map normalize_route (routes_of entries))"
    using assms(3) by (auto simp: routed_new_def split: if_splits)
  with sorted show ?thesis by (simp add: sort_key_id_if_sorted del: map_map)
qed

text \<open>C39: An application that starts is consistent: it has a sender; its routes are in the order of priority; the senders it lists are
  exactly its routes, in that order, with the same quotas and domains up to normalisation; the worker has at least one slot;
  and a queue kept in the storage is kept in the storage the program uses.\<close>

theorem built_application_consistent:
  assumes "app_config_from_env L env = Inr cfg" "app_build B RL cfg = Inr app"
  shows "ap_routes app \<noteq> [] \<and> sorted (map rt_priority (ap_routes app)) \<and>
    map (\<lambda>r. (rt_name r, rt_quota r, rt_match_sender_domain r)) (ap_routes app) =
      map (\<lambda>c. (sc_name c, sc_quota c, map_option normalize_domain (sc_match_sender_domain c))) (ap_sender_configs app) \<and>
    1 \<le> wc_concurrency (ac_worker cfg) \<and>
    (ap_queue app = QueueSqlite \<longrightarrow> ap_storage app = StorageSqlite) \<and> (ap_queue app = QueuePostgres \<longrightarrow> ap_storage app = StoragePostgres)"
proof -
  have cfg: "sorted (map sg_priority (ac_smtp cfg))" "1 \<le> wc_concurrency (ac_worker cfg)"
    using assms(1)
    by (auto simp: app_config_from_env_def bind_sum_Inr loading_def multi_sender_from_lookup_def map_ok_eq_Inr
        dest: worker_config_positive)
  obtain entries where entries: "multi_sender_build (bi_relay B) (ac_smtp cfg) = Inr entries"
      "routed_new (routes_of entries) = Inr (ap_routes app)" "ap_sender_configs app = sender_configs_of entries"
      "queue_config_build B (ap_storage app) (ac_queue cfg) = Inr (ap_queue app)"
    using assms(2) by (auto simp: app_build_def bind_sum_Inr building_def split: sum.splits)
  have routes: "ap_routes app = map normalize_route (routes_of entries) \<and> sorted (map rt_priority (ap_routes app)) \<and> ap_routes app \<noteq> []"
    by (rule built_senders [OF entries(1) cfg(1) entries(2)])
  then have "map (\<lambda>r. (rt_name r, rt_quota r, rt_match_sender_domain r)) (ap_routes app) =
      map (\<lambda>c. (sc_name c, sc_quota c, map_option normalize_domain (sc_match_sender_domain c))) (ap_sender_configs app)"
    by (simp only: entries(3)) (simp add: routes_of_def sender_configs_of_def normalize_route_def comp_def)
  moreover have "(ap_queue app = QueueSqlite \<longrightarrow> ap_storage app = StorageSqlite) \<and> (ap_queue app = QueuePostgres \<longrightarrow> ap_storage app = StoragePostgres)"
    using entries(4) by (cases "ac_queue cfg"; cases "ap_storage app") (auto simp: map_ok_eq_Inr)
  ultimately show ?thesis using routes cfg(2) by (elim conjE, intro conjI)
qed

text \<open>A small environment: SQLite, files, one sender.\<close>

definition small_env :: "string \<Rightarrow> env_var" where
  "small_env key =
     (if key = ''CATAPULTE_SQLITE_URL'' then Present ''sqlite:x''
      else if key = ''CATAPULTE_HTTP_ADDRESS'' then Present ''[::]:3000''
      else if key = ''CATAPULTE_SENDERS'' then Present ''main''
      else if key = ''CATAPULTE_SENDER_MAIN_HOST'' then Present ''smtp.x.org''
      else if key = ''CATAPULTE_ATTACHMENT_FS_ROOT'' then Present ''/data''
      else NotPresent)"

definition small_config_libs :: config_libs where
  "small_config_libs =
     \<lparr>cl_socket_addr = (\<lambda>s. True), cl_url = (\<lambda>s. None), cl_origin = (\<lambda>s. None), cl_canonicalize = Some\<rparr>"

definition willing_io :: build_io where
  "willing_io =
     \<lparr>bi_connect_storage = (\<lambda>c. Ok ()), bi_migrate = (\<lambda>c. Ok ()), bi_nats = (\<lambda>c. Ok ()), bi_nats_events = (\<lambda>u. True),
      bi_http_client = True, bi_relay = (\<lambda>t h. True), bi_read_dir = (\<lambda>d. Ok []), bi_attachments = (\<lambda>c. Ok ())\<rparr>"

definition small_resolver_config :: resolver_config where
  "small_resolver_config = \<lparr>rc_allowed_domains = [], rc_templates_dir = None, rc_auth_entries = []\<rparr>"

definition small_publisher_config :: publisher_config where
  "small_publisher_config =
     \<lparr>pc_webhook = \<lparr>wc_url = None, wc_timeout_ms = 5000\<rparr>,
      pc_nats_events = \<lparr>ne_url = None, ne_subject = ''catapulte.lifecycle''\<rparr>\<rparr>"

lemma is_okE: "is_ok r \<Longrightarrow> (\<And>x. r = Inr x \<Longrightarrow> P) \<Longrightarrow> P"
  by (cases r) auto

lemma small_storage: "storage_config_from_env small_env = Ok (SqliteConfig ''sqlite:x'')" by code_simp
lemma small_http: "is_ok (inbound_http_from_env (cl_socket_addr small_config_libs) small_env ''CATAPULTE_HTTP'')" 
  by (simp add: inbound_http_from_env_def small_config_libs_def small_env_def env_uint_def)
lemma small_nats: "inbound_nats_from_lookup small_env ''CATAPULTE_INBOUND_NATS'' = Ok None" by code_simp
lemma small_queue: "queue_config_from_env small_env ''CATAPULTE_QUEUE'' = Ok QueueStorageConfig" by code_simp
lemma small_attachments: "attachment_config_from_env small_env = Ok (FsConfig ''/data'')" by code_simp
lemma small_fetcher: "is_ok (fetcher_config_from_env small_env ''CATAPULTE_ATTACHMENT_FETCHER'')"
  by (simp add: fetcher_config_from_env_def small_env_def env_u64_or_def env_ok_var_def parse_allow_http_def trim_def)
lemma small_resolver: "resolver_config_from_lookup small_env ''CATAPULTE_RESOLVER'' = Ok small_resolver_config"
  by (simp add: small_resolver_config_def resolver_config_from_lookup_def small_env_def env_ok_var_def)
lemma small_worker: "is_ok (worker_config_from_env small_env ''CATAPULTE_WORKER'')"
  by (simp add: worker_config_from_env_def small_env_def)
lemma small_publisher: "publisher_config_from_env (cl_url small_config_libs) small_env = Ok small_publisher_config"
  by (simp add: small_publisher_config_def publisher_config_from_env_def webhook_config_from_env_def nats_event_config_from_env_def small_env_def env_ok_var_def)
lemma small_includes: "is_ok (include_config_from_lookup (cl_canonicalize small_config_libs) (cl_origin small_config_libs) small_env ''CATAPULTE_INCLUDE_LOADER'')"
  by code_simp
lemma small_senders:
  "map_ok (map rt_name) (bind_sum (multi_sender_from_lookup small_env) (\<lambda>ss.
     bind_sum (multi_sender_build (bi_relay willing_io) ss) (\<lambda>es. map_err (\<lambda>_. []) (routed_new (routes_of es))))) =
   Inr [SenderName ''main'']"
  by code_simp

theorem built_application_consistent_witness:
  "\<exists>app. bind_sum (app_config_from_env small_config_libs small_env) (app_build willing_io any_resolver_libs) = Inr app \<and>
     map sc_name (ap_sender_configs app) = [SenderName ''main'']"
proof -
  obtain senders entries routes where senders: "multi_sender_from_lookup small_env = Inr senders"
      "multi_sender_build (bi_relay willing_io) senders = Inr entries" "routed_new (routes_of entries) = Inr routes"
      "map rt_name routes = [SenderName ''main'']"
    using small_senders by (auto simp: map_ok_eq_Inr bind_sum_Inr)
  obtain http fetcher worker incl
    where small: "inbound_http_from_env (cl_socket_addr small_config_libs) small_env ''CATAPULTE_HTTP'' = Inr http"
      "fetcher_config_from_env small_env ''CATAPULTE_ATTACHMENT_FETCHER'' = Inr fetcher"
      "worker_config_from_env small_env ''CATAPULTE_WORKER'' = Inr worker"
      "include_config_from_lookup (cl_canonicalize small_config_libs) (cl_origin small_config_libs) small_env ''CATAPULTE_INCLUDE_LOADER'' = Inr incl"
    using small_http small_fetcher small_worker small_includes by (elim is_okE)
  obtain cfg where cfg: "app_config_from_env small_config_libs small_env = Inr cfg" "ac_smtp cfg = senders"
      "ac_storage cfg = SqliteConfig ''sqlite:x''" "ac_queue cfg = QueueStorageConfig" "ac_inbound_nats cfg = None"
      "ac_publisher cfg = small_publisher_config" "ac_resolver cfg = small_resolver_config" 
    by (simp add: app_config_from_env_def loading_def small senders(1) small_storage small_nats small_queue
        small_attachments small_resolver small_publisher)
  moreover obtain app where app: "app_build willing_io any_resolver_libs cfg = Inr app" "ap_routes app = routes"
    using senders(2,3)
    by (simp add: app_build_def building_def willing_io_def cfg small_publisher_config_def small_resolver_config_def publisher_config_build_def
       webhook_config_build_def nats_event_config_build_def resolver_config_build_def resolver_new_def attachment_config_build_def fetcher_config_build_def)
  moreover have "map fst (map (\<lambda>r. (rt_name r, rt_quota r, rt_match_sender_domain r)) (ap_routes app)) =
      map fst (map (\<lambda>c. (sc_name c, sc_quota c, map_option normalize_domain (sc_match_sender_domain c))) (ap_sender_configs app))"
    using built_application_consistent [OF cfg(1) app(1)] by (elim conjE) (rule arg_cong)
  ultimately show ?thesis using senders(4) by (intro exI [of _ app]) (simp add: comp_def)
qed

end
