(* ===== verification/AppLife.thy ===== *)
theory AppLife
  imports Wiring UseCases
begin

text \<open>
  The running program: \<open>main\<close> and its health probe (\<open>binary/src/main.rs\<close>), the metrics sampler
  (\<open>binary/src/metrics.rs\<close>), the wall clock (\<open>domain/src/port/clock.rs\<close>), and the life of the application from its
  start to the end of the drain (\<open>Application::run_with_shutdown\<close>).
\<close>

section \<open>The clock\<close>

text \<open>Nanoseconds since the Unix epoch to milliseconds; \<open>None\<close> is the panic for a clock set before the epoch.\<close>

definition system_now_ms :: "int \<Rightarrow> int option" where
  "system_now_ms ns = (if ns < 0 then None else let ms = ns div 1000000 in Some (if ms \<le> i64_max then ms else i64_max))"

lemma system_now_ms_range: "system_now_ms ns = Some ms \<Longrightarrow> 0 \<le> ms \<and> ms \<le> i64_max"
  by (auto simp: system_now_ms_def Let_def i64_max_def split: if_splits)

lemma system_now_ms_mono: "system_now_ms a = Some x \<Longrightarrow> system_now_ms b = Some y \<Longrightarrow> a \<le> b \<Longrightarrow> x \<le> y"
  using zdiv_mono1 [of a b 1000000] by (auto simp: system_now_ms_def Let_def split: if_splits)

section \<open>The health probe\<close>

datatype ip_addr = IpV4 "32 word" | IpV6 "128 word"

fun ip_unspecified :: "ip_addr \<Rightarrow> bool" where
  "ip_unspecified (IpV4 a) \<longleftrightarrow> a = 0"
| "ip_unspecified (IpV6 a) \<longleftrightarrow> a = 0"

fun ip_localhost :: "ip_addr \<Rightarrow> ip_addr" where
  "ip_localhost (IpV4 _) = IpV4 0x7f000001"
| "ip_localhost (IpV6 _) = IpV6 1"

record sock_addr =
  sa_ip :: ip_addr
  sa_port :: "16 word"

definition default_authority :: string where
  "default_authority = ''127.0.0.1:3000''"

definition readiness_authority :: "(string \<Rightarrow> sock_addr option) \<Rightarrow> (sock_addr \<Rightarrow> string) \<Rightarrow> (string \<Rightarrow> env_var) \<Rightarrow> string" where
  "readiness_authority parse_addr show_addr env =
     (let addr_str = (case env_ok_var env ''CATAPULTE_HTTP_ADDRESS'' of None \<Rightarrow> default_authority | Some v \<Rightarrow> v) in
      case parse_addr addr_str of
        None \<Rightarrow> default_authority
      | Some addr \<Rightarrow>
          (let ip = (if ip_unspecified (sa_ip addr) then ip_localhost (sa_ip addr) else sa_ip addr) in
           show_addr \<lparr>sa_ip = ip, sa_port = sa_port addr\<rparr>))"

definition run_healthcheck ::
    "(string \<Rightarrow> sock_addr option) \<Rightarrow> (sock_addr \<Rightarrow> string) \<Rightarrow> (string \<Rightarrow> anyhow + nat) \<Rightarrow> (nat \<Rightarrow> string) \<Rightarrow> (string \<Rightarrow> env_var) \<Rightarrow>
     anyhow + unit" where
  "run_healthcheck parse_addr show_addr http_get show_status env =
     bind_sum (http_get (''http://'' @ readiness_authority parse_addr show_addr env @ ''/health/ready'')) (\<lambda>status.
       if status = 200 then Ok () else Err (''health check failed: '' @ show_status status))"

text \<open>The probe goes to an address that can be connected to, on the port the server listens on.\<close>

lemma readiness_authority_connectable:
  assumes "\<And>s a. parse_addr s = Some a \<Longrightarrow> parse_addr (show_addr a) = Some a"
    and "env ''CATAPULTE_HTTP_ADDRESS'' = Present s" "parse_addr s = Some addr" "\<And>a. parse_addr (show_addr a) = Some a"
  shows "\<exists>a. parse_addr (readiness_authority parse_addr show_addr env) = Some a \<and> \<not> ip_unspecified (sa_ip a) \<and> sa_port a = sa_port addr"
  using assms(2-4) by (cases "sa_ip addr") (simp_all add: readiness_authority_def env_ok_var_def Let_def)

section \<open>Metrics\<close>

datatype gauge =
    QueuePending nat string
  | SentInRange nat sender_name
  | QuotaLimit nat sender_name

definition snapshot_gauges :: "sender_snapshot \<Rightarrow> gauge list" where
  "snapshot_gauges s =
     SentInRange (sn_sent_in_range s) (sc_name (sn_config s)) #
     (case sc_quota (sn_config s) of None \<Rightarrow> [] | Some q \<Rightarrow> [QuotaLimit (quota_count q) (sc_name (sn_config s))])"

definition sample_once ::
    "('w \<Rightarrow> nat option \<times> 'w) \<Rightarrow> ('w \<Rightarrow> ('e + sender_snapshot list) \<times> 'w) \<Rightarrow> string \<Rightarrow> 'w \<Rightarrow> gauge list \<times> 'w" where
  "sample_once pending snapshots backend w =
     (case pending w of
        (n, w1) \<Rightarrow>
          (let queue = (case n of None \<Rightarrow> [] | Some k \<Rightarrow> [QueuePending k backend]) in
           case snapshots w1 of
             (Inl e, w2) \<Rightarrow> (queue, w2)
           | (Inr snaps, w2) \<Rightarrow> (queue @ concat (map snapshot_gauges snaps), w2)))"

text \<open>What wakes the sampler; at the end of the script it is still waiting (\<open>False\<close>).\<close>

datatype sampler_wake = IntervalPassed | SamplerCancelled

fun sampler_loop :: "('w \<Rightarrow> gauge list \<times> 'w) \<Rightarrow> sampler_wake list \<Rightarrow> gauge list \<Rightarrow> 'w \<Rightarrow> bool \<times> gauge list \<times> 'w" where
  "sampler_loop sample [] out w = (False, out, w)"
| "sampler_loop sample (SamplerCancelled # _) out w = (True, out, w)"
| "sampler_loop sample (IntervalPassed # wakes) out w =
     (case sample w of (gs, w') \<Rightarrow> sampler_loop sample wakes (out @ gs) w')"

definition run_sampler :: "('w \<Rightarrow> gauge list \<times> 'w) \<Rightarrow> sampler_wake list \<Rightarrow> 'w \<Rightarrow> bool \<times> gauge list \<times> 'w" where
  "run_sampler sample wakes w = (case sample w of (gs, w') \<Rightarrow> sampler_loop sample wakes gs w')"

text \<open>Every configured sender is sampled, with the numbers of the usage port and its quota.\<close>

lemma list_senders_configs:
  "list_senders configs gstats order now w = (Inr snaps, w') \<Longrightarrow> map sn_config snaps = configs"
  by (auto simp: list_senders_def snapshot_of_def comp_def map_idI split: if_splits prod.splits sum.splits option.splits)

lemma sample_senders_exact:
  assumes "pending w = (None, w1)" "list_senders configs gstats order now w1 = (Inr snaps, w2)"
  shows "sample_once pending (list_senders configs gstats order now) backend w = (concat (map snapshot_gauges snaps), w2) \<and>
    {n. \<exists>k. SentInRange k n \<in> set (concat (map snapshot_gauges snaps))} = sc_name ` set configs \<and>
    (\<forall>q n. QuotaLimit q n \<in> set (concat (map snapshot_gauges snaps)) \<longrightarrow>
       (\<exists>c\<in>set configs. sc_name c = n \<and> map_option quota_count (sc_quota c) = Some q))"
proof -
  have "set configs = sn_config ` set snaps" using list_senders_configs [OF assms(2)] by auto
  with assms show ?thesis by (auto simp: sample_once_def snapshot_gauges_def split: option.splits) (metis option.simps(9))
qed

section \<open>The life of the application\<close>

datatype app_task = HttpTask | WorkerTask | GcTask | InboundNatsTask | SamplerTask

datatype task_end = TaskOk | TaskError string | TaskJoinError

datatype app_phase = WaitingForCancel | Draining | Returned "anyhow + unit"

text \<open>\<open>TaskJoinError\<close>: it panicked or was aborted.  \<open>al_clock\<close>: milliseconds on the monotonic clock; \<open>al_drain_since\<close>: when the
  drain began; \<open>al_ended\<close>: the tasks of the join set that have ended and are not joined;
  \<open>al_warned\<close>: the failures logged by the drain; \<open>al_aborted\<close>: \<open>abort_all\<close> was called.\<close>

record app_life =
  al_clock :: nat
  al_running :: "app_task list"
  al_ended :: "(app_task \<times> task_end) list"
  al_joined :: "(app_task \<times> task_end) list"
  al_warned :: "(app_task \<times> task_end) list"
  al_cancelled :: bool
  al_phase :: app_phase
  al_drain_since :: "nat option"
  al_aborted :: bool

definition drain_timeout_ms :: nat where
  "drain_timeout_ms = 30000"

definition app_tasks :: "bool \<Rightarrow> bool \<Rightarrow> app_task list" where
  "app_tasks inbound metrics =
     [HttpTask, WorkerTask, GcTask] @ (if inbound then [InboundNatsTask] else []) @ (if metrics then [SamplerTask] else [])"

definition app_start :: "application \<Rightarrow> telemetry \<Rightarrow> app_life" where
  "app_start app t =
     \<lparr>al_clock = 0, al_running = app_tasks (ap_inbound_nats app) (tl_metrics t), al_ended = [], al_joined = [], al_warned = [],
      al_cancelled = False, al_phase = WaitingForCancel, al_drain_since = None, al_aborted = False\<rparr>"

text \<open>Who takes a step: the clock, the world outside (\<open>ctrl_c\<close>, or the token of a test), a task, or the thread of
  \<open>run_with_shutdown\<close>.  A task ends at any time, before and after its abort; only the HTTP server's future can end in an
  error, the others end in \<open>Ok(())\<close> or in a panic.  The thread awaits the token, joins the ended tasks, and returns when the
  set is empty, or when the timer has fired and the set is not: then it calls \<open>abort_all\<close> and does not wait for the tasks.\<close>

datatype app_actor = TheClock | TheWorld | ATask | MainThread

inductive app_step :: "app_actor \<Rightarrow> app_life \<Rightarrow> app_life \<Rightarrow> bool" where
  time_passes: "app_step TheClock s (s\<lparr>al_clock := al_clock s + d\<rparr>)"
| cancel: "\<not> al_cancelled s \<Longrightarrow> app_step TheWorld s (s\<lparr>al_cancelled := True\<rparr>)"
| task_ends: "t \<in> set (al_running s) \<Longrightarrow> (\<And>m. e = TaskError m \<Longrightarrow> t = HttpTask) \<Longrightarrow>
    app_step ATask s (s\<lparr>al_running := remove1 t (al_running s), al_ended := al_ended s @ [(t, e)]\<rparr>)"
| start_drain: "al_phase s = WaitingForCancel \<Longrightarrow> al_cancelled s \<Longrightarrow>
    app_step MainThread s (s\<lparr>al_phase := Draining, al_drain_since := Some (al_clock s)\<rparr>)"
| join_next: "al_phase s = Draining \<Longrightarrow> al_ended s = (t, e) # es \<Longrightarrow>
    app_step MainThread s (s\<lparr>al_ended := es, al_joined := al_joined s @ [(t, e)],
      al_warned := al_warned s @ (if e = TaskOk then [] else [(t, e)])\<rparr>)"
| drained: "al_phase s = Draining \<Longrightarrow> al_running s = [] \<Longrightarrow> al_ended s = [] \<Longrightarrow>
    app_step MainThread s (s\<lparr>al_phase := Returned (Ok ())\<rparr>)"
| drain_timeout: "al_phase s = Draining \<Longrightarrow> al_running s \<noteq> [] \<or> al_ended s \<noteq> [] \<Longrightarrow>
    al_drain_since s = Some c \<Longrightarrow> c + drain_timeout_ms \<le> al_clock s \<Longrightarrow>
    app_step MainThread s (s\<lparr>al_aborted := True, al_phase := Returned (Ok ())\<rparr>)"

inductive_cases app_stepE: "app_step a s s'"

text \<open>A run, with who took each step.\<close>

inductive app_run :: "app_actor list \<Rightarrow> app_life \<Rightarrow> app_life \<Rightarrow> bool" where
  run_nil: "app_run [] s s"
| run_snoc: "app_run as s s' \<Longrightarrow> app_step a s' s'' \<Longrightarrow> app_run (as @ [a]) s s''"

section \<open>The program\<close>

text \<open>What \<open>main\<close> does up to the run: the health probe, or the application and its telemetry.  The outer \<open>None\<close> is a panic.\<close>

datatype main_run = HealthProbe | RunApplication application telemetry

definition app_main ::
    "string list \<Rightarrow> (string \<times> env_var) list \<Rightarrow> (anyhow + unit) \<Rightarrow> ((string \<times> env_var) list \<Rightarrow> (anyhow + telemetry_config) option) \<Rightarrow>
     (telemetry_config \<Rightarrow> (anyhow + telemetry) option) \<Rightarrow> config_libs \<Rightarrow> build_io \<Rightarrow> resolver_libs \<Rightarrow> (anyhow + main_run) option" where
  "app_main args env probe tel_config tel_init L B RL =
     (if 1 < length args \<and> args ! 1 = ''healthcheck'' then Some (map_ok (\<lambda>_. HealthProbe) probe)
      else case tel_config env of
             None \<Rightarrow> None
           | Some (Inl e) \<Rightarrow> Some (Err e)
           | Some (Inr tc) \<Rightarrow>
               (case tel_init tc of
                  None \<Rightarrow> None
                | Some (Inl e) \<Rightarrow> Some (Err e)
                | Some (Inr t) \<Rightarrow>
                    (let var = (\<lambda>key. case map_of env key of None \<Rightarrow> NotPresent | Some v \<Rightarrow> v) in
                     Some (bind_sum (app_config_from_env L var) (\<lambda>cfg.
                             map_ok (\<lambda>app. RunApplication app t) (app_build B RL cfg))))))"

lemma app_main_no_panic:
  assumes "\<forall>(key, v)\<in>set env. v \<noteq> NotUnicode"
  shows "app_main args env probe (\<lambda>e. telemetry_config_from_env e prefix version)
    (telemetry_init span_exporter metric_exporter) L B RL \<noteq> None"
proof -
  obtain m where "env_vars env = Some m" using env_vars_Some [OF assms] by blast
  then show ?thesis
    using telemetry_init_no_panic [of m prefix version _ span_exporter metric_exporter]
    by (auto simp: app_main_def telemetry_config_from_env_def Let_def split: sum.split option.split)
qed

section \<open>Starting and stopping\<close>

definition app_failures :: "(app_task \<times> task_end) list \<Rightarrow> (app_task \<times> task_end) list" where
  "app_failures es = filter (\<lambda>(t, e). e \<noteq> TaskOk) es"

text \<open>Without an abort, the return is that of an empty set; with one, the thirty seconds have passed.\<close>

definition app_inv :: "app_task list \<Rightarrow> app_life \<Rightarrow> bool" where
  "app_inv tasks s \<longleftrightarrow>
     mset tasks = mset (al_running s) + mset (map fst (al_joined s @ al_ended s)) \<and>
     al_warned s = app_failures (al_joined s) \<and>
     (\<forall>t m. (t, TaskError m) \<in> set (al_joined s @ al_ended s) \<longrightarrow> t = HttpTask) \<and>
     (\<not> al_cancelled s \<longrightarrow> al_phase s = WaitingForCancel) \<and>
     (al_phase s = WaitingForCancel \<longrightarrow> al_joined s = [] \<and> al_drain_since s = None) \<and>
     (al_phase s \<noteq> WaitingForCancel \<longrightarrow> al_drain_since s \<noteq> None) \<and>
     (al_aborted s \<longrightarrow> (\<exists>c. al_drain_since s = Some c \<and> c + drain_timeout_ms \<le> al_clock s) \<and> al_phase s = Returned (Ok ())) \<and>
     (\<forall>r. al_phase s = Returned r \<longrightarrow> r = Ok () \<and> (\<not> al_aborted s \<longrightarrow> al_running s = [] \<and> al_ended s = []))"

lemma app_inv_step:
  assumes "app_step a s s'" "app_inv tasks s"
  shows "app_inv tasks s'"
  using assms(1)
proof (cases rule: app_step.cases)
  case (time_passes d)
  have "c + drain_timeout_ms \<le> al_clock s \<Longrightarrow> c + drain_timeout_ms \<le> al_clock s + d" for c by (rule trans_le_add1)
  moreover have "al_running s' = al_running s" "al_ended s' = al_ended s" "al_joined s' = al_joined s" "al_warned s' = al_warned s"
    "al_cancelled s' = al_cancelled s" "al_phase s' = al_phase s" "al_drain_since s' = al_drain_since s"
    "al_aborted s' = al_aborted s" "al_clock s' = al_clock s + d" using time_passes by simp_all
  ultimately show ?thesis using assms(2) unfolding app_inv_def by (elim conjE, intro conjI) (assumption | metis)+
next
  case cancel
  then have "\<not> al_aborted s" using assms(2) unfolding app_inv_def by (metis app_phase.distinct(3))
  with cancel assms(2) show ?thesis unfolding app_inv_def by simp
next
  case (task_ends t e)
  have m: "mset xs = mset (remove1 t xs) + {#t#}" if "t \<in> set xs" for xs using that by simp
  have "al_aborted s" if "al_phase s = Returned r" for r
    using assms(2) task_ends(3) that unfolding app_inv_def by (metis empty_iff empty_set)
  moreover have "al_running s' = remove1 t (al_running s)" "al_ended s' = al_ended s @ [(t, e)]" "al_joined s' = al_joined s"
    "al_warned s' = al_warned s" "al_cancelled s' = al_cancelled s" "al_phase s' = al_phase s"
    "al_drain_since s' = al_drain_since s" "al_aborted s' = al_aborted s" "al_clock s' = al_clock s" using task_ends by simp_all
  moreover have "mset (al_running s) + mset (map fst (al_joined s @ al_ended s)) =
    mset (remove1 t (al_running s)) + mset (map fst (al_joined s @ al_ended s @ [(t, e)]))"
    by (subst m [OF task_ends(3)]) simp
  moreover have "(k, TaskError n) \<in> set (al_joined s @ al_ended s @ [(t, e)]) \<Longrightarrow> k = HttpTask" for k n
    using assms(2) task_ends(4) unfolding app_inv_def by auto
  ultimately show ?thesis using assms(2) unfolding app_inv_def by (elim conjE, intro conjI) (assumption | metis)+
next
  case start_drain
  with assms(2) show ?thesis unfolding app_inv_def by simp
next
  case (join_next t e es)
  with assms(2) show ?thesis by (simp add: app_inv_def app_failures_def)
next
  case drained
  with assms(2) show ?thesis unfolding app_inv_def by simp
next
  case (drain_timeout c)
  with assms(2) show ?thesis unfolding app_inv_def by simp
qed

lemma app_inv_waiting:
  "app_inv tasks s \<Longrightarrow> \<not> al_cancelled s \<longrightarrow> al_phase s = WaitingForCancel \<and> al_joined s = [] \<and> al_warned s = []"
  by (simp add: app_inv_def app_failures_def)

lemma app_inv_returned:
  assumes "app_inv tasks s" "al_phase s = Returned r"
  shows "r = Ok () \<and> al_cancelled s \<and>
    (if al_aborted s then \<exists>c. al_drain_since s = Some c \<and> c + 30000 \<le> al_clock s else mset (map fst (al_joined s)) = mset tasks)"
  using assms by (auto simp: app_inv_def drain_timeout_ms_def)

lemma app_inv_tasks:
  assumes "app_inv tasks s"
  shows "mset tasks = mset (al_running s) + mset (map fst (al_joined s @ al_ended s)) \<and>
    al_warned s = app_failures (al_joined s) \<and> (\<forall>k m. (k, TaskError m) \<in> set (al_warned s) \<longrightarrow> k = HttpTask)"
  using assms by (auto simp: app_inv_def app_failures_def)

lemma app_inv_run: "app_run as s s' \<Longrightarrow> app_inv tasks s \<Longrightarrow> app_inv tasks s'"
  by (induction rule: app_run.induct) (auto intro: app_inv_step)

lemma app_inv_start: "app_inv (app_tasks (ap_inbound_nats app) (tl_metrics t)) (app_start app t)"
  by (simp add: app_inv_def app_start_def app_failures_def)

text \<open>The steps that can still be taken, the clock's aside: every other step takes one away.\<close>

definition app_left :: "app_life \<Rightarrow> nat" where
  "app_left s = (if al_cancelled s then 0 else 1) +
     (case al_phase s of WaitingForCancel \<Rightarrow> 2 | Draining \<Rightarrow> 1 | Returned r \<Rightarrow> 0) + 2 * length (al_running s) + length (al_ended s)"

lemma app_left_step: "app_step a s s' \<Longrightarrow> (if a = TheClock then 0 else 1) + app_left s' \<le> app_left s"
proof (induction rule: app_step.induct)
  case (task_ends t s e)
  then have "length (al_running s) = Suc (length (remove1 t (al_running s)))"
    by (simp add: length_remove1 Suc_pred [OF length_pos_if_in_set])
  then show ?case by (simp add: app_left_def)
qed (auto simp: app_left_def)

lemma app_left_run: "app_run as s s' \<Longrightarrow> length (filter (\<lambda>a. a \<noteq> TheClock) as) + app_left s' \<le> app_left s"
proof (induction rule: app_run.induct)
  case (run_snoc as s s' a s'')
  from app_left_step [OF run_snoc.hyps(2)] run_snoc.IH show ?case by (auto split: if_splits)
qed simp

text \<open>Where the thread of \<open>run_with_shutdown\<close> has no step, it waits for the cancellation or for a task within the thirty
  seconds of the drain, or it has returned.\<close>

lemma main_thread_stuck:
  assumes inv: "app_inv tasks s" and stuck: "\<And>s'. \<not> app_step MainThread s s'"
  shows "(al_phase s = WaitingForCancel \<and> \<not> al_cancelled s) \<or> al_phase s = Returned (Ok ()) \<or>
    (al_phase s = Draining \<and> al_running s \<noteq> [] \<and> al_ended s = [] \<and> (\<exists>c. al_drain_since s = Some c \<and> al_clock s < c + 30000))"
proof (cases "al_phase s")
  case WaitingForCancel
  with stuck show ?thesis using start_drain [OF WaitingForCancel] by blast
next
  case Draining
  then obtain c where c: "al_drain_since s = Some c" using inv by (auto simp: app_inv_def)
  have e: "al_ended s = []"
  proof (cases "al_ended s")
    case (Cons p es)
    then show ?thesis using stuck join_next [OF Draining, of "fst p" "snd p" es] by simp
  qed simp
  have r: "al_running s \<noteq> []" using stuck drained [OF Draining _ e] by blast
  have "al_clock s < c + 30000" using stuck drain_timeout [OF Draining _ c] r by (fastforce simp: drain_timeout_ms_def not_le)
  with Draining c e r show ?thesis by blast
next
  case (Returned r)
  then show ?thesis using inv by (auto simp: app_inv_def)
qed


text \<open>The HTTP server fails to bind and the worker hangs: the cancellation comes, the drain joins and logs the server's error, and
  after thirty seconds it gives up on the four tasks that still run.\<close>

definition http_down_end :: "application \<Rightarrow> telemetry \<Rightarrow> app_life" where
  "http_down_end app t =
     \<lparr>al_clock = 30000, al_running = tl (app_tasks (ap_inbound_nats app) (tl_metrics t)), al_ended = [],
      al_joined = [(HttpTask, TaskError ''binding address'')], al_warned = [(HttpTask, TaskError ''binding address'')],
      al_cancelled = True, al_phase = Returned (Ok ()), al_drain_since = Some 0, al_aborted = True\<rparr>"

lemma http_down_run:
  "app_run [ATask, TheWorld, MainThread, MainThread, TheClock, MainThread] (app_start app t) (http_down_end app t)"
proof -
  let ?e = "TaskError ''binding address''" and ?ts = "tl (app_tasks (ap_inbound_nats app) (tl_metrics t))"
  let ?s1 = "(app_start app t)\<lparr>al_running := ?ts, al_ended := [(HttpTask, ?e)]\<rparr>"
  let ?s2 = "?s1\<lparr>al_cancelled := True\<rparr>"
  let ?s3 = "?s2\<lparr>al_phase := Draining, al_drain_since := Some 0\<rparr>"
  let ?s4 = "?s3\<lparr>al_ended := [], al_joined := [(HttpTask, ?e)], al_warned := [(HttpTask, ?e)]\<rparr>"
  let ?s5 = "?s4\<lparr>al_clock := 30000\<rparr>"
  have "app_run ([] @ [ATask]) (app_start app t) ?s1"
    using task_ends [of HttpTask "app_start app t" ?e]
    by (intro run_snoc [OF run_nil]) (simp add: app_start_def app_tasks_def)
  then have "app_run (([] @ [ATask]) @ [TheWorld]) (app_start app t) ?s2"
    by (rule run_snoc) (rule cancel, simp add: app_start_def)
  then have "app_run ((([] @ [ATask]) @ [TheWorld]) @ [MainThread]) (app_start app t) ?s3"
    using start_drain [of ?s2] by (elim run_snoc) (simp add: app_start_def)
  then have "app_run (((([] @ [ATask]) @ [TheWorld]) @ [MainThread]) @ [MainThread]) (app_start app t) ?s4"
    using join_next [of ?s3 HttpTask ?e "[]"] by (elim run_snoc) (simp add: app_start_def)
  then have "app_run ((((([] @ [ATask]) @ [TheWorld]) @ [MainThread]) @ [MainThread]) @ [TheClock]) (app_start app t) ?s5"
    using time_passes [of ?s4 30000] by (elim run_snoc) (simp add: app_start_def)
  then have "app_run (((((([] @ [ATask]) @ [TheWorld]) @ [MainThread]) @ [MainThread]) @ [TheClock]) @ [MainThread])
      (app_start app t) (http_down_end app t)"
    using drain_timeout [of ?s5 0] by (elim run_snoc) (simp add: app_start_def http_down_end_def app_tasks_def drain_timeout_ms_def)
  then show ?thesis by simp
qed


end
