(* ===== verification/Program.thy ===== *)
theory Program
  imports System Worker "HOL-Library.Sublist"
begin

text \<open>
  The program as a whole in its default configuration (SQLite, files, no extra publisher): submissions, the worker's dequeues
  and tasks, sweeps of the garbage collector, crashes and faults are the steps of one machine on the world of the theory
  \<open>System\<close>, interleaved in any order.

  The invariant ties the components together: an email in the queue keeps its row and every attachment until
  a worker has acknowledged it, and what is handed to a sender is what was submitted.
\<close>

section \<open>The worker's ports\<close>

text \<open>The stages of the delivery and the transport, as they answer during one task.\<close>

record stages =
  st_resolve :: "body_source \<Rightarrow> resolve_error + resolved_body"
  st_interpolate :: "resolved_body \<Rightarrow> variables \<Rightarrow> interpolate_error + interpolated_body"
  st_render :: "interpolated_body \<Rightarrow> render_error + rendered_body"
  st_send :: "outbound_email \<Rightarrow> send_error + sender_name"

text \<open>The state of a task is the world and the messages handed to the sender so far.\<close>

definition on_world :: "(world \<Rightarrow> 'r \<times> world) \<Rightarrow> world \<times> 'm \<Rightarrow> 'r \<times> world \<times> 'm" where
  "on_world f s = (let (r, w) = f (fst s) in (r, w, snd s))"

definition sys_process :: "stages \<Rightarrow> envelope \<Rightarrow> world \<times> outbound_email list \<Rightarrow>
    (process_error + sender_name) \<times> world \<times> outbound_email list" where
  "sys_process S = process_execute
     \<lparr>pp_resolve = (\<lambda>b s. (st_resolve S b, s)), pp_interpolate = st_interpolate S, pp_render = (\<lambda>b s. (st_render S b, s)),
      pp_send = (\<lambda>m s. (st_send S m, fst s, snd s @ [m])), pp_get = (\<lambda>b. on_world (on_files (fsw_get b)))\<rparr>"

definition sys_worker :: "stages \<Rightarrow> (world \<times> outbound_email list) worker_ports" where
  "sys_worker S =
     \<lparr>wk_publish = (\<lambda>ev. on_world (sp_publish (sys_ports no_fetch) ev)), wk_process = sys_process S,
      wk_ack = (\<lambda>tok. on_world (on_db (sqlite_ack tok))),
      wk_nack = (\<lambda>tok delay. on_world (\<lambda>w. on_db (sqlite_nack (w_now w) tok delay) w)),
      wk_set_attachments = (\<lambda>i refs. on_world (sp_set_attachments (sys_ports no_fetch) i refs)),
      wk_delete_blob = (\<lambda>b. on_world (sp_delete_blob (sys_ports no_fetch) b))\<rparr>"

lemma on_world_run: "on_world f (w, ms) = (r, s) \<longleftrightarrow> (\<exists>w'. f w = (r, w') \<and> s = (w', ms))"
  by (auto simp: on_world_def split: prod.splits)

section \<open>The machine\<close>

text \<open>\<open>pr_accepted\<close> remembers what each created email was submitted with; no step looks at it.  Submissions are those the inbound
  adapters let through: the body is well formed (see \<open>HttpApi\<close>) and a remote template's URL parses back from its text.  A task
  meets stages out of \<open>SS\<close>, which may differ from task to task.  A crash loses the tasks in flight and what they claimed
  until the timeout; what is stored stays.\<close>

record program =
  pr_world :: world
  pr_sent :: "outbound_email list"
  pr_tasks :: "dequeued_email list"
  pr_accepted :: "email_id \<rightharpoonup> submit_email_input"

definition program_start :: program where
  "program_start = \<lparr>pr_world = empty_world, pr_sent = [], pr_tasks = [], pr_accepted = Map.empty\<rparr>"

definition with_faults :: "bool list \<Rightarrow> bool list \<Rightarrow> int \<Rightarrow> world \<Rightarrow> world" where
  "with_faults db_fs file_fs now w =
     w\<lparr>w_db := (w_db w)\<lparr>db_faults := db_fs\<rparr>,
       w_files := (w_files w)\<lparr>fw_now := now, fw_fs := (fw_fs (w_files w))\<lparr>fs_faults := file_fs\<rparr>\<rparr>\<rparr>"

inductive program_step :: "stages set \<Rightarrow> (string \<Rightarrow> anyhow + url) \<Rightarrow> program \<Rightarrow> program \<Rightarrow> bool" for SS parse_url where
  submitted: "body_ok (si_body input) \<Longrightarrow> url_stable parse_url (si_body input) \<Longrightarrow>
    submit_execute (sys_ports fetch) i input (pr_world s) = (r, w) \<Longrightarrow>
    program_step SS parse_url s (s\<lparr>pr_world := w,
      pr_accepted := (if r = Inr i \<and> v_rows (sys_view (pr_world s)) i = None then (pr_accepted s)(i \<mapsto> input) else pr_accepted s)\<rparr>)"
| dequeued: "sqlite_try_dequeue parse_url (w_now (pr_world s)) (w_db (pr_world s)) = (x, d) \<Longrightarrow>
    program_step SS parse_url s (s\<lparr>pr_world := (pr_world s)\<lparr>w_db := d\<rparr>,
      pr_tasks := pr_tasks s @ (case x of Inr (Some t) \<Rightarrow> [t] | _ \<Rightarrow> [])\<rparr>)"
| handled: "S \<in> SS \<Longrightarrow> pr_tasks s = pre @ t # post \<Longrightarrow>
    process_one (sys_worker S) (dq_id t) (dq_envelope t) (dq_attempt t) (dq_token t) (pr_world s, pr_sent s) = (w, sent) \<Longrightarrow>
    program_step SS parse_url s (s\<lparr>pr_world := w, pr_sent := sent, pr_tasks := pre @ post\<rparr>)"
| swept: "sweep_once sys_gc grace (pr_world s, cancels) = (r, w, cancels') \<Longrightarrow>
    program_step SS parse_url s (s\<lparr>pr_world := w\<rparr>)"
| crashed: "program_step SS parse_url s (s\<lparr>pr_tasks := []\<rparr>)"
| weather: "program_step SS parse_url s (s\<lparr>pr_world := with_faults db_fs file_fs now (pr_world s)\<rparr>)"

inductive_cases program_stepE: "program_step SS parse_url s s'"

definition program_reachable :: "stages set \<Rightarrow> (string \<Rightarrow> anyhow + url) \<Rightarrow> program \<Rightarrow> bool" where
  "program_reachable SS parse_url s \<longleftrightarrow> (program_step SS parse_url)\<^sup>*\<^sup>* program_start s"

section \<open>Steps that leave the queued emails alone\<close>

definition jobs :: "world \<Rightarrow> email_id set" where
  "jobs w = qr_email ` set (db_queue (w_db w))"

definition entry_pairs :: "world \<Rightarrow> (uuid \<times> email_id) list" where
  "entry_pairs w = map (\<lambda>e. (qr_id e, qr_email e)) (db_queue (w_db w))"

definition blobs_of :: "attachment_ref list \<Rightarrow> blob_ref set" where
  "blobs_of refs = ar_blob ` set refs"

definition refs_of :: "world \<Rightarrow> email_id \<Rightarrow> attachment_ref list" where
  "refs_of w i = (case find_email i (w_db w) of None \<Rightarrow> [] | Some r \<Rightarrow> row_refs r)"

definition blob_at :: "world \<Rightarrow> blob_ref \<rightharpoonup> byte list" where
  "blob_at w = fs_stored (fw_fs (w_files w))"

text \<open>The keys the id generator has yet to give out.\<close>

definition future :: "uuid \<Rightarrow> blob_ref \<Rightarrow> bool" where
  "future n b \<longleftrightarrow> (\<exists>u\<ge>n. uuid_ok u \<and> blob_key b = uuid_simple u)"

lemma future_mono: "n \<le> n' \<Longrightarrow> future n' b \<Longrightarrow> future n b"
  using order_trans by (auto simp: future_def)

lemma stored_not_future: "sys_inv w \<Longrightarrow> future (fw_next (w_files w)) b \<Longrightarrow> blob_at w b = None"
  by (auto simp: sys_inv_def fsw_inv_def future_def blob_at_def fs_stored_def)

text \<open>From \<open>w\<close> to \<open>w'\<close> entries may leave the queue and blobs may go or come under new keys, but the emails that stay keep
  their rows and their blobs and get no final event.\<close>

definition evolves :: "world \<Rightarrow> world \<Rightarrow> bool" where
  "evolves w w' \<longleftrightarrow> sys_inv w' \<and> fw_next (w_files w) \<le> fw_next (w_files w') \<and>
     subseq (entry_pairs w') (entry_pairs w) \<and>
     set (email_ids (w_db w)) \<subseteq> set (email_ids (w_db w')) \<and>
     (\<forall>b. \<not> future (fw_next (w_files w)) b \<longrightarrow> blob_at w' b = None \<or> blob_at w' b = blob_at w b) \<and>
     (\<forall>k\<in>jobs w'. find_email k (w_db w') = find_email k (w_db w) \<and> (\<forall>b\<in>blobs_of (refs_of w k). blob_at w' b = blob_at w b)) \<and>
     (\<forall>v\<in>set (db_events (w_db w')). vr_email v \<in> jobs w' \<longrightarrow> v \<in> set (db_events (w_db w)) \<or> \<not> terminal_type (vr_type v))"

lemma jobs_pairs: "jobs w = snd ` set (entry_pairs w)"
  by (simp add: jobs_def entry_pairs_def image_image)

lemma evolves_jobs: "evolves w w' \<Longrightarrow> jobs w' \<subseteq> jobs w"
  unfolding evolves_def jobs_pairs by (rule image_mono) (metis subseq_conv_nths set_nths_subset)

lemma evolves_inv: "evolves w w' \<Longrightarrow> sys_inv w'"
  by (simp add: evolves_def)

lemma evolves_refl: "sys_inv w \<Longrightarrow> evolves w w"
  by (simp add: evolves_def)

lemma evolves_trans:
  assumes "evolves w w1" "evolves w1 w2" shows "evolves w w2"
proof -
  have jobs: "jobs w2 \<subseteq> jobs w1" "jobs w1 \<subseteq> jobs w" using assms evolves_jobs by auto
  have refs: "refs_of w1 k = refs_of w k" if "k \<in> jobs w1" for k
    using assms(1) that by (simp add: evolves_def refs_of_def)
  have fut: "\<not> future (fw_next (w_files w)) b \<Longrightarrow> \<not> future (fw_next (w_files w1)) b" for b
    using assms(1) future_mono by (auto simp: evolves_def)
  show ?thesis
    unfolding evolves_def
  proof (intro conjI allI ballI impI)
    show "sys_inv w2" using assms(2) by (rule evolves_inv)
    show "fw_next (w_files w) \<le> fw_next (w_files w2)" "set (email_ids (w_db w)) \<subseteq> set (email_ids (w_db w2))"
      using assms by (auto simp: evolves_def)
    show "subseq (entry_pairs w2) (entry_pairs w)" using assms subseq_order.trans by (auto simp: evolves_def)
  next
    fix b assume "\<not> future (fw_next (w_files w)) b"
    with fut [OF this] assms show "blob_at w2 b = None \<or> blob_at w2 b = blob_at w b" unfolding evolves_def by metis
  next
    fix k assume k: "k \<in> jobs w2"
    with jobs assms show "find_email k (w_db w2) = find_email k (w_db w)" unfolding evolves_def by auto
    fix b assume "b \<in> blobs_of (refs_of w k)"
    with k jobs refs [of k] assms show "blob_at w2 b = blob_at w b" unfolding evolves_def by auto
  next
    fix v assume v: "v \<in> set (db_events (w_db w2))" "vr_email v \<in> jobs w2"
    with assms(2) consider "v \<in> set (db_events (w_db w1))" | "\<not> terminal_type (vr_type v)" unfolding evolves_def by blast
    then show "v \<in> set (db_events (w_db w)) \<or> \<not> terminal_type (vr_type v)"
      using assms(1) v(2) jobs by cases (auto simp: evolves_def)
  qed
qed

text \<open>A change of the tables alone.\<close>

lemma evolves_db:
  assumes "sys_inv w'" "w' = w\<lparr>w_db := d\<rparr>" "subseq (entry_pairs w') (entry_pairs w)"
    and "set (email_ids (w_db w)) \<subseteq> set (email_ids d)"
    and "\<And>k. k \<in> jobs w' \<Longrightarrow> find_email k d = find_email k (w_db w)"
    and "\<And>v. v \<in> set (db_events d) \<Longrightarrow> vr_email v \<in> jobs w' \<Longrightarrow> v \<in> set (db_events (w_db w)) \<or> \<not> terminal_type (vr_type v)"
  shows "evolves w w'"
  using assms by (auto simp: evolves_def blob_at_def)

text \<open>A change of the stored blobs alone.\<close>

lemma evolves_files:
  assumes "sys_inv w'" "w' = w\<lparr>w_files := f\<rparr>" "fw_next (w_files w) \<le> fw_next f"
    and "\<And>b. fs_stored (fw_fs f) b = None \<or> fs_stored (fw_fs f) b = blob_at w b"
    and "\<And>k b. k \<in> jobs w \<Longrightarrow> b \<in> blobs_of (refs_of w k) \<Longrightarrow> fs_stored (fw_fs f) b = blob_at w b"
  shows "evolves w w'"
  using assms by (auto simp: evolves_def blob_at_def jobs_def entry_pairs_def)

lemma entry_pairs_same: "db_queue (w_db w') = db_queue (w_db w) \<Longrightarrow> entry_pairs w' = entry_pairs w \<and> jobs w' = jobs w"
  by (simp add: entry_pairs_def jobs_def)

lemma sys_inv_db: "sys_inv w \<Longrightarrow> queue_inv d \<Longrightarrow> sys_inv (w\<lparr>w_db := d\<rparr>)"
  by (simp add: sys_inv_def)

lemma evolves_tables: "sys_inv w \<Longrightarrow> same_tables d (w_db w) \<Longrightarrow> evolves w (w\<lparr>w_db := d\<rparr>)"
  using queue_inv_same [of d "w_db w"]
  by (intro evolves_db [where d = d]) (auto simp: sys_inv_def entry_pairs_def same_tables_def email_ids_def find_email_def)

lemma subseq_map_filter: "subseq (map f (filter P xs)) (map f xs)"
  by (induction xs) auto

lemma evolves_queue:
  assumes "sys_inv w" "queue_inv d" "subseq (map (\<lambda>e. (qr_id e, qr_email e)) (db_queue d)) (entry_pairs w)"
    and "db_emails d = db_emails (w_db w)" "db_events d = db_events (w_db w)"
  shows "evolves w (w\<lparr>w_db := d\<rparr>)"
  using assms by (intro evolves_db [where d = d] sys_inv_db) (auto simp: entry_pairs_def email_ids_def find_email_def)

section \<open>The worker's calls\<close>

lemma publish_tables:
  assumes "sqlite_publish now e ev db = (x, d)"
  shows "db_emails d = db_emails db \<and> set (db_events d) \<subseteq> insert (event_row_of now e ev) (set (db_events db))"
proof (cases x)
  case (Inl er)
  from publish_error [OF assms [unfolded Inl]] show ?thesis by (auto simp: same_tables_def)
next
  case (Inr u)
  from publish_ok [OF assms [unfolded Inr]] show ?thesis by (auto simp: same_tables_def)
qed

lemma evolves_publish:
  assumes "sys_inv w" "sp_publish (sys_ports fetch) ev w = (x, w')"
    and "event_email_id ev \<notin> jobs w \<or> \<not> terminal_type (event_type ev)"
  shows "evolves w w'"
proof -
  from assms(2) have "with_id (PublishError ''no more ids'') (\<lambda>u w. on_db (sqlite_publish (w_now w) u ev) w) w = (x, w')"
    by (simp add: sys_ports_def)
  moreover have inv: "sys_inv w'" using sys_publish_law [OF assms(1,2)] by simp
  ultimately show ?thesis
  proof (cases "uuid_ok (fw_next (w_files w))")
    case True
    let ?w1 = "w\<lparr>w_files := (w_files w)\<lparr>fw_next := fw_next (w_files w) + 1\<rparr>\<rparr>"
    obtain d where d: "sqlite_publish (w_now ?w1) (fw_next (w_files w)) ev (w_db w) = (x, d)" "w' = ?w1\<lparr>w_db := d\<rparr>"
      using \<open>with_id _ _ w = _\<close> True by (auto simp: with_id_def Let_def on_db_run)
    have "sys_inv ?w1" using assms(1) fsw_inv_next by (simp add: sys_inv_def)
    then have "evolves w ?w1" by (rule evolves_files [OF _ refl]) (auto simp: blob_at_def)
    moreover have "evolves ?w1 w'"
    proof (rule evolves_db [OF inv d(2)])
      have q: "db_queue d = db_queue (w_db w)" using repository_keeps_queue(4) d(1) by (metis snd_conv)
      show "subseq (entry_pairs w') (entry_pairs ?w1)" using q d(2) by (simp add: entry_pairs_def)
      have rows: "db_emails d = db_emails (w_db w)"
        and new: "set (db_events d) \<subseteq> insert (event_row_of (w_now ?w1) (fw_next (w_files w)) ev) (set (db_events (w_db w)))"
        using publish_tables [OF d(1)] by blast+
      show "set (email_ids (w_db ?w1)) \<subseteq> set (email_ids d)" "find_email k d = find_email k (w_db ?w1)" for k
        using rows by (simp_all add: email_ids_def find_email_def)
      have "jobs w' = jobs w" using q d(2) by (simp add: jobs_def)
      then show "v \<in> set (db_events (w_db ?w1)) \<or> \<not> terminal_type (vr_type v)" if "v \<in> set (db_events d)" "vr_email v \<in> jobs w'" for v
        using that new assms(3) by (cases "v \<in> set (db_events (w_db w))") (auto simp: event_row_of_def)
    qed
    ultimately show ?thesis by (rule evolves_trans)
  next
    case False
    with \<open>with_id _ _ w = _\<close> assms(1) show ?thesis by (auto simp: with_id_def Let_def intro: evolves_refl)
  qed
qed

lemma publish_blobs: "sp_publish (sys_ports fetch) ev w = (x, w') \<Longrightarrow> blob_at w' = blob_at w"
  by (auto simp: sys_ports_def with_id_def on_db_def blob_at_def Let_def split: prod.splits if_splits)

lemma evolves_ack:
  assumes "sys_inv w" "on_db (sqlite_ack tok) w = (x, w')"
  shows "evolves w w'" "is_ok x \<Longrightarrow> db_queue (w_db w') = filter (\<lambda>r. row_token r \<noteq> tok) (db_queue (w_db w))"
    "\<not> is_ok x \<Longrightarrow> jobs w' = jobs w"
proof -
  obtain d where d: "sqlite_ack tok (w_db w) = (x, d)" "w' = w\<lparr>w_db := d\<rparr>" using assms(2) by (auto simp: on_db_run)
  have q: "queue_inv (w_db w)" using assms(1) by (simp add: sys_inv_def)
  have tables: "db_emails d = db_emails (w_db w) \<and> db_events d = db_events (w_db w)"
    using d(1) by (cases x) (auto simp: sqlite_ack_def st_results delete_entry_def same_tables_def dest!: stmt_Inr stmt_Inl)
  have "queue_inv d \<and> (db_queue d = db_queue (w_db w) \<or> db_queue d = filter (\<lambda>r. row_token r \<noteq> tok) (db_queue (w_db w)))"
    using sqlite_ack_ok [OF q, of tok] sqlite_ack_err [OF q, of tok] d(1) by (cases x) auto
  with tables show "evolves w w'"
    unfolding d(2) by (intro evolves_queue [OF assms(1)]) (auto simp: entry_pairs_def subseq_map_filter)
  show "is_ok x \<Longrightarrow> db_queue (w_db w') = filter (\<lambda>r. row_token r \<noteq> tok) (db_queue (w_db w))"
    using sqlite_ack_ok [OF q, of tok] d by (cases x) auto
  show "\<not> is_ok x \<Longrightarrow> jobs w' = jobs w"
    using sqlite_ack_err [OF q, of tok] d by (cases x) (auto simp: jobs_def)
qed

lemma evolves_nack:
  assumes "sys_inv w" "on_db (sqlite_nack now tok delay) w = (x, w')"
  shows "evolves w w' \<and> jobs w' = jobs w"
proof -
  obtain d where d: "sqlite_nack now tok delay (w_db w) = (x, d)" "w' = w\<lparr>w_db := d\<rparr>" using assms(2) by (auto simp: on_db_run)
  have q: "queue_inv (w_db w)" using assms(1) by (simp add: sys_inv_def)
  have tables: "db_emails d = db_emails (w_db w) \<and> db_events d = db_events (w_db w)"
    using d(1) by (cases x) (auto simp: sqlite_nack_def st_results update_claim_def same_tables_def dest!: stmt_Inr stmt_Inl)
  have "queue_inv d \<and> map (\<lambda>e. (qr_id e, qr_email e)) (db_queue d) = entry_pairs w"
    using sqlite_nack_ok [OF q, of now tok delay] sqlite_nack_err [OF q, of now tok delay] d(1)
    by (cases x) (auto simp: entry_pairs_def)
  moreover from this have "jobs (w\<lparr>w_db := d\<rparr>) = jobs w" by (simp add: jobs_pairs entry_pairs_def)
  ultimately show ?thesis
    unfolding d(2) using tables by (intro conjI evolves_queue [OF assms(1)]) auto
qed

lemma publish_jobs: "sp_publish (sys_ports fetch) ev w = (x, w') \<Longrightarrow> jobs w' = jobs w"
  using repository_keeps_queue(4) [of "w_now w" "fw_next (w_files w)" ev "w_db w"]
  by (auto simp: sys_ports_def with_id_def on_db_def jobs_def w_now_def Let_def split: prod.splits if_splits)

lemma set_jobs: "sys_inv w \<Longrightarrow> jobs (snd (sp_set_attachments (sys_ports fetch) i refs w)) = jobs w"
  using repository_keeps_queue(2) [of "w_db w" i refs]
  by (simp add: sys_ports_def on_db_def jobs_def sys_inv_def queue_inv_def case_prod_beta)

lemma evolves_set:
  assumes "sys_inv w" "sp_set_attachments (sys_ports fetch) i [] w = (x, w')" "i \<notin> jobs w"
  shows "evolves w w'"
proof -
  obtain d where d: "sqlite_set_attachments i [] (w_db w) = (x, d)" "w' = w\<lparr>w_db := d\<rparr>"
    using assms(2) by (auto simp: sys_ports_def on_db_run)
  have inv: "sys_inv w'" using sys_set_law [OF assms(1), of "[]" i x w'] assms(2) by (simp add: sys_ports_def)
  have db: "db_inv (w_db w)" using assms(1) by (simp add: sys_inv_def queue_inv_def)
  consider "same_tables d (w_db w)" | "same_tables d (with_refs i [] (w_db w))"
    using set_attachments_error [of i "[]" "w_db w"] set_attachments_ok [OF db, of i "[]"] d(1) by (cases x) blast+
  then show ?thesis
  proof cases
    case 1
    with d(2) assms(1) show ?thesis by (simp add: evolves_tables)
  next
    case 2
    then have "db_queue d = db_queue (w_db w)" "db_events d = db_events (w_db w)" "email_ids d = email_ids (w_db w)"
      by (auto simp: same_tables_def with_refs_def email_ids_def)
    moreover have "find_email k d = find_email k (w_db w)" if "k \<noteq> i" for k
      using same_tables_find_email [OF 2, of k] find_email_with_refs [of k i "[]" "w_db w"] that find_email_Some [of k "w_db w"]
      by (cases "find_email k (w_db w)") auto
    ultimately show ?thesis
      using assms(3) d(2) by (intro evolves_db [OF inv d(2)]) (simp_all add: entry_pairs_def jobs_def, metis)
  qed
qed

lemma evolves_get:
  assumes "sys_inv w" "fs_own b" "on_files (fsw_get b) w = (x, w')"
  shows "evolves w w'" "case x of Inr rd \<Rightarrow> (\<exists>bs. blob_at w b = Some bs \<and> rd = cursor bs) | Inl e \<Rightarrow> True"
    "blob_at w' = blob_at w" "w_db w' = w_db w"
proof -
  obtain f where f: "fsw_get b (w_files w) = (x, f)" "w' = w\<lparr>w_files := f\<rparr>" using assms(3) by (auto simp: on_files_run)
  have inv: "fsw_inv (w_files w)" using assms(1) by (simp add: sys_inv_def)
  note law = fsw_get_law [OF inv assms(2) f(1)]
  have next': "fw_next f = fw_next (w_files w)" using f(1) by (auto simp: fsw_get_def split: prod.splits)
  show "evolves w w'"
    using law assms(1) f(2) next' by (intro evolves_files [where f = f]) (auto simp: sys_inv_def blob_at_def)
  show "case x of Inr rd \<Rightarrow> (\<exists>bs. blob_at w b = Some bs \<and> rd = cursor bs) | Inl e \<Rightarrow> True"
    using law by (auto simp: blob_at_def split: sum.splits)
  show "blob_at w' = blob_at w" "w_db w' = w_db w" using law f(2) by (simp_all add: blob_at_def)
qed

lemma evolves_delete_blob:
  assumes "sys_inv w" "fs_own b" "sp_delete_blob (sys_ports fetch) b w = (x, w')"
    and "\<And>k. k \<in> jobs w \<Longrightarrow> b \<notin> blobs_of (refs_of w k)"
  shows "evolves w w'" "w_db w' = w_db w" "is_ok x \<Longrightarrow> blob_at w' = (blob_at w)(b := None)" "\<not> is_ok x \<Longrightarrow> blob_at w' = blob_at w"
proof -
  obtain f where f: "fsw_delete b (w_files w) = (x, f)" "w' = w\<lparr>w_files := f\<rparr>"
    using assms(3) by (auto simp: sys_ports_def on_files_run)
  have inv: "fsw_inv (w_files w)" using assms(1) by (simp add: sys_inv_def)
  note law = fsw_delete_law [OF inv assms(2) f(1)]
  have next': "fw_next f = fw_next (w_files w)" using f(1) by (auto simp: fsw_delete_def split: prod.splits)
  have "fs_stored (fw_fs f) c = (if is_ok x \<and> c = b then None else blob_at w c)" for c
    using law by (simp add: blob_at_def split: if_splits)
  then show "evolves w w'"
    using law assms(1,4) f(2) next' by (intro evolves_files [where f = f]) (auto simp: sys_inv_def)
  show "w_db w' = w_db w" "is_ok x \<Longrightarrow> blob_at w' = (blob_at w)(b := None)" "\<not> is_ok x \<Longrightarrow> blob_at w' = blob_at w"
    using law f(2) by (simp_all add: blob_at_def)
qed

section \<open>A task\<close>

definition att_named :: "attachment_input \<Rightarrow> string \<Rightarrow> string \<Rightarrow> bool" where
  "att_named att fn ct \<longleftrightarrow>
     (case att of InlineInput f c _ \<Rightarrow> fn = f \<and> ct = c | StreamInput f c _ \<Rightarrow> fn = f \<and> ct = c | RemoteInput f c _ \<Rightarrow> fn = f \<and> ct = c)"

text \<open>The bytes of a remote attachment are whatever was fetched.\<close>

definition att_content :: "attachment_input \<Rightarrow> byte list \<Rightarrow> bool" where
  "att_content att bs \<longleftrightarrow>
     (case att of InlineInput _ _ c \<Rightarrow> bs = c | StreamInput _ _ rd \<Rightarrow> reader_error rd = None \<and> bs = reader_bytes rd | RemoteInput _ _ _ \<Rightarrow> True)"

lemma ref_matches_content:
  "ref_matches (sys_view w) att r \<longleftrightarrow> att_named att (ar_filename r) (ar_content_type r) \<and> (\<exists>bs. blob_at w (ar_blob r) = Some bs \<and> att_content att bs)"
  by (cases att) (auto simp: ref_matches_def att_named_def att_content_def sys_view_def blob_at_def)

definition read_from :: "world \<Rightarrow> attachment_ref \<Rightarrow> resolved_attachment \<Rightarrow> bool" where
  "read_from w a ra \<longleftrightarrow> ra_filename ra = ar_filename a \<and> ra_content_type ra = ar_content_type a \<and> blob_at w (ar_blob a) = Some (ra_bytes ra)"

text \<open>The message made for an envelope from the blobs of a world.\<close>

definition message_for :: "stages \<Rightarrow> world \<Rightarrow> envelope \<Rightarrow> outbound_email \<Rightarrow> bool" where
  "message_for S w env m \<longleftrightarrow>
     (\<exists>resolved interpolated rendered atts. st_resolve S (env_body env) = Inr resolved \<and>
        st_interpolate S resolved (env_variables env) = Inr interpolated \<and> st_render S interpolated = Inr rendered \<and>
        list_all2 (read_from w) (env_attachments env) atts \<and> m = outbound_of env rendered atts)"

lemma resolve_evolves:
  assumes "resolve_attachments (\<lambda>b. on_world (on_files (fsw_get b))) atts acc (w, ms) = (x, w', ms')"
    and "sys_inv w" "\<forall>a\<in>set atts. fs_own (ar_blob a)"
  shows "evolves w w' \<and> ms' = ms \<and> blob_at w' = blob_at w \<and> w_db w' = w_db w \<and>
    (\<forall>ras. x = Inr ras \<longrightarrow> (\<exists>new. ras = acc @ new \<and> list_all2 (read_from w) atts new))"
  using assms
proof (induction atts arbitrary: acc w)
  case Nil
  then show ?case by (auto intro: evolves_refl)
next
  case (Cons a atts)
  obtain y w1 where g: "on_files (fsw_get (ar_blob a)) w = (y, w1)" by fastforce
  then have g': "on_world (on_files (fsw_get (ar_blob a))) (w, ms) = (y, w1, ms)" by (simp add: on_world_run)
  note get = evolves_get [OF Cons.prems(2) _ g]
  have own: "fs_own (ar_blob a)" "\<forall>a\<in>set atts. fs_own (ar_blob a)" using Cons.prems(3) by simp_all
  show ?case
  proof (cases y)
    case (Inl e)
    with Cons.prems(1) g' have "x = Inl (ProcAttachment e)" "w' = w1" "ms' = ms" by simp_all
    with get(1,3,4) [OF own(1)] show ?thesis by simp
  next
    case (Inr rd)
    with get(2) [OF own(1)] obtain bs where bs: "blob_at w (ar_blob a) = Some bs" "rd = cursor bs" by auto
    let ?ra = "\<lparr>ra_filename = ar_filename a, ra_content_type = ar_content_type a, ra_bytes = bs\<rparr>"
    have "resolve_attachments (\<lambda>b. on_world (on_files (fsw_get b))) atts (acc @ [?ra]) (w1, ms) = (x, w', ms')"
      using Cons.prems(1) g' Inr bs(2) by simp
    note IH = Cons.IH [OF this evolves_inv [OF get(1) [OF own(1)]] own(2)]
    have "read_from w a ?ra" using bs(1) by (simp add: read_from_def)
    moreover have "read_from w1 = read_from w" using get(3) [OF own(1)] by (simp add: read_from_def fun_eq_iff)
    ultimately show ?thesis
      using IH get(1,3,4) [OF own(1)] evolves_trans [of w w1 w'] by fastforce
  qed
qed

lemma process_evolves:
  assumes "sys_process S env (w, ms) = (x, w', ms')" "sys_inv w" "\<forall>a\<in>set (env_attachments env). fs_own (ar_blob a)"
  shows "evolves w w' \<and> blob_at w' = blob_at w \<and> w_db w' = w_db w \<and>
    (ms' = ms \<and> \<not> is_ok x \<or> (\<exists>m. message_for S w env m \<and> ms' = ms @ [m] \<and> x = map_err ProcSend (st_send S m)))"
proof -
  note refl = evolves_refl [OF assms(2)]
  show ?thesis
  proof (cases "st_resolve S (env_body env)")
    case 1: (Inr resolved)
    show ?thesis
    proof (cases "st_interpolate S resolved (env_variables env)")
      case 2: (Inr interpolated)
      show ?thesis
      proof (cases "st_render S interpolated")
        case 3: (Inr rendered)
        obtain y w1 ms1 where r: "resolve_attachments (\<lambda>b. on_world (on_files (fsw_get b))) (env_attachments env) [] (w, ms) = (y, w1, ms1)"
          by (rule prod_cases3)
        note res = resolve_evolves [OF r assms(2,3)]
        show ?thesis
        proof (cases y)
          case (Inl e)
          with assms(1) 1 2 3 r have "x = Inl e" "w' = w1" "ms' = ms1"
            by (auto simp: sys_process_def process_execute_def and_then_def map_err_st_def)
          with res show ?thesis by simp
        next
          case (Inr ras)
          let ?m = "outbound_of env rendered ras"
          have "x = map_err ProcSend (st_send S ?m)" "w' = w1" "ms' = ms1 @ [?m]"
            using assms(1) 1 2 3 r Inr by (auto simp: sys_process_def process_execute_def and_then_def map_err_st_def)
          moreover have "message_for S w env ?m" using res 1 2 3 Inr by (auto simp: message_for_def)
          ultimately show ?thesis using res by blast
        qed
      qed (use assms(1) 1 2 refl in \<open>auto simp: sys_process_def process_execute_def and_then_def map_err_st_def\<close>)
    qed (use assms(1) 1 refl in \<open>auto simp: sys_process_def process_execute_def and_then_def map_err_st_def\<close>)
  qed (use assms(1) refl in \<open>auto simp: sys_process_def process_execute_def and_then_def map_err_st_def\<close>)
qed

text \<open>The blobs of a list belong to no other queued email.\<close>

definition isolated :: "world \<Rightarrow> email_id \<Rightarrow> attachment_ref list \<Rightarrow> bool" where
  "isolated w i refs \<longleftrightarrow> (\<forall>k\<in>jobs w. k \<noteq> i \<longrightarrow> blobs_of refs \<inter> blobs_of (refs_of w k) = {})"

text \<open>The entry behind the token is the email's, and its only one.\<close>

definition holds :: "world \<Rightarrow> email_id \<Rightarrow> ack_token \<Rightarrow> bool" where
  "holds w i tok \<longleftrightarrow> (\<forall>(u, k)\<in>set (entry_pairs w). k = i \<longleftrightarrow> AckToken (uuid_bytes u) = tok)"

lemma evolves_refs: "evolves w w' \<Longrightarrow> k \<in> jobs w' \<Longrightarrow> refs_of w' k = refs_of w k"
  by (simp add: evolves_def refs_of_def)

lemma evolves_isolated: "evolves w w' \<Longrightarrow> isolated w i refs \<Longrightarrow> isolated w' i refs"
  using evolves_jobs evolves_refs by (fastforce simp: isolated_def)

lemma subseq_set: "subseq xs ys \<Longrightarrow> set xs \<subseteq> set ys"
  by (metis subseq_conv_nths set_nths_subset)

lemma evolves_holds: "evolves w w' \<Longrightarrow> holds w i tok \<Longrightarrow> holds w' i tok"
  using subseq_set by (fastforce simp: holds_def evolves_def)

lemma ack_leaves:
  assumes "holds w i tok" "db_queue (w_db w') = filter (\<lambda>r. row_token r \<noteq> tok) (db_queue (w_db w))"
  shows "i \<notin> jobs w'" "jobs w \<subseteq> insert i (jobs w')"
proof -
  have tok: "qr_email r = i \<longleftrightarrow> row_token r = tok" if "r \<in> set (db_queue (w_db w))" for r
    using assms(1) that by (auto simp: holds_def entry_pairs_def row_token_def)
  show "i \<notin> jobs w'" "jobs w \<subseteq> insert i (jobs w')" using assms(2) tok by (auto simp: jobs_def)
qed

lemma delete_sent_evolves:
  assumes "delete_sent_blobs (sys_worker S) refs (w, ms) = (w', ms')" "sys_inv w" "i \<notin> jobs w" "isolated w i refs"
    and "\<forall>a\<in>set refs. fs_own (ar_blob a)"
  shows "evolves w w' \<and> ms' = ms \<and> w_db w' = w_db w"
  using assms
proof (induction refs arbitrary: w)
  case Nil
  then show ?case by (auto intro: evolves_refl)
next
  case (Cons a refs)
  obtain x w1 where d: "sp_delete_blob (sys_ports no_fetch) (ar_blob a) w = (x, w1)" by fastforce
  have free: "ar_blob a \<notin> blobs_of (refs_of w k)" if "k \<in> jobs w" for k
  proof -
    have "k \<noteq> i" using that Cons.prems(3) by blast
    then have "blobs_of (a # refs) \<inter> blobs_of (refs_of w k) = {}" using Cons.prems(4) that by (simp add: isolated_def)
    then show ?thesis by (auto simp: blobs_of_def)
  qed
  have own: "fs_own (ar_blob a)" using Cons.prems(5) by simp
  note del = evolves_delete_blob [OF Cons.prems(2) own d free]
  have "delete_sent_blobs (sys_worker S) refs (w1, ms) = (w', ms')"
    using Cons.prems(1) d by (simp add: sys_worker_def on_world_def)
  moreover have "isolated w1 i refs"
    using evolves_isolated [OF del(1) Cons.prems(4)] by (auto simp: isolated_def blobs_of_def)
  moreover have "i \<notin> jobs w1" using Cons.prems(3) del(2) by (simp add: jobs_def)
  ultimately have "evolves w1 w' \<and> ms' = ms \<and> w_db w' = w_db w1"
    using Cons.IH evolves_inv [OF del(1)] Cons.prems(5) by simp
  with del(1,2) show ?case using evolves_trans by auto
qed

lemma publish_step:
  assumes "sys_inv w" "event_email_id ev \<notin> jobs w \<or> \<not> terminal_type (event_type ev)"
  shows "\<exists>x w'. wk_publish (sys_worker S) ev (w, ms) = (x, w', ms) \<and> evolves w w' \<and> blob_at w' = blob_at w \<and> jobs w' = jobs w"
proof -
  obtain x w' where p: "sp_publish (sys_ports no_fetch) ev w = (x, w')" by fastforce
  then show ?thesis
    using evolves_publish [OF assms(1) p assms(2)] publish_blobs [OF p] publish_jobs [OF p] by (simp add: sys_worker_def on_world_run)
qed

lemma ack_step:
  assumes "sys_inv w" "holds w i token"
  shows "\<exists>z w'. wk_ack (sys_worker S) token (w, ms) = (z, w', ms) \<and> evolves w w' \<and> (is_ok z \<longrightarrow> i \<notin> jobs w') \<and>
    jobs w \<subseteq> insert i (jobs w')"
proof -
  obtain z w' where ack: "on_db (sqlite_ack token) w = (z, w')" by fastforce
  note ev = evolves_ack [OF assms(1) ack]
  have "i \<notin> jobs w' \<and> jobs w \<subseteq> insert i (jobs w')" if "is_ok z" using ack_leaves [OF assms(2) ev(2) [OF that]] by blast
  with ev(1,3) ack show ?thesis by (cases "is_ok z") (auto simp: sys_worker_def on_world_run)
qed

text \<open>After the delivery: acknowledge, forget the references, delete the blobs, publish.\<close>

lemma success_evolves:
  assumes "(case wk_ack (sys_worker S) token (w, ms) of
        (Inl _, s) \<Rightarrow> s
      | (Inr _, s) \<Rightarrow>
          (let s4 = snd (wk_set_attachments (sys_worker S) i [] s); s5 = delete_sent_blobs (sys_worker S) refs s4
           in snd (wk_publish (sys_worker S) (Sent i n cid) s5)))
      = (w', ms')"
    and "sys_inv w" "\<forall>a\<in>set refs. fs_own (ar_blob a)" "isolated w i refs" "holds w i token"
  shows "evolves w w' \<and> ms' = ms \<and> jobs w \<subseteq> insert i (jobs w') \<and> (is_ok (fst (wk_ack (sys_worker S) token (w, ms))) \<longrightarrow> i \<notin> jobs w')"
proof -
  obtain z w1 where 1: "wk_ack (sys_worker S) token (w, ms) = (z, w1, ms)" "evolves w w1" "is_ok z \<longrightarrow> i \<notin> jobs w1"
    "jobs w \<subseteq> insert i (jobs w1)"
    using ack_step [OF assms(2,5)] by blast
  show ?thesis
  proof (cases z)
    case (Inl e)
    with assms(1) 1 show ?thesis by simp
  next
    case (Inr u)
    obtain x2 w2 where set: "sp_set_attachments (sys_ports no_fetch) i [] w1 = (x2, w2)" by fastforce
    have n1: "i \<notin> jobs w1" using 1(3) Inr by simp
    note 2 = evolves_set [OF evolves_inv [OF 1(2)] set n1]
    have w2: "evolves w w2" by (rule evolves_trans [OF 1(2) 2])
    have n2: "i \<notin> jobs w2" using evolves_jobs [OF 2] n1 by blast
    obtain w3 ms3 where 3: "delete_sent_blobs (sys_worker S) refs (w2, ms) = (w3, ms3)" by fastforce
    note del = delete_sent_evolves [OF 3 evolves_inv [OF w2] n2 evolves_isolated [OF w2 assms(4)] assms(3)]
    have n3: "i \<notin> jobs w3" using del evolves_jobs n2 by blast
    obtain x4 w4 where 4: "wk_publish (sys_worker S) (Sent i n cid) (w3, ms) = (x4, w4, ms)" "evolves w3 w4" "jobs w4 = jobs w3"
      using publish_step [of w3 "Sent i n cid" S ms] n3 del evolves_inv by auto
    have "wk_set_attachments (sys_worker S) i [] (w1, ms) = (x2, w2, ms)" using set by (simp add: sys_worker_def on_world_run)
    with assms(1) 1(1) Inr 3 4(1) del have "w' = w4" "ms' = ms" by simp_all
    moreover have "jobs w2 = jobs w1" using set_jobs [OF evolves_inv [OF 1(2)], of no_fetch i "[]"] set by simp
    moreover have "jobs w3 = jobs w2" using del by (simp add: jobs_def)
    ultimately show ?thesis using evolves_trans [OF w2 evolves_trans [OF conjunct1 [OF del] 4(2)]] 1(4) 4(3) n3 by simp
  qed
qed

text \<open>After a failure: give up with an acknowledgement, or hand the email back with a delay.\<close>

lemma failure_evolves:
  assumes "(if final then
        (case wk_ack (sys_worker S) token (w, ms) of
           (Inl _, s) \<Rightarrow> s | (Inr _, s) \<Rightarrow> snd (wk_publish (sys_worker S) (Failed i attempt reason cls sender cid) s))
      else
        (case backoff attempt of
           None \<Rightarrow> (w, ms)
         | Some secs \<Rightarrow>
             (case wk_nack (sys_worker S) token (1000 * secs) (w, ms) of
                (Inl _, s) \<Rightarrow> s | (Inr _, s) \<Rightarrow> snd (wk_publish (sys_worker S) (Retrying i attempt reason cls sender cid) s))))
      = (w', ms')"
    and "sys_inv w" "holds w i token"
  shows "evolves w w' \<and> ms' = ms \<and> jobs w \<subseteq> insert i (jobs w') \<and> (\<not> final \<longrightarrow> jobs w' = jobs w)"
proof (cases final)
  case True
  obtain z w1 where 1: "wk_ack (sys_worker S) token (w, ms) = (z, w1, ms)" "evolves w w1" "is_ok z \<longrightarrow> i \<notin> jobs w1"
    "jobs w \<subseteq> insert i (jobs w1)"
    using ack_step [OF assms(2,3)] by blast
  let ?ev = "Failed i attempt reason cls sender cid"
  show ?thesis
  proof (cases z)
    case (Inr u)
    obtain x2 w2 where 2: "wk_publish (sys_worker S) ?ev (w1, ms) = (x2, w2, ms)" "evolves w1 w2" "jobs w2 = jobs w1"
      using publish_step [OF evolves_inv [OF 1(2)], of ?ev S ms] 1(3) Inr by auto
    with assms(1) 1(1) Inr True have "w' = w2" "ms' = ms" by simp_all
    with evolves_trans [OF 1(2) 2(2)] 1(4) 2(3) True show ?thesis by simp
  qed (use assms(1) 1 True in simp)
next
  case False
  show ?thesis
  proof (cases "backoff attempt")
    case (Some secs)
    obtain z w1 where n: "on_db (sqlite_nack (w_now w) token (1000 * secs)) w = (z, w1)" by fastforce
    then have 1: "wk_nack (sys_worker S) token (1000 * secs) (w, ms) = (z, w1, ms)" by (simp add: sys_worker_def on_world_run)
    note ev = evolves_nack [OF assms(2) n]
    let ?ev = "Retrying i attempt reason cls sender cid"
    show ?thesis
    proof (cases z)
      case (Inr u)
      obtain x2 w2 where 2: "wk_publish (sys_worker S) ?ev (w1, ms) = (x2, w2, ms)" "evolves w1 w2" "jobs w2 = jobs w1"
        using publish_step [OF evolves_inv [OF conjunct1 [OF ev]], of ?ev S ms] by (auto simp: terminal_type_def)
      with assms(1) 1 Inr False Some have "w' = w2" "ms' = ms" by simp_all
      with evolves_trans [OF conjunct1 [OF ev] 2(2)] 2(3) ev show ?thesis by auto
    qed (use assms(1) 1 False Some ev in auto)
  qed (use assms(1,2) False evolves_refl in auto)
qed

lemma message_blobs: "blob_at w1 = blob_at w \<Longrightarrow> message_for S w1 = message_for S w"
proof -
  assume "blob_at w1 = blob_at w"
  then have "read_from w1 = read_from w" by (simp add: read_from_def fun_eq_iff)
  then show ?thesis by (intro ext) (simp only: message_for_def)
qed

text \<open>The result of a task's delivery.\<close>

definition delivery :: "stages \<Rightarrow> email_id \<Rightarrow> envelope \<Rightarrow> nat \<Rightarrow> world \<times> outbound_email list \<Rightarrow> process_error + sender_name" where
  "delivery S i env attempt s =
     fst (wk_process (sys_worker S) env (snd (wk_publish (sys_worker S) (Sending i attempt (env_correlation_id env)) s)))"

lemma process_one_evolves:
  assumes "process_one (sys_worker S) i env attempt token (w, ms) = (w', ms')" "sys_inv w"
    and "\<forall>a\<in>set (env_attachments env). fs_own (ar_blob a)" "isolated w i (env_attachments env)" "holds w i token"
  shows "evolves w w' \<and> jobs w \<subseteq> insert i (jobs w') \<and>
    (ms' = ms \<and> \<not> is_ok (delivery S i env attempt (w, ms)) \<or>
     (\<exists>m. message_for S w env m \<and> ms' = ms @ [m] \<and> delivery S i env attempt (w, ms) = map_err ProcSend (st_send S m))) \<and>
    (i \<in> jobs w \<longrightarrow> i \<notin> jobs w' \<longrightarrow> (case delivery S i env attempt (w, ms) of Inr n \<Rightarrow> True | Inl e \<Rightarrow> is_terminal e attempt))"
proof -
  let ?cid = "env_correlation_id env"
  obtain x1 w1 where 1: "wk_publish (sys_worker S) (Sending i attempt ?cid) (w, ms) = (x1, w1, ms)" "evolves w w1"
      "blob_at w1 = blob_at w" "jobs w1 = jobs w"
    using publish_step [OF assms(2), of "Sending i attempt ?cid" S ms] by (auto simp: terminal_type_def)
  obtain y w2 ms2 where 2: "sys_process S env (w1, ms) = (y, w2, ms2)" by (rule prod_cases3)
  note pr = process_evolves [OF 2 evolves_inv [OF 1(2)] assms(3)]
  have w2: "evolves w w2" using evolves_trans [OF 1(2)] pr by blast
  have jobs: "jobs w2 = jobs w" using pr 1(4) by (simp add: jobs_def)
  note at = evolves_inv [OF w2] evolves_isolated [OF w2 assms(4)] evolves_holds [OF w2 assms(5)]
  have start: "wk_process (sys_worker S) env (snd (wk_publish (sys_worker S) (Sending i attempt ?cid) (w, ms))) = (y, w2, ms2)"
    using 1(1) 2 by (simp add: sys_worker_def)
  then have y: "delivery S i env attempt (w, ms) = y" by (simp add: delivery_def)
  have "evolves w2 w' \<and> ms' = ms2 \<and> jobs w2 \<subseteq> insert i (jobs w') \<and>
      (jobs w' = jobs w2 \<or> (case y of Inr n \<Rightarrow> True | Inl e \<Rightarrow> is_terminal e attempt))"
  proof (cases y)
    case (Inr n)
    have "evolves w2 w' \<and> ms' = ms2 \<and> jobs w2 \<subseteq> insert i (jobs w') \<and>
        (is_ok (fst (wk_ack (sys_worker S) token (w2, ms2))) \<longrightarrow> i \<notin> jobs w')"
      by (rule success_evolves [OF _ at(1) assms(3) at(2,3), where S = S and ms = ms2 and n = n and cid = ?cid])
        (use assms(1) start Inr in \<open>simp add: process_one_def Let_def\<close>)
    with Inr show ?thesis by simp
  next
    case (Inl e)
    have "evolves w2 w' \<and> ms' = ms2 \<and> jobs w2 \<subseteq> insert i (jobs w') \<and> (\<not> is_terminal e attempt \<longrightarrow> jobs w' = jobs w2)"
      by (rule failure_evolves [OF _ at(1,3), where ms = ms2 and S = S and attempt = attempt and final = "is_terminal e attempt"
          and reason = "process_error_message e" and cls = "process_error_class e" and sender = "process_error_sender_name e" and cid = ?cid])
        (use assms(1) start Inl in \<open>simp add: process_one_def Let_def\<close>)
    with Inl show ?thesis by auto
  qed
  moreover have "ms2 = ms \<and> \<not> is_ok y \<or> (\<exists>m. message_for S w env m \<and> ms2 = ms @ [m] \<and> y = map_err ProcSend (st_send S m))"
    using pr message_blobs [OF 1(3), of S] by auto
  ultimately show ?thesis unfolding y using evolves_trans [OF w2] jobs by auto
qed

section \<open>A submission\<close>

context submit_laws
begin

lemma ports_keep_inv:
  "inv w \<Longrightarrow> env_attachments env = [] \<Longrightarrow> body_ok (env_body env) \<Longrightarrow> inv (snd (sp_save P i env w))"
  "inv w \<Longrightarrow> \<forall>r\<in>set refs. ar_size_bytes r \<le> u64_max \<Longrightarrow> inv (snd (sp_set_attachments P i refs w))"
  "inv w \<Longrightarrow> inv (snd (sp_delete_email P i w))"
  "inv w \<Longrightarrow> inv (snd (sp_enqueue P i env w))"
  "inv w \<Longrightarrow> inv (snd (sp_publish P ev w))"
  "inv w \<Longrightarrow> inv (snd (sp_put P rd w))"
  "inv w \<Longrightarrow> own b \<Longrightarrow> inv (snd (sp_delete_blob P b w))"
  "inv w \<Longrightarrow> inv (snd (sp_fetch P u w))"
proof -
  show "inv w \<Longrightarrow> env_attachments env = [] \<Longrightarrow> body_ok (env_body env) \<Longrightarrow> inv (snd (sp_save P i env w))"
    using save_created [of w env i] save_duplicate [of w env i] save_error [of w env i]
    by (metis prod.collapse sum.exhaust save_result.exhaust)
  show "inv w \<Longrightarrow> \<forall>r\<in>set refs. ar_size_bytes r \<le> u64_max \<Longrightarrow> inv (snd (sp_set_attachments P i refs w))"
    using set_ok [of w refs i] set_error [of w refs i] by (metis prod.collapse sum.exhaust)
  show "inv w \<Longrightarrow> inv (snd (sp_delete_email P i w))" using delete_ok delete_error by (metis prod.collapse sum.exhaust)
  show "inv w \<Longrightarrow> inv (snd (sp_enqueue P i env w))" using enqueue_ok enqueue_error by (metis prod.collapse sum.exhaust)
  show "inv w \<Longrightarrow> inv (snd (sp_publish P ev w))" using publish_any by (metis prod.collapse)
  show "inv w \<Longrightarrow> inv (snd (sp_put P rd w))" using put_ok put_error by (metis prod.collapse sum.exhaust)
  show "inv w \<Longrightarrow> own b \<Longrightarrow> inv (snd (sp_delete_blob P b w))" using delete_blob_ok delete_blob_error by (metis prod.collapse sum.exhaust)
  show "inv w \<Longrightarrow> inv (snd (sp_fetch P u w))" using fetch_any by (metis prod.collapse)
qed

text \<open>A property of the world that the saved row has and every later call for the same email keeps holds at the end.\<close>

lemma submit_keeps:
  assumes inv: "inv w" and body: "body_ok (si_body input)"
    and saved: "Q (snd (sp_save P i (envelope_of_input input []) w))"
    and set: "\<And>refs w. inv w \<Longrightarrow> Q w \<Longrightarrow> \<forall>r\<in>set refs. own (ar_blob r) \<and> ar_size_bytes r \<le> u64_max \<Longrightarrow> Q (snd (sp_set_attachments P i refs w))"
    and del: "\<And>w. inv w \<Longrightarrow> Q w \<Longrightarrow> Q (snd (sp_delete_email P i w))"
    and enq: "\<And>env w. inv w \<Longrightarrow> Q w \<Longrightarrow> Q (snd (sp_enqueue P i env w))"
    and pub: "\<And>w. inv w \<Longrightarrow> Q w \<Longrightarrow> Q (snd (sp_publish P (Queued i (si_correlation_id input)) w))"
    and put: "\<And>rd w. inv w \<Longrightarrow> Q w \<Longrightarrow> Q (snd (sp_put P rd w))"
    and delb: "\<And>b w. inv w \<Longrightarrow> Q w \<Longrightarrow> own b \<Longrightarrow> Q (snd (sp_delete_blob P b w))"
    and fetch: "\<And>u w. inv w \<Longrightarrow> Q w \<Longrightarrow> Q (snd (sp_fetch P u w))"
  shows "Q (snd (submit_execute P i input w))"
proof -
  let ?fit = "\<lambda>refs. \<forall>r\<in>set refs. own (ar_blob r) \<and> ar_size_bytes r \<le> u64_max"
  have blobs: "inv (delete_blobs P refs w) \<and> Q (delete_blobs P refs w)" if "inv w" "Q w" "?fit refs" for refs w
    using that by (induction refs arbitrary: w) (simp_all add: ports_keep_inv(7) delb)
  have undo: "Q (compensate P i refs w)" if "inv w" "Q w" "?fit refs" for refs w
    using blobs [OF that] del by (simp add: compensate_def)
  have written: "case write_attachments P i atts refs w of (Inl _, w') \<Rightarrow> Q w' | (Inr refs', w') \<Rightarrow> inv w' \<and> Q w' \<and> ?fit refs'"
    if "inv w" "Q w" "?fit refs" for atts refs w
    using that
  proof (induction atts arbitrary: refs w)
    case (Cons att atts)
    obtain x w1 where o: "open_input P att w = (x, w1)" by fastforce
    have w1: "inv w1" "Q w1"
      using o Cons.prems(1,2) ports_keep_inv(8) fetch
      by (cases att; auto simp: open_input_def split: prod.splits sum.splits dest: fetch_any; metis snd_conv)+
    show ?case
    proof (cases x)
      case (Inl e)
      with o undo [OF w1 Cons.prems(3)] show ?thesis by simp
    next
      case (Inr t)
      obtain fn ct rd where t: "t = (fn, ct, rd)" by (cases t)
      obtain y w2 where p: "sp_put P rd w1 = (y, w2)" by fastforce
      have w2: "inv w2" "Q w2" using ports_keep_inv(6) [OF w1(1), of rd] put [OF w1, of rd] p by simp_all
      show ?thesis
      proof (cases y)
        case (Inl e)
        with o Inr t p undo [OF w2 Cons.prems(3)] show ?thesis by simp
      next
        case ok: (Inr r)
        let ?refs = "refs @ [\<lparr>ar_filename = fn, ar_content_type = ct, ar_size_bytes = pr_size_bytes r, ar_blob = pr_blob r\<rparr>]"
        have "?fit ?refs" using Cons.prems(3) put_ok [OF w1(1) p [unfolded ok]] by auto
        with Cons.IH [OF w2 this] o Inr t p ok show ?thesis by simp
      qed
    qed
  qed simp
  obtain sr w1 where s: "sp_save P i (envelope_of_input input []) w = (sr, w1)" by fastforce
  have w1: "inv w1" "Q w1"
    using s saved ports_keep_inv(1) [OF inv, of "envelope_of_input input []" i] body by (simp_all add: envelope_of_input_def)
  consider e where "sr = Inl e" | j where "sr = Inr (Duplicate j)" | j where "sr = Inr (Created j)"
    by (metis sum.exhaust save_result.exhaust)
  then show ?thesis
  proof cases
    case 3
    obtain x w2 where a: "write_attachments P i (si_attachments input) [] w1 = (x, w2)" by fastforce
    note wr = written [OF w1, of "[]" "si_attachments input", unfolded a]
    show ?thesis
    proof (cases x)
      case (Inl e)
      with s 3 a wr show ?thesis by (simp add: submit_execute_def)
    next
      case (Inr refs)
      with wr have w2: "inv w2" "Q w2" "?fit refs" by simp_all
      obtain y w3 where r: "record_refs P i refs w2 = (y, w3)" by fastforce
      have w3: "inv w3" "Q w3"
        using r w2 set [OF w2] ports_keep_inv(2) [OF w2(1), of refs i] by (auto simp: record_refs_def split: if_splits)
      show ?thesis
      proof (cases y)
        case (Inl e)
        with s 3 a Inr r undo [OF w3 w2(3)] show ?thesis by (simp add: submit_execute_def)
      next
        case ok: (Inr u)
        obtain z w4 where e: "sp_enqueue P i (envelope_of_input input refs) w3 = (z, w4)" by fastforce
        have w4: "inv w4" "Q w4" using e ports_keep_inv(4) [OF w3(1), of i] enq [OF w3] by (metis snd_conv)+
        show ?thesis
        proof (cases z)
          case (Inl e')
          with s 3 a Inr r ok e undo [OF w4 w2(3)] show ?thesis by (simp add: submit_execute_def)
        next
          case sent: (Inr u')
          with s 3 a Inr r ok e pub [OF w4] show ?thesis by (simp add: submit_execute_def)
        qed
      qed
    qed
  qed (use s w1 in \<open>simp_all add: submit_execute_def\<close>)
qed

text \<open>What the submission owns may be narrowed to what its own calls to \<open>put\<close> give.\<close>

lemma narrow_own:
  assumes "\<And>w rd r w'. inv w \<Longrightarrow> sp_put P rd w = (Inr r, w') \<Longrightarrow> own' (pr_blob r)" "\<And>b. own' b \<Longrightarrow> own b"
  shows "submit_laws P view inv own'"
proof (unfold_locales, goal_cases)
  case (11 w rd r w')
  then show ?case using put_ok [of w rd r w'] assms(1) [of w rd r w'] by simp
next
  case (13 w b u w')
  then show ?case using delete_blob_ok [of w b u w'] assms(2) [of b] by simp
next
  case (14 w b e w')
  then show ?case using delete_blob_error [of w b e w'] assms(2) [of b] by simp
qed (fact save_created save_duplicate save_error set_ok set_error delete_ok delete_error enqueue_ok enqueue_error publish_any
    put_error integrity fetch_any)+

end

lemma fw_next_ports:
  "fw_next (w_files (snd (sp_save (sys_ports fetch) i env w))) = fw_next (w_files w)"
  "fw_next (w_files (snd (sp_set_attachments (sys_ports fetch) i refs w))) = fw_next (w_files w)"
  "fw_next (w_files (snd (sp_delete_email (sys_ports fetch) i w))) = fw_next (w_files w)"
  "fw_next (w_files w) \<le> fw_next (w_files (snd (sp_enqueue (sys_ports fetch) i env w)))"
  "fw_next (w_files w) \<le> fw_next (w_files (snd (sp_publish (sys_ports fetch) ev w)))"
  "fw_next (w_files w) \<le> fw_next (w_files (snd (sp_put (sys_ports fetch) rd w)))"
  "fw_next (w_files (snd (sp_delete_blob (sys_ports fetch) b w))) = fw_next (w_files w)"
  "fw_next (w_files (snd (sp_fetch (sys_ports fetch) u w))) = fw_next (w_files w)"
  by (auto simp: sys_ports_def on_db_def on_files_def with_id_def fsw_put_def fsw_delete_def Let_def split: prod.split)

definition own_from :: "uuid \<Rightarrow> blob_ref \<Rightarrow> bool" where
  "own_from n b \<longleftrightarrow> fs_own b \<and> future n b"

lemma put_future:
  assumes "n \<le> fw_next (w_files w)" "sp_put (sys_ports fetch) rd w = (Inr r, w')"
  shows "future n (pr_blob r)"
proof -
  obtain f where f: "fsw_put rd (w_files w) = (Inr r, f)" using assms(2) by (auto simp: sys_ports_def on_files_run)
  then have "uuid_ok (fw_next (w_files w) + 1)" and key: "blob_key (pr_blob r) = uuid_simple (fw_next (w_files w))"
    by (auto simp: fsw_put_def fs_put_def split: if_splits prod.splits sum.splits)
  then have "uuid_ok (fw_next (w_files w))" by (simp add: uuid_ok_def)
  with key assms(1) show ?thesis by (auto simp: future_def)
qed

interpretation fresh: submit_laws "sys_ports fetch" sys_view "\<lambda>w. sys_inv w \<and> n \<le> fw_next (w_files w)" "own_from n" for fetch n
proof (rule submit_laws.narrow_own)
  show "submit_laws (sys_ports fetch) sys_view (\<lambda>w. sys_inv w \<and> n \<le> fw_next (w_files w)) fs_own"
    by (rule stack.strengthen) (auto simp: fw_next_ports intro: order_trans [OF _ fw_next_ports(4)] order_trans [OF _ fw_next_ports(5)] order_trans [OF _ fw_next_ports(6)])
  show "own_from n (pr_blob r)" if "sys_inv w \<and> n \<le> fw_next (w_files w)" "sp_put (sys_ports fetch) rd w = (Inr r, w')" for w rd r w'
    using stack.put_ok [OF conjunct1 [OF that(1)] that(2)] put_future [OF conjunct2 [OF that(1)] that(2)] by (simp add: own_from_def)
  show "own_from n b \<Longrightarrow> fs_own b" for b by (simp add: own_from_def)
qed

text \<open>What a submission of \<open>input\<close> under the id \<open>i\<close> may have done so far.\<close>

definition saved_row :: "email_id \<Rightarrow> submit_email_input \<Rightarrow> email_row \<Rightarrow> bool" where
  "saved_row i input r \<longleftrightarrow> (\<exists>t refs. (\<forall>a\<in>set refs. size_fits a) \<and>
     r = (email_row_of t i (envelope_of_input input []))\<lparr>er_body := ser_body_column (si_body input) refs\<rparr>)"

definition submitting :: "world \<Rightarrow> email_id \<Rightarrow> submit_email_input \<Rightarrow> world \<Rightarrow> bool" where
  "submitting w0 i input w \<longleftrightarrow>
     (\<exists>es. entry_pairs w = entry_pairs w0 @ es \<and>
        (\<forall>(u, k)\<in>set es. k = i \<and> fw_next (w_files w0) \<le> u \<and> u < fw_next (w_files w))) \<and>
     (\<forall>k. k \<noteq> i \<longrightarrow> find_email k (w_db w) = find_email k (w_db w0)) \<and>
     (\<forall>r. find_email i (w_db w) = Some r \<longrightarrow> saved_row i input r) \<and>
     (\<forall>b. \<not> future (fw_next (w_files w0)) b \<longrightarrow> blob_at w b = blob_at w0 b) \<and>
     (\<forall>v\<in>set (db_events (w_db w)). v \<in> set (db_events (w_db w0)) \<or> \<not> terminal_type (vr_type v))"

lemma submitting_db:
  assumes "submitting w0 i input w" "db_queue d = db_queue (w_db w)"
    and "\<And>k. k \<noteq> i \<Longrightarrow> find_email k d = find_email k (w_db w)"
    and "\<And>r. find_email i d = Some r \<Longrightarrow> saved_row i input r"
    and "\<And>v. v \<in> set (db_events d) \<Longrightarrow> v \<in> set (db_events (w_db w)) \<or> \<not> terminal_type (vr_type v)"
  shows "submitting w0 i input (w\<lparr>w_db := d\<rparr>)"
  using assms unfolding submitting_def entry_pairs_def blob_at_def by auto blast

lemma submitting_same:
  "submitting w0 i input w \<Longrightarrow> same_tables d (w_db w) \<Longrightarrow> submitting w0 i input (w\<lparr>w_db := d\<rparr>)"
  using submitting_db [of w0 i input w d] same_tables_find_email [of d "w_db w"]
  by (auto simp: same_tables_def submitting_def)

lemma submitting_files:
  assumes "submitting w0 i input w" "fw_next (w_files w) \<le> fw_next f"
    and "\<And>b. \<not> future (fw_next (w_files w0)) b \<Longrightarrow> fs_stored (fw_fs f) b = blob_at w b"
  shows "submitting w0 i input (w\<lparr>w_files := f\<rparr>)"
proof -
  obtain es where "entry_pairs w = entry_pairs w0 @ es"
    "\<forall>(u, k)\<in>set es. k = i \<and> fw_next (w_files w0) \<le> u \<and> u < fw_next (w_files w)"
    using assms(1) by (auto simp: submitting_def)
  then have "\<exists>es. entry_pairs (w\<lparr>w_files := f\<rparr>) = entry_pairs w0 @ es \<and>
      (\<forall>(u, k)\<in>set es. k = i \<and> fw_next (w_files w0) \<le> u \<and> u < fw_next f)"
    using assms(2) by (intro exI [of _ es]) (auto simp: entry_pairs_def)
  with assms show ?thesis by (simp add: submitting_def blob_at_def)
qed

lemma saved_row_refs:
  assumes "saved_row i input r" "body_ok (si_body input)" "\<forall>a\<in>set refs. size_fits a" "de_body_column (er_body r) = Some (src, old)"
  shows "saved_row i input (r\<lparr>er_body := ser_envelope_body src (map attachment_ref_to_dto refs)\<rparr>)"
proof -
  obtain t refs' where r: "\<forall>a\<in>set refs'. size_fits a"
      "r = (email_row_of t i (envelope_of_input input []))\<lparr>er_body := ser_body_column (si_body input) refs'\<rparr>"
    using assms(1) by (auto simp: saved_row_def)
  then have "src = body_source_to_dto (si_body input)" using assms(4) by (simp add: de_ser_body_column)
  then show ?thesis using r(2) assms(3) by (auto simp: saved_row_def ser_body_column_def)
qed

lemma fsw_put_elsewhere:
  assumes "fsw_put rd f = (x, f')" "n \<le> fw_next f" "\<not> future n b"
  shows "fs_stored (fw_fs f') b = fs_stored (fw_fs f) b"
proof (cases "uuid_ok (fw_next f + 1)")
  case False
  with assms(1) show ?thesis by (auto simp: fsw_put_def)
next
  case True
  let ?key = "uuid_simple (fw_next f)"
  obtain y d where p: "fs_put ?key (uuid_simple (fw_next f + 1)) (fw_now f) rd (fw_fs f) = (y, d)" by fastforce
  with assms(1) True have d: "fw_fs f' = d" by (auto simp: fsw_put_def)
  have "uuid_ok (fw_next f)" using True by (simp add: uuid_ok_def)
  then have "blob_key b \<noteq> ?key" using assms(2,3) by (auto simp: future_def)
  moreover have "fs_root d = fs_root (fw_fs f) \<or> (\<exists>e. fs_root d = AList.update ?key e (fs_root (fw_fs f)))"
    using fs_put_effect [OF p] by (cases y) auto
  ultimately show ?thesis unfolding d by (auto simp: fs_stored_def alist_maps)
qed

lemma submitting_save:
  assumes "sys_inv w" "find_email i (w_db w) = None" "sp_save (sys_ports fetch) i (envelope_of_input input []) w = (Inr (Created j), w')"
  shows "submitting w i input w'"
proof -
  let ?env = "envelope_of_input input []"
  obtain d where d: "sqlite_save (w_now w) i ?env (w_db w) = (Inr (Created j), d)" "w' = w\<lparr>w_db := d\<rparr>"
    using assms(3) by (auto simp: sys_ports_def on_db_run)
  let ?row = "email_row_of (w_now w) i ?env"
  have tables: "same_tables d ((w_db w)\<lparr>db_emails := db_emails (w_db w) @ [?row]\<rparr>)" using SqlStore.save_created [OF d(1)] by blast
  have find: "find_email k d = (if k = i then Some ?row else find_email k (w_db w))" for k
    using same_tables_find_email [OF tables, of k] find_email_append [of k "w_db w" ?row] assms(2)
    by (auto simp: email_row_of_def split: option.splits)
  have "saved_row i input ?row"
    by (auto simp: saved_row_def email_row_of_def envelope_of_input_def intro!: exI [of _ "[]"])
  then show ?thesis
    using find tables d(2) by (auto simp: submitting_def entry_pairs_def blob_at_def same_tables_def)
qed

lemma submitting_set:
  assumes "sys_inv w" "submitting w0 i input w" "body_ok (si_body input)" "\<forall>a\<in>set refs. ar_size_bytes a \<le> u64_max"
  shows "submitting w0 i input (snd (sp_set_attachments (sys_ports fetch) i refs w))"
proof -
  obtain x d where d: "sqlite_set_attachments i refs (w_db w) = (x, d)" by fastforce
  then have w': "snd (sp_set_attachments (sys_ports fetch) i refs w) = w\<lparr>w_db := d\<rparr>" by (simp add: sys_ports_def on_db_def)
  have db: "db_inv (w_db w)" using assms(1) by (simp add: sys_inv_def queue_inv_def)
  show ?thesis
  proof (cases x)
    case (Inl e)
    with set_attachments_error d assms(2) w' show ?thesis by (auto intro!: submitting_same)
  next
    case (Inr u)
    obtain r src old where r: "find_email i (w_db w) = Some r" "de_body_column (er_body r) = Some (src, old)"
      "same_tables d (with_refs i refs (w_db w))" using set_attachments_ok [OF db d [unfolded Inr]] by blast
    have "saved_row i input r" using assms(2) r(1) by (simp add: submitting_def)
    with r(2) assms(3,4) have row: "saved_row i input (r\<lparr>er_body := ser_envelope_body src (map attachment_ref_to_dto refs)\<rparr>)"
      by (intro saved_row_refs) (auto simp: size_fits_def)
    have other: "find_email k d = find_email k (w_db w)" if "k \<noteq> i" for k
      using same_tables_find_email [OF r(3), of k] find_email_with_refs [of k i refs "w_db w"] that find_email_Some [of k "w_db w"]
      by (cases "find_email k (w_db w)") auto
    have own: "find_email i d = Some (r\<lparr>er_body := ser_envelope_body src (map attachment_ref_to_dto refs)\<rparr>)"
      using same_tables_find_email [OF r(3), of i] find_email_with_refs [of i i refs "w_db w"] r(1,2) find_email_Some [OF r(1)] by simp
    show ?thesis
      unfolding w' using r(3) own row other
      by (intro submitting_db [OF assms(2)]) (auto simp: same_tables_def with_refs_def)
  qed
qed

lemma submitting_delete:
  assumes "sys_inv w" "submitting w0 i input w"
  shows "submitting w0 i input (snd (sp_delete_email (sys_ports fetch) i w))"
proof -
  obtain x d where d: "sqlite_delete i (w_db w) = (x, d)" by fastforce
  then have w': "snd (sp_delete_email (sys_ports fetch) i w) = w\<lparr>w_db := d\<rparr>" by (simp add: sys_ports_def on_db_def)
  have db: "db_inv (w_db w)" using assms(1) by (simp add: sys_inv_def queue_inv_def)
  show ?thesis
  proof (cases x)
    case (Inl e)
    with delete_error d assms(2) w' show ?thesis by (auto intro!: submitting_same)
  next
    case (Inr u)
    have t: "same_tables d (without_email i (w_db w))" using delete_ok [OF db d [unfolded Inr]] by blast
    then have "find_email k d = (if k = i then None else find_email k (w_db w))" for k
      using same_tables_find_email [OF t, of k] find_email_without by simp
    with t show ?thesis
      unfolding w' by (intro submitting_db [OF assms(2)]) (auto simp: same_tables_def without_email_def)
  qed
qed

lemma submitting_id:
  assumes "submitting w0 i input w"
  shows "submitting w0 i input (w\<lparr>w_files := (w_files w)\<lparr>fw_next := fw_next (w_files w) + 1\<rparr>\<rparr>)"
  by (rule submitting_files [OF assms]) (simp_all add: blob_at_def)

lemma submitting_enqueue:
  assumes "submitting w0 i input w" "fw_next (w_files w0) \<le> fw_next (w_files w)"
  shows "submitting w0 i input (snd (sp_enqueue (sys_ports fetch) i env w))"
proof (cases "uuid_ok (fw_next (w_files w))")
  case False
  with assms(1) show ?thesis by (simp add: sys_ports_def with_id_def Let_def)
next
  case True
  let ?u = "fw_next (w_files w)"
  let ?w1 = "w\<lparr>w_files := (w_files w)\<lparr>fw_next := ?u + 1\<rparr>\<rparr>"
  obtain x d where d: "sqlite_enqueue (w_now ?w1) ?u [] i env (w_db ?w1) = (x, d)" by fastforce
  then have w': "snd (sp_enqueue (sys_ports fetch) i env w) = ?w1\<lparr>w_db := d\<rparr>"
    using True by (simp add: sys_ports_def with_id_def Let_def on_db_def)
  show ?thesis
  proof (cases x)
    case (Inl e)
    with sqlite_enqueue_err d have "same_tables d (w_db ?w1)" by blast
    with submitting_same [OF submitting_id [OF assms(1)]] w' show ?thesis by simp
  next
    case (Inr u)
    have t: "same_tables d ((w_db w)\<lparr>db_queue := db_queue (w_db w) @ [queue_row_of (w_now ?w1) ?u [] i]\<rparr>)"
      using sqlite_enqueue_ok [OF d [unfolded Inr]] by simp
    obtain es where es: "entry_pairs w = entry_pairs w0 @ es"
      "\<forall>(u, k)\<in>set es. k = i \<and> fw_next (w_files w0) \<le> u \<and> u < ?u" using assms(1) by (auto simp: submitting_def)
    have "entry_pairs (?w1\<lparr>w_db := d\<rparr>) = entry_pairs w0 @ es @ [(?u, i)]"
      using t es(1) by (simp add: entry_pairs_def same_tables_def queue_row_of_def)
    moreover have "\<forall>(u, k)\<in>set (es @ [(?u, i)]). k = i \<and> fw_next (w_files w0) \<le> u \<and> u < ?u + 1" using es(2) assms(2) by auto
    moreover have "find_email k d = find_email k (w_db w)" for k using t by (simp add: same_tables_def find_email_def)
    ultimately show ?thesis
      unfolding w' using assms(1) t by (auto simp: submitting_def blob_at_def same_tables_def)
  qed
qed

lemma submitting_publish:
  assumes "submitting w0 i input w" "\<not> terminal_type (event_type ev)"
  shows "submitting w0 i input (snd (sp_publish (sys_ports fetch) ev w))"
proof (cases "uuid_ok (fw_next (w_files w))")
  case False
  with assms(1) show ?thesis by (simp add: sys_ports_def with_id_def Let_def)
next
  case True
  let ?w1 = "w\<lparr>w_files := (w_files w)\<lparr>fw_next := fw_next (w_files w) + 1\<rparr>\<rparr>"
  obtain x d where d: "sqlite_publish (w_now ?w1) (fw_next (w_files w)) ev (w_db ?w1) = (x, d)" by fastforce
  then have w': "snd (sp_publish (sys_ports fetch) ev w) = ?w1\<lparr>w_db := d\<rparr>"
    using True by (simp add: sys_ports_def with_id_def Let_def on_db_def)
  have q: "db_queue d = db_queue (w_db ?w1)" using repository_keeps_queue(4) d by (metis snd_conv)
  have t: "db_emails d = db_emails (w_db ?w1)"
    "set (db_events d) \<subseteq> insert (event_row_of (w_now ?w1) (fw_next (w_files w)) ev) (set (db_events (w_db ?w1)))"
    using publish_tables [OF d] by blast+
  then have find: "find_email k d = find_email k (w_db ?w1)" for k by (simp add: find_email_def)
  show ?thesis
    unfolding w'
  proof (rule submitting_db [OF submitting_id [OF assms(1)] q])
    show "find_email k d = find_email k (w_db ?w1)" for k by (rule find)
    show "saved_row i input r" if "find_email i d = Some r" for r using that find assms(1) by (simp add: submitting_def)
    show "v \<in> set (db_events (w_db ?w1)) \<or> \<not> terminal_type (vr_type v)" if "v \<in> set (db_events d)" for v
      using that t(2) assms(2) by (cases "v \<in> set (db_events (w_db w))") (auto simp: event_row_of_def)
  qed
qed

lemma submitting_put:
  assumes "submitting w0 i input w" "fw_next (w_files w0) \<le> fw_next (w_files w)"
  shows "submitting w0 i input (snd (sp_put (sys_ports fetch) rd w))"
proof -
  obtain x f where f: "fsw_put rd (w_files w) = (x, f)" by fastforce
  then have w': "snd (sp_put (sys_ports fetch) rd w) = w\<lparr>w_files := f\<rparr>" by (simp add: sys_ports_def on_files_def)
  show ?thesis
    unfolding w' using fsw_put_elsewhere [OF f assms(2)] fw_next_ports(6) [of w fetch rd] w'
    by (intro submitting_files [OF assms(1)]) (simp_all add: blob_at_def)
qed

lemma submitting_delete_blob:
  assumes "sys_inv w" "submitting w0 i input w" "own_from (fw_next (w_files w0)) b"
  shows "submitting w0 i input (snd (sp_delete_blob (sys_ports fetch) b w))"
proof -
  obtain x f where f: "fsw_delete b (w_files w) = (x, f)" by fastforce
  then have w': "snd (sp_delete_blob (sys_ports fetch) b w) = w\<lparr>w_files := f\<rparr>" by (simp add: sys_ports_def on_files_def)
  have own: "fs_own b" "future (fw_next (w_files w0)) b" using assms(3) by (simp_all add: own_from_def)
  have "fsw_inv (w_files w)" using assms(1) by (simp add: sys_inv_def)
  note law = fsw_delete_law [OF this own(1) f]
  show ?thesis
    unfolding w' using law own(2) fw_next_ports(7) [of fetch b w] w'
    by (intro submitting_files [OF assms(2)]) (auto simp: blob_at_def split: if_splits)
qed

text \<open>A created submission, and any other.\<close>

lemma submission_keeps:
  assumes inv: "sys_inv w" and body: "body_ok (si_body input)"
    and save: "sp_save (sys_ports fetch) i (envelope_of_input input []) w = (Inr (Created j), w1)"
  shows "submitting w i input (snd (submit_execute (sys_ports fetch) i input w))"
proof (rule fresh.submit_keeps [where n = "fw_next (w_files w)"])
  have "find_email i (w_db w) = None"
    using stack.save_created [OF inv _ _ save] body by (auto simp: envelope_of_input_def sys_view_def)
  then show "submitting w i input (snd (sp_save (sys_ports fetch) i (envelope_of_input input []) w))"
    using submitting_save [OF inv _ save] save by simp
qed (use inv body in \<open>auto intro!: submitting_set submitting_delete submitting_enqueue submitting_publish submitting_put
    submitting_delete_blob simp: terminal_type_def, simp_all add: sys_ports_def\<close>)

lemma uncreated_submission:
  assumes inv: "sys_inv w" and body: "body_ok (si_body input)"
    and save: "sp_save (sys_ports fetch) i (envelope_of_input input []) w = (sr, w1)" and "\<nexists>j. sr = Inr (Created j)"
  shows "evolves w (snd (submit_execute (sys_ports fetch) i input w))"
proof -
  obtain d where d: "sqlite_save (w_now w) i (envelope_of_input input []) (w_db w) = (sr, d)" "w1 = w\<lparr>w_db := d\<rparr>"
    using save by (auto simp: sys_ports_def on_db_run)
  have "same_tables d (w_db w) \<and> snd (submit_execute (sys_ports fetch) i input w) = w1"
  proof (cases sr)
    case (Inl e)
    with save d(1) SqlStore.save_error show ?thesis by (simp add: submit_execute_def)
  next
    case (Inr s)
    with assms(4) obtain j where "s = Duplicate j" by (cases s) auto
    with Inr save d(1) SqlStore.save_duplicate show ?thesis by (simp add: submit_execute_def)
  qed
  with evolves_tables [OF inv] d(2) show ?thesis by simp
qed

definition jobs_stored :: "world \<Rightarrow> bool" where
  "jobs_stored w \<longleftrightarrow> (\<forall>k\<in>jobs w. \<forall>b\<in>blobs_of (refs_of w k). blob_at w b \<noteq> None)"

text \<open>A created email: one new queue entry, one new row that reads back as the envelope submitted, and its attachments under
  keys that were not in use.\<close>

definition created :: "(string \<Rightarrow> anyhow + url) \<Rightarrow> world \<Rightarrow> email_id \<Rightarrow> submit_email_input \<Rightarrow> world \<Rightarrow> bool" where
  "created parse_url w i input w' \<longleftrightarrow> sys_inv w' \<and> fw_next (w_files w) \<le> fw_next (w_files w') \<and>
     i \<notin> set (email_ids (w_db w)) \<and> (\<forall>k. k \<noteq> i \<longrightarrow> find_email k (w_db w') = find_email k (w_db w)) \<and>
     (\<exists>u. entry_pairs w' = entry_pairs w @ [(u, i)] \<and> fw_next (w_files w) \<le> u \<and> u < fw_next (w_files w')) \<and>
     (\<exists>r. find_email i (w_db w') = Some r \<and> parse_envelope parse_url r = Inr (envelope_of_input input (refs_of w' i))) \<and>
     list_all2 (ref_matches (sys_view w')) (si_attachments input) (refs_of w' i) \<and>
     (\<forall>a\<in>set (refs_of w' i). own_from (fw_next (w_files w)) (ar_blob a) \<and> \<not> future (fw_next (w_files w')) (ar_blob a)) \<and>
     (\<forall>b. \<not> future (fw_next (w_files w)) b \<longrightarrow> blob_at w' b = blob_at w b) \<and>
     (\<forall>v\<in>set (db_events (w_db w')). v \<in> set (db_events (w_db w)) \<or> \<not> terminal_type (vr_type v))"

lemma created_result:
  assumes "submit_execute P i input w = (Inr j, w')" "sp_save P i (envelope_of_input input []) w = (Inr (Created k), w1)"
  shows "j = i"
  using assms by (auto simp: submit_execute_def split: prod.splits sum.splits)

lemma fw_next_submit:
  assumes "sys_inv w" "body_ok (si_body input)" "submit_execute (sys_ports fetch) i input w = (r, w')"
  shows "fw_next (w_files w) \<le> fw_next (w_files w')"
proof -
  let ?n = "fw_next (w_files w)"
  have "sys_inv w \<and> ?n \<le> ?n" using assms(1) by simp
  then show ?thesis
    using fresh.submit_Ok [of w ?n input fetch i _ w'] fresh.submit_Err [of w ?n input fetch i _ w'] assms(2,3) by (cases r) blast+
qed

lemma pairs_jobs: "map snd (entry_pairs w) = v_jobs (sys_view w)"
  by (simp add: entry_pairs_def sys_view_def)

lemma stored_own: "blob_at w b = Some bs \<Longrightarrow> fs_own b"
  by (simp add: blob_at_def fs_stored_def split: if_splits)

lemma submitting_failed:
  assumes "submitting w i input w'" "sys_inv w" "sys_inv w'" "i \<notin> set (email_ids (w_db w))" "fw_next (w_files w) \<le> fw_next (w_files w')"
    and "v_jobs (sys_view w') = v_jobs (sys_view w)" "jobs_stored w"
  shows "evolves w w'"
proof -
  have pairs: "entry_pairs w' = entry_pairs w"
    using assms(1,6) unfolding pairs_jobs [symmetric] by (auto simp: submitting_def)
  have find: "find_email k (w_db w') = find_email k (w_db w)" if "k \<noteq> i" for k using assms(1) that by (simp add: submitting_def)
  have old: "k \<noteq> i" if "k \<in> jobs w'" for k
    using that pairs assms(2,4) queue_inv_emails [of "w_db w"] by (auto simp: jobs_pairs sys_inv_def jobs_def [symmetric])
  have ids: "set (email_ids (w_db w)) \<subseteq> set (email_ids (w_db w'))"
  proof
    fix k assume k: "k \<in> set (email_ids (w_db w))"
    then have "k \<noteq> i" using assms(4) by blast
    from find [OF this] k show "k \<in> set (email_ids (w_db w'))" by (metis find_email_None)
  qed
  have blobs: "blob_at w' b = blob_at w b" if "\<not> future (fw_next (w_files w)) b" for b
    using assms(1) that by (simp add: submitting_def)
  show ?thesis
    unfolding evolves_def
  proof (intro conjI ballI allI impI)
    fix k assume k: "k \<in> jobs w'"
    show "find_email k (w_db w') = find_email k (w_db w)" by (rule find [OF old [OF k]])
    fix b assume "b \<in> blobs_of (refs_of w k)"
    moreover have "k \<in> jobs w" using k pairs by (simp add: jobs_pairs)
    ultimately have "blob_at w b \<noteq> None" using assms(7) unfolding jobs_stored_def by blast
    then have "\<not> future (fw_next (w_files w)) b" by (rule contrapos_nn) (rule stored_not_future [OF assms(2)])
    then show "blob_at w' b = blob_at w b" by (rule blobs)
  qed (use assms(1,3,5) pairs ids blobs in \<open>auto simp: submitting_def\<close>)
qed

lemma submitting_created:
  assumes sub: "submitting w i input w'" and inv: "sys_inv w" "sys_inv w'" and new: "i \<notin> set (email_ids (w_db w))"
    and next': "fw_next (w_files w) \<le> fw_next (w_files w')" and body: "body_ok (si_body input)" "url_stable parse_url (si_body input)"
    and rows: "v_rows (sys_view w') i = Some (key, refs)" and jobs: "v_jobs (sys_view w') = v_jobs (sys_view w) @ [i]"
    and match: "list_all2 (ref_matches (sys_view w')) (si_attachments input) refs"
    and fresh_blobs: "\<forall>a\<in>set refs. blob_at w (ar_blob a) = None"
  shows "created parse_url w i input w'"
proof -
  let ?n = "fw_next (w_files w)"
  obtain r where r: "find_email i (w_db w') = Some r" "row_refs r = refs" using rows by (auto simp: sys_view_def)
  then have refs: "refs_of w' i = refs" by (simp add: refs_of_def)
  obtain t refs' where saved: "\<forall>a\<in>set refs'. size_fits a"
      "r = (email_row_of t i (envelope_of_input input []))\<lparr>er_body := ser_body_column (si_body input) refs'\<rparr>"
    using sub r(1) by (auto simp: submitting_def saved_row_def)
  then have "refs' = refs" using r(2) by (simp add: row_refs_def de_ser_body_column)
  moreover have "env_ok (envelope_of_input input [])" using body(1) by (simp add: env_ok_def envelope_of_input_def)
  ultimately have parse: "parse_envelope parse_url r = Inr (envelope_of_input input refs)"
    using parse_envelope_of_saved [of "envelope_of_input input []" parse_url refs t i] saved body(2)
    by (simp add: envelope_of_input_def)
  obtain es where es: "entry_pairs w' = entry_pairs w @ es" "\<forall>(u, k)\<in>set es. k = i \<and> ?n \<le> u \<and> u < fw_next (w_files w')"
    using sub by (auto simp: submitting_def)
  have "map snd es = [i]" using jobs es(1) unfolding pairs_jobs [symmetric] by simp
  then obtain u where "es = [(u, i)]" by auto
  with es have entry: "\<exists>u. entry_pairs w' = entry_pairs w @ [(u, i)] \<and> ?n \<le> u \<and> u < fw_next (w_files w')" by auto
  have blobs: "blob_at w' b = blob_at w b" if "\<not> future ?n b" for b using sub that by (simp add: submitting_def)
  have stored: "\<exists>bs. blob_at w' (ar_blob a) = Some bs" if "a \<in> set refs" for a
    using match that by (auto simp: ref_matches_content list_all2_conv_all_nth in_set_conv_nth)
  have "own_from ?n (ar_blob a) \<and> \<not> future (fw_next (w_files w')) (ar_blob a)" if a: "a \<in> set refs" for a
  proof -
    obtain bs where bs: "blob_at w' (ar_blob a) = Some bs" using stored [OF a] by blast
    moreover have "blob_at w (ar_blob a) = None" using fresh_blobs a by blast
    ultimately have "future ?n (ar_blob a)" using blobs [of "ar_blob a"] by auto
    moreover have "fs_own (ar_blob a)" by (rule stored_own [OF bs])
    ultimately show ?thesis using bs stored_not_future [OF inv(2), of "ar_blob a"] by (auto simp: own_from_def)
  qed
  with inv new next' entry r(1) parse refs match blobs sub show ?thesis by (auto simp: created_def submitting_def)
qed

text \<open>What a submission does, whatever its result.\<close>

lemma submission_outcome:
  assumes run: "submit_execute (sys_ports fetch) i input w = (r, w')" and inv: "sys_inv w" "jobs_stored w"
    and body: "body_ok (si_body input)" "url_stable parse_url (si_body input)"
  shows "if r = Inr i \<and> v_rows (sys_view w) i = None then created parse_url w i input w' else evolves w w'"
proof -
  obtain sr w1 where save: "sp_save (sys_ports fetch) i (envelope_of_input input []) w = (sr, w1)" by fastforce
  note next' = fw_next_submit [OF inv(1) body(1) run]
  show ?thesis
  proof (cases "\<exists>j. sr = Inr (Created j)")
    case True
    then obtain j where c: "sp_save (sys_ports fetch) i (envelope_of_input input []) w = (Inr (Created j), w1)" using save by blast
    have none: "v_rows (sys_view w) i = None"
      using stack.save_created [OF inv(1) _ _ c] body(1) by (simp add: envelope_of_input_def)
    then have new: "i \<notin> set (email_ids (w_db w))" using find_email_None [of i "w_db w"] by (simp add: sys_view_def)
    have sub: "submitting w i input w'" using submission_keeps [OF inv(1) body(1) c] run by simp
    show ?thesis
    proof (cases r)
      case (Inl e)
      note err = stack.submit_Err [OF inv(1) body(1) run [unfolded Inl]]
      then have "evolves w w'" using submitting_failed [OF sub inv(1) _ new next'] inv(2) by simp
      with Inl show ?thesis by simp
    next
      case (Inr k)
      have k: "k = i" by (rule created_result [OF run [unfolded Inr] c])
      note suc = stack.submit_Ok [OF inv(1) body(1) run [unfolded Inr k]]
      then obtain refs new' evs where s: "sys_inv w'" "dom new' = ar_blob ` set refs" "dom new' \<inter> dom (v_blobs (sys_view w)) = {}"
          "list_all2 (ref_matches (sys_view w')) (si_attachments input) refs"
          "sys_view w' = (view_after_submit i input refs new' (sys_view w))\<lparr>v_events := v_events (sys_view w) @ evs\<rparr>"
        using none by auto
      have "\<forall>a\<in>set refs. blob_at w (ar_blob a) = None" using s(2,3) by (auto simp: sys_view_def blob_at_def)
      with s have "created parse_url w i input w'"
        by (intro submitting_created [OF sub inv(1) s(1) new next' body]) (simp_all add: view_after_submit_def)
      with Inr k none show ?thesis by simp
    qed
  next
    case False
    have ev: "evolves w w'" using uncreated_submission [OF inv(1) body(1) save] False run by simp
    have "\<not> (r = Inr i \<and> v_rows (sys_view w) i = None)"
    proof
      assume a: "r = Inr i \<and> v_rows (sys_view w) i = None"
      with False run save have "sr = Inr (Duplicate i)"
        by (auto simp: submit_execute_def split: sum.splits save_result.splits)
      with save stack.save_duplicate [OF inv(1), of "envelope_of_input input []" fetch i i w1] body(1) a
      show False by (simp add: envelope_of_input_def)
    qed
    with ev show ?thesis by (simp only: if_False)
  qed
qed
end
