(* ===== verification/Invariant.thy ===== *)
theory Invariant
  imports Program
begin


section \<open>The invariant\<close>

text \<open>An email in the queue was accepted, reads back as it was submitted, still has all its attachments, and is not settled.\<close>

definition job_ok :: "(string \<Rightarrow> anyhow + url) \<Rightarrow> world \<Rightarrow> (email_id \<rightharpoonup> submit_email_input) \<Rightarrow> email_id \<Rightarrow> bool" where
  "job_ok parse_url w acc k \<longleftrightarrow> (\<exists>input r. acc k = Some input \<and> find_email k (w_db w) = Some r \<and>
     parse_envelope parse_url r = Inr (envelope_of_input input (refs_of w k)) \<and>
     list_all2 (ref_matches (sys_view w)) (si_attachments input) (refs_of w k)) \<and>
     (\<forall>v\<in>set (db_events (w_db w)). vr_email v = k \<longrightarrow> \<not> terminal_type (vr_type v))"

text \<open>A reference of a task carries the attachment as long as its blob is there.\<close>

definition ref_carries :: "world \<Rightarrow> attachment_input \<Rightarrow> attachment_ref \<Rightarrow> bool" where
  "ref_carries w att a \<longleftrightarrow> att_named att (ar_filename a) (ar_content_type a) \<and>
     fs_own (ar_blob a) \<and> \<not> future (fw_next (w_files w)) (ar_blob a) \<and>
     (\<forall>bs. blob_at w (ar_blob a) = Some bs \<longrightarrow> att_content att bs)"

definition task_ok :: "world \<Rightarrow> (email_id \<rightharpoonup> submit_email_input) \<Rightarrow> dequeued_email \<Rightarrow> bool" where
  "task_ok w acc t \<longleftrightarrow>
     (let i = dq_id t; refs = env_attachments (dq_envelope t) in
      \<exists>input u. acc i = Some input \<and> dq_envelope t = envelope_of_input input refs \<and>
        list_all2 (ref_carries w) (si_attachments input) refs \<and> isolated w i refs \<and> holds w i (dq_token t) \<and>
        (i \<in> jobs w \<longrightarrow> refs = refs_of w i) \<and>
        dq_token t = AckToken (uuid_bytes u) \<and> uuid_ok u \<and> u < fw_next (w_files w))"

lemma task_okI:
  assumes "acc (dq_id t) = Some input" "dq_envelope t = envelope_of_input input (env_attachments (dq_envelope t))"
    and "list_all2 (ref_carries w) (si_attachments input) (env_attachments (dq_envelope t))"
    and "isolated w (dq_id t) (env_attachments (dq_envelope t))" "holds w (dq_id t) (dq_token t)"
    and "dq_id t \<in> jobs w \<Longrightarrow> env_attachments (dq_envelope t) = refs_of w (dq_id t)"
    and "dq_token t = AckToken (uuid_bytes u)" "uuid_ok u" "u < fw_next (w_files w)"
  shows "task_ok w acc t"
  unfolding task_ok_def Let_def using assms by blast

lemma task_okE:
  assumes "task_ok w acc t"
  obtains input u where "acc (dq_id t) = Some input" "dq_envelope t = envelope_of_input input (env_attachments (dq_envelope t))"
    "list_all2 (ref_carries w) (si_attachments input) (env_attachments (dq_envelope t))"
    "isolated w (dq_id t) (env_attachments (dq_envelope t))" "holds w (dq_id t) (dq_token t)"
    "dq_id t \<in> jobs w \<longrightarrow> env_attachments (dq_envelope t) = refs_of w (dq_id t)"
    "dq_token t = AckToken (uuid_bytes u)" "uuid_ok u" "u < fw_next (w_files w)"
  using assms unfolding task_ok_def Let_def by blast

definition att_delivered :: "attachment_input \<Rightarrow> resolved_attachment \<Rightarrow> bool" where
  "att_delivered att ra \<longleftrightarrow> att_named att (ra_filename ra) (ra_content_type ra) \<and> att_content att (ra_bytes ra)"

text \<open>A message made for a submission: its sender, recipients and subject, its body put through the stages, and all of its
  attachments with their bytes.\<close>

definition submitted_message :: "stages \<Rightarrow> submit_email_input \<Rightarrow> outbound_email \<Rightarrow> bool" where
  "submitted_message S input m \<longleftrightarrow> oe_sender m = si_sender input \<and> oe_recipients m = si_recipients input \<and> oe_subject m = si_subject input \<and>
     (\<exists>resolved interpolated. st_resolve S (si_body input) = Inr resolved \<and>
        st_interpolate S resolved (si_variables input) = Inr interpolated \<and> st_render S interpolated = Inr (oe_body m)) \<and>
     list_all2 att_delivered (si_attachments input) (oe_attachments m)"

definition program_inv :: "stages set \<Rightarrow> (string \<Rightarrow> anyhow + url) \<Rightarrow> program \<Rightarrow> bool" where
  "program_inv SS parse_url s \<longleftrightarrow>
     (let w = pr_world s; acc = pr_accepted s in
      sys_inv w \<and> dom acc \<subseteq> set (email_ids (w_db w)) \<and>
      distinct (map snd (entry_pairs w)) \<and> (\<forall>(u, k)\<in>set (entry_pairs w). u < fw_next (w_files w)) \<and>
      (\<forall>k\<in>jobs w. job_ok parse_url w acc k \<and> isolated w k (refs_of w k)) \<and>
      (\<forall>t\<in>set (pr_tasks s). task_ok w acc t) \<and>
      (\<forall>m\<in>set (pr_sent s). \<exists>i input S. acc i = Some input \<and> S \<in> SS \<and> submitted_message S input m))"

lemma program_invD:
  assumes "program_inv SS parse_url s"
  shows "sys_inv (pr_world s)" "dom (pr_accepted s) \<subseteq> set (email_ids (w_db (pr_world s)))"
    "distinct (map snd (entry_pairs (pr_world s)))"
    "\<And>u k. (u, k) \<in> set (entry_pairs (pr_world s)) \<Longrightarrow> u < fw_next (w_files (pr_world s))"
    "\<And>k. k \<in> jobs (pr_world s) \<Longrightarrow> job_ok parse_url (pr_world s) (pr_accepted s) k"
    "\<And>k. k \<in> jobs (pr_world s) \<Longrightarrow> isolated (pr_world s) k (refs_of (pr_world s) k)"
    "\<And>t. t \<in> set (pr_tasks s) \<Longrightarrow> task_ok (pr_world s) (pr_accepted s) t"
    "\<And>m. m \<in> set (pr_sent s) \<Longrightarrow> \<exists>i input S. pr_accepted s i = Some input \<and> S \<in> SS \<and> submitted_message S input m"
  using assms unfolding program_inv_def Let_def by auto

lemma att_all2_mono:
  "list_all2 P xs ys \<Longrightarrow> (\<And>x y. x \<in> set xs \<Longrightarrow> y \<in> set ys \<Longrightarrow> P x y \<Longrightarrow> Q x y) \<Longrightarrow> list_all2 Q xs ys"
  by (simp add: list_all2_conv_all_nth)

lemma job_blobs:
  assumes "job_ok parse_url w acc k" "a \<in> set (refs_of w k)"
  shows "\<exists>bs. blob_at w (ar_blob a) = Some bs"
  using assms by (auto simp: job_ok_def ref_matches_content list_all2_conv_all_nth in_set_conv_nth)

lemma jobs_stored: "\<forall>k\<in>jobs w. job_ok parse_url w acc k \<Longrightarrow> jobs_stored w"
  using job_blobs by (fastforce simp: jobs_stored_def blobs_of_def)

lemma ref_matches_same: "blob_at w' (ar_blob a) = blob_at w (ar_blob a) \<Longrightarrow> ref_matches (sys_view w') att a = ref_matches (sys_view w) att a"
  by (simp add: ref_matches_content)

text \<open>A job survives when its row and its blobs do.\<close>

lemma job_ok_carry:
  assumes "job_ok parse_url w acc k" "find_email k (w_db w') = find_email k (w_db w)" "acc' k = acc k"
    and "\<And>b. b \<in> blobs_of (refs_of w k) \<Longrightarrow> blob_at w' b = blob_at w b"
    and "\<And>v. v \<in> set (db_events (w_db w')) \<Longrightarrow> vr_email v = k \<Longrightarrow> v \<in> set (db_events (w_db w)) \<or> \<not> terminal_type (vr_type v)"
  shows "job_ok parse_url w' acc' k"
proof -
  have refs: "refs_of w' k = refs_of w k" using assms(2) by (simp add: refs_of_def)
  obtain input r where j: "acc k = Some input" "find_email k (w_db w) = Some r"
      "parse_envelope parse_url r = Inr (envelope_of_input input (refs_of w k))"
      "list_all2 (ref_matches (sys_view w)) (si_attachments input) (refs_of w k)" using assms(1) by (auto simp: job_ok_def)
  have "list_all2 (ref_matches (sys_view w')) (si_attachments input) (refs_of w k)"
  proof (rule att_all2_mono [OF j(4)])
    fix att a assume "a \<in> set (refs_of w k)" "ref_matches (sys_view w) att a"
    then show "ref_matches (sys_view w') att a"
      using ref_matches_same [of w' a w att] assms(4) [of "ar_blob a"] by (simp add: blobs_of_def)
  qed
  moreover have "\<not> terminal_type (vr_type v)" if "v \<in> set (db_events (w_db w'))" "vr_email v = k" for v
    using assms(1,5) that by (auto simp: job_ok_def)
  ultimately show ?thesis using j assms(2,3) refs by (auto simp: job_ok_def)
qed

lemma ref_carries_carry:
  assumes "ref_carries w att a" "fw_next (w_files w) \<le> fw_next (w_files w')"
    and "blob_at w' (ar_blob a) = None \<or> blob_at w' (ar_blob a) = blob_at w (ar_blob a)"
  shows "ref_carries w' att a"
  using assms future_mono by (auto simp: ref_carries_def)

lemma evolves_job_ok: "evolves w w' \<Longrightarrow> k \<in> jobs w' \<Longrightarrow> job_ok parse_url w acc k \<Longrightarrow> job_ok parse_url w' acc k"
  by (erule job_ok_carry) (auto simp: evolves_def)

lemma evolves_task_ok:
  assumes "evolves w w'" "task_ok w acc t"
  shows "task_ok w' acc t"
proof -
  let ?refs = "env_attachments (dq_envelope t)"
  from assms(2) obtain input u where t: "acc (dq_id t) = Some input" "dq_envelope t = envelope_of_input input ?refs"
      "list_all2 (ref_carries w) (si_attachments input) ?refs" "isolated w (dq_id t) ?refs" "holds w (dq_id t) (dq_token t)"
      "dq_id t \<in> jobs w \<longrightarrow> ?refs = refs_of w (dq_id t)"
      "dq_token t = AckToken (uuid_bytes u)" "uuid_ok u" "u < fw_next (w_files w)"
    by (rule task_okE)
  have "list_all2 (ref_carries w') (si_attachments input) ?refs"
  proof (rule att_all2_mono [OF t(3)])
    fix att a assume c: "ref_carries w att a"
    then have "\<not> future (fw_next (w_files w)) (ar_blob a)" by (simp add: ref_carries_def)
    with assms(1) show "ref_carries w' att a" by (intro ref_carries_carry [OF c]) (auto simp: evolves_def)
  qed
  moreover have "u < fw_next (w_files w')" using t(9) assms(1) by (auto simp: evolves_def)
  moreover have "?refs = refs_of w' (dq_id t)" if "dq_id t \<in> jobs w'"
    using t(6) evolves_jobs [OF assms(1)] evolves_refs [OF assms(1) that] that by auto
  ultimately show ?thesis
    using t(7,8) by (intro task_okI [of acc t, OF t(1,2)] evolves_isolated [OF assms(1) t(4)] evolves_holds [OF assms(1) t(5)])
qed

lemma subseq_distinct: "subseq xs ys \<Longrightarrow> distinct ys \<Longrightarrow> distinct xs"
  by (metis subseq_conv_nths distinct_nthsI)

text \<open>The invariant survives a change of the world that evolves, with fewer tasks and more good messages.\<close>

lemma program_inv_evolves:
  assumes "program_inv SS parse_url s" "evolves (pr_world s) w'" "set tasks \<subseteq> set (pr_tasks s)"
    and "\<And>m. m \<in> set sent \<Longrightarrow> m \<in> set (pr_sent s) \<or> (\<exists>i input S. pr_accepted s i = Some input \<and> S \<in> SS \<and> submitted_message S input m)"
  shows "program_inv SS parse_url (s\<lparr>pr_world := w', pr_sent := sent, pr_tasks := tasks\<rparr>)"
proof -
  let ?w = "pr_world s"
  note inv = program_invD [OF assms(1)] and ev = assms(2)
  have sub: "subseq (entry_pairs w') (entry_pairs ?w)" and next': "fw_next (w_files ?w) \<le> fw_next (w_files w')"
    and ids: "set (email_ids (w_db ?w)) \<subseteq> set (email_ids (w_db w'))" using ev by (simp_all add: evolves_def)
  have "distinct (map snd (entry_pairs w'))" using inv(3) subseq_map [OF sub] subseq_distinct by blast
  moreover have "u < fw_next (w_files w')" if "(u, k) \<in> set (entry_pairs w')" for u k
    using that inv(4) [of u k] subseq_set [OF sub] next' by fastforce
  moreover have "job_ok parse_url w' (pr_accepted s) k \<and> isolated w' k (refs_of w' k)" if k: "k \<in> jobs w'" for k
    using inv(5,6) [of k] evolves_jobs [OF ev] evolves_job_ok [OF ev k] evolves_isolated [OF ev] evolves_refs [OF ev k] k by auto
  moreover have "task_ok w' (pr_accepted s) t" if "t \<in> set tasks" for t
    using inv(7) evolves_task_ok [OF ev] assms(3) that by blast
  moreover have "\<exists>i input S. pr_accepted s i = Some input \<and> S \<in> SS \<and> submitted_message S input m" if "m \<in> set sent" for m
    using inv(8) assms(4) [OF that] by blast
  ultimately show ?thesis
    using evolves_inv [OF ev] inv(2) ids unfolding program_inv_def Let_def by auto
qed

section \<open>Every step keeps the invariant\<close>

lemma start_inv: "program_inv SS parse_url program_start"
  using empty_world_inv(1)
  by (simp add: program_inv_def program_start_def empty_world_def empty_db_def entry_pairs_def jobs_def)

lemma matches_carries:
  assumes "ref_matches (sys_view w) att a" "sys_inv w"
  shows "ref_carries w att a"
proof -
  obtain bs where bs: "blob_at w (ar_blob a) = Some bs" "att_content att bs" "att_named att (ar_filename a) (ar_content_type a)"
    using assms(1) by (auto simp: ref_matches_content)
  then have "\<not> future (fw_next (w_files w)) (ar_blob a)" using stored_not_future [OF assms(2), of "ar_blob a"] by auto
  with bs stored_own [OF bs(1)] show ?thesis by (simp add: ref_carries_def)
qed

lemma entry_uuid_ok: "sys_inv w \<Longrightarrow> (u, k) \<in> set (entry_pairs w) \<Longrightarrow> uuid_ok u"
  by (auto simp: sys_inv_def queue_inv_def entry_pairs_def)

text \<open>A creation.\<close>

lemma created_inv:
  assumes inv: "program_inv SS parse_url s" and c: "created parse_url (pr_world s) i input w'"
  shows "program_inv SS parse_url (s\<lparr>pr_world := w', pr_accepted := (pr_accepted s)(i \<mapsto> input)\<rparr>)"
proof -
  let ?w = "pr_world s" and ?acc = "(pr_accepted s)(i \<mapsto> input)" and ?n = "fw_next (w_files (pr_world s))"
  note I = program_invD [OF inv] and C = c [unfolded created_def]
  have wi: "sys_inv ?w" "sys_inv w'" using I(1) C by simp_all
  have new: "i \<notin> set (email_ids (w_db ?w))" and find: "find_email k (w_db w') = find_email k (w_db ?w)" if "k \<noteq> i" for k
    using C that by simp_all
  have new: "i \<notin> set (email_ids (w_db ?w))" using C by simp
  have acc: "pr_accepted s i = None" using I(2) new by blast
  have next': "?n \<le> fw_next (w_files w')" using C by simp
  obtain u where u: "entry_pairs w' = entry_pairs ?w @ [(u, i)]" "?n \<le> u" "u < fw_next (w_files w')" using C by blast
  have jobs: "jobs w' = insert i (jobs ?w)" by (simp add: jobs_pairs u(1))
  have ids: "jobs ?w \<subseteq> set (email_ids (w_db ?w))" using wi(1) queue_inv_emails by (simp add: sys_inv_def jobs_def)
  have old: "k \<noteq> i" if "k \<in> jobs ?w" for k using that ids new by blast
  have refs: "refs_of w' k = refs_of ?w k" if "k \<noteq> i" for k using find [OF that] by (simp add: refs_of_def)
  have blobs: "blob_at w' b = blob_at ?w b" if "\<not> future ?n b" for b using C that by blast
  have events: "v \<in> set (db_events (w_db ?w)) \<or> \<not> terminal_type (vr_type v)" if "v \<in> set (db_events (w_db w'))" for v using C that by blast
  have own: "future ?n b" if "b \<in> blobs_of (refs_of w' i)" for b using C that by (auto simp: blobs_of_def own_from_def)
  have past: "\<not> future ?n b" if "k \<in> jobs ?w" "b \<in> blobs_of (refs_of ?w k)" for k b
  proof -
    have "job_ok parse_url ?w (pr_accepted s) k" by (rule I(5) [OF that(1)])
    then have "\<exists>bs. blob_at ?w b = Some bs" using job_blobs that(2) by (auto simp: blobs_of_def)
    then show ?thesis using stored_not_future [OF wi(1), of b] by auto
  qed
  have jobs_old: "job_ok parse_url w' ?acc k" if k: "k \<in> jobs ?w" for k
  proof (rule job_ok_carry [of parse_url ?w "pr_accepted s"])
    show "job_ok parse_url ?w (pr_accepted s) k" by (rule I(5) [OF k])
  qed (use old [OF k] find blobs past [OF k] events in auto)
  have job_new: "job_ok parse_url w' ?acc i"
  proof -
    have "\<not> terminal_type (vr_type v)" if v: "v \<in> set (db_events (w_db w'))" "vr_email v = i" for v
    proof -
      have "vr_email ` set (db_events (w_db ?w)) \<subseteq> set (email_ids (w_db ?w))"
        using wi(1) by (simp add: sys_inv_def queue_inv_def db_inv_def)
      then have "v \<notin> set (db_events (w_db ?w))" using v(2) new by blast
      with events [OF v(1)] show ?thesis by blast
    qed
    then show ?thesis using C by (auto simp: job_ok_def)
  qed
  have isolated: "isolated w' k (refs_of w' k)" if k: "k \<in> jobs w'" for k
    unfolding isolated_def
  proof (intro ballI impI)
    fix l assume l: "l \<in> jobs w'" "l \<noteq> k"
    consider "k = i" "l \<in> jobs ?w" "l \<noteq> i" | "l = i" "k \<in> jobs ?w" "k \<noteq> i" | "k \<in> jobs ?w" "l \<in> jobs ?w" "k \<noteq> i" "l \<noteq> i"
      using k l old [of k] old [of l] unfolding jobs by auto
    then show "blobs_of (refs_of w' k) \<inter> blobs_of (refs_of w' l) = {}"
    proof cases
      case 1
      then show ?thesis using own past [OF 1(2)] refs [OF 1(3)] by auto
    next
      case 2
      then show ?thesis using own past [OF 2(2)] refs [OF 2(3)] by auto
    next
      case 3
      have "isolated ?w k (refs_of ?w k)" by (rule I(6) [OF 3(1)])
      then show ?thesis using 3 l(2) refs [OF 3(3)] refs [OF 3(4)] by (auto simp: isolated_def)
    qed
  qed
  have tasks: "task_ok w' ?acc t" if t: "t \<in> set (pr_tasks s)" for t
  proof -
    let ?refs = "env_attachments (dq_envelope t)"
    from I(7) [OF t] obtain input' v where T: "pr_accepted s (dq_id t) = Some input'" "dq_envelope t = envelope_of_input input' ?refs"
        "list_all2 (ref_carries ?w) (si_attachments input') ?refs" "isolated ?w (dq_id t) ?refs" "holds ?w (dq_id t) (dq_token t)"
        "dq_id t \<in> jobs ?w \<longrightarrow> ?refs = refs_of ?w (dq_id t)"
        "dq_token t = AckToken (uuid_bytes v)" "uuid_ok v" "v < ?n"
      by (rule task_okE)
    have other: "dq_id t \<noteq> i" using T(1) acc by auto
    have "list_all2 (ref_carries w') (si_attachments input') ?refs"
    proof (rule att_all2_mono [OF T(3)])
      fix att a assume r: "ref_carries ?w att a"
      then show "ref_carries w' att a" using ref_carries_carry [OF r next'] blobs by (simp add: ref_carries_def)
    qed
    moreover have "isolated w' (dq_id t) ?refs"
      unfolding isolated_def
    proof (intro ballI impI)
      fix k assume k: "k \<in> jobs w'" "k \<noteq> dq_id t"
      show "blobs_of ?refs \<inter> blobs_of (refs_of w' k) = {}"
      proof (cases "k = i")
        case True
        have "\<not> future ?n (ar_blob a)" if "a \<in> set ?refs" for a
          using T(3) that by (auto simp: list_all2_conv_all_nth in_set_conv_nth ref_carries_def)
        then show ?thesis using own True by (auto simp: blobs_of_def)
      next
        case False
        then show ?thesis using T(4) k jobs refs [OF False] by (auto simp: isolated_def)
      qed
    qed
    moreover have "holds w' (dq_id t) (dq_token t)"
    proof -
      have "uuid_ok u" using u(1) by (intro entry_uuid_ok [OF wi(2), of u i]) simp
      then have "uuid_bytes u \<noteq> uuid_bytes v" using T(8,9) u(2) by (simp add: uuid_bytes_inj)
      then show ?thesis using T(5,7) u(1) other by (auto simp: holds_def)
    qed
    moreover have "?acc (dq_id t) = Some input'" using T(1) other by simp
    moreover have "v < fw_next (w_files w')" using T(9) next' by simp
    moreover have "?refs = refs_of w' (dq_id t)" if "dq_id t \<in> jobs w'" using T(6) that jobs other refs [OF other] by simp
    ultimately show ?thesis using T(7,8) by (intro task_okI [OF _ T(2)])
  qed
  have sent: "\<exists>k input S. ?acc k = Some input \<and> S \<in> SS \<and> submitted_message S input m" if "m \<in> set (pr_sent s)" for m
  proof -
    from I(8) [OF that] obtain k input' S where "pr_accepted s k = Some input'" "S \<in> SS" "submitted_message S input' m" by blast
    moreover from this acc have "k \<noteq> i" by auto
    ultimately show ?thesis by (intro exI [of _ k]) auto
  qed
  have ids': "insert i (set (email_ids (w_db ?w))) \<subseteq> set (email_ids (w_db w'))"
  proof
    fix k assume k: "k \<in> insert i (set (email_ids (w_db ?w)))"
    have "find_email k (w_db w') \<noteq> None"
    proof (cases "k = i")
      case True
      then show ?thesis using C by auto
    next
      case False
      with k show ?thesis using find [OF False] by (simp add: find_email_None)
    qed
    then show "k \<in> set (email_ids (w_db w'))" by (simp add: find_email_None)
  qed
  have pairs: "distinct (map snd (entry_pairs w'))" "\<forall>(v, k)\<in>set (entry_pairs w'). v < fw_next (w_files w')"
    using I(3,4) u next' ids new by (fastforce simp: jobs_pairs)+
  show ?thesis
    unfolding program_inv_def Let_def
    using wi(2) pairs isolated tasks sent jobs_old job_new jobs ids' I(2) by auto
qed


text \<open>A sweep.\<close>

lemma sweep_next:
  assumes "sweep_once sys_gc grace (w, cs) = (r, w', cs')"
  shows "fw_next (w_files w') = fw_next (w_files w)"
proof -
  let ?Q = "\<lambda>(x, _). fw_next (w_files x) = fw_next (w_files w)"
  have cancel: "?Q s \<Longrightarrow> gp_cancelled sys_gc s = (c, s') \<Longrightarrow> ?Q s'" for s c s'
    by (cases s) (auto simp: sys_gc_def split: list.splits)
  have list: "keeps_st ?Q (gp_list_blobs sys_gc)" "keeps_st ?Q (gp_list_old sys_gc grace)"
    by (auto simp: keeps_st_def sys_gc_def on_db_def on_files_def case_prod_beta)
  have del: "?Q s \<Longrightarrow> ?Q (snd (gp_delete sys_gc b s))" for b s
    by (cases s) (auto simp: sys_gc_def on_files_def fsw_delete_def case_prod_beta)
  have "?Q (snd (sweep_keys sys_gc live ks s))" if "?Q s" for live ks s
    by (rule sweep_keys_keeps [where I = ?Q, OF that]) (erule cancel, assumption, erule del)
  then have keys: "keeps_st ?Q (sweep_keys sys_gc live ks)" for live ks by (simp add: keeps_st_def)
  obtain c s1 where c: "gp_cancelled sys_gc (w, cs) = (c, s1)" by (rule prod.exhaust)
  have s1: "?Q s1" using cancel [OF _ c] by simp
  have body: "keeps_st ?Q (and_then (map_err_st repo_error_text (gp_list_blobs sys_gc)) (\<lambda>blobs.
      and_then (gp_list_old sys_gc grace) (\<lambda>on_disk. sweep_keys sys_gc (live_keys (gp_backend sys_gc) blobs) on_disk)))"
    using list keys by (intro keeps_and_then keeps_map_err)
  show ?thesis
    using assms c s1 keeps_stD [OF body s1] by (cases c) (auto simp: sweep_once_def)
qed

lemma job_in_use:
  assumes "job_ok parse_url w acc k" "b \<in> blobs_of (refs_of w k)"
  shows "blob_in_use w b"
proof -
  obtain r where r: "find_email k (w_db w) = Some r" using assms(1) by (auto simp: job_ok_def)
  then have "r \<in> set (db_emails (w_db w))" "er_id r = k" using find_email_Some by blast+
  moreover have "b \<in> ar_blob ` set (row_refs r)" using assms(2) r by (simp add: refs_of_def blobs_of_def)
  moreover have "latest_event_type k (w_db w) \<notin> {''delivery.succeeded'', ''delivery.failed''}"
  proof (cases "newest_first vr_created vr_id (filter (\<lambda>v. vr_email v = k) (db_events (w_db w)))")
    case (Cons v vs)
    then have "v \<in> set (filter (\<lambda>v. vr_email v = k) (db_events (w_db w)))"
      by (metis list.set_intros(1) newest_first_set)
    then have "\<not> terminal_type (vr_type v)" using assms(1) by (auto simp: job_ok_def)
    with Cons show ?thesis by (simp add: latest_event_type_def terminal_type_def)
  qed (simp add: latest_event_type_def del: newest_first_Nil)
  ultimately show ?thesis by (auto simp: blob_in_use_def)
qed

lemma sweep_evolves:
  assumes "sys_inv w" "\<forall>k\<in>jobs w. job_ok parse_url w acc k" "sweep_once sys_gc grace (w, cs) = (r, w', cs')"
  shows "evolves w w' \<and> jobs w' = jobs w"
proof -
  have "swept w (\<lambda>b. \<not> blob_in_use w b \<and> blob_is_old grace w b) (w', cs')" by (rule sweep_swept [OF assms(1,3)])
  then have sw: "sys_inv w'" "same_tables (w_db w') (w_db w)"
    "\<And>b. blob_at w' b = blob_at w b \<or> blob_at w' b = None \<and> \<not> blob_in_use w b \<and> blob_is_old grace w b"
    by (simp_all add: swept_def blob_at_def)
  have same: "db_emails (w_db w') = db_emails (w_db w)" "db_events (w_db w') = db_events (w_db w)"
    "db_queue (w_db w') = db_queue (w_db w)" using sw(2) by (simp_all add: same_tables_def)
  have jobs: "entry_pairs w' = entry_pairs w" "jobs w' = jobs w" using entry_pairs_same [OF same(3)] by simp_all
  have "blob_at w' b = blob_at w b" if "k \<in> jobs w" "b \<in> blobs_of (refs_of w k)" for k b
    using sw(3) [of b] job_in_use [of parse_url w acc k b] assms(2) that by blast
  then have "evolves w w'"
    using sw(1,3) same jobs sweep_next [OF assms(3)] by (auto simp: evolves_def email_ids_def find_email_def)
  with jobs show ?thesis by simp
qed

text \<open>New faults and a new clock.\<close>

lemma faults_evolves:
  assumes "sys_inv w" shows "evolves w (with_faults db_fs file_fs now w) \<and> jobs (with_faults db_fs file_fs now w) = jobs w"
  using assms by (auto simp: evolves_def with_faults_def sys_inv_def queue_inv_def fsw_inv_def fs_ok_def entry_pairs_def jobs_def
      find_email_def email_ids_def blob_at_def fs_stored_def cong: option.case_cong)

text \<open>A delivery makes the message of what was submitted.\<close>

lemma task_message:
  assumes "task_ok w acc t" "message_for S w (dq_envelope t) m"
  shows "\<exists>input. acc (dq_id t) = Some input \<and> submitted_message S input m"
proof -
  let ?refs = "env_attachments (dq_envelope t)"
  from assms(1) obtain input where t: "acc (dq_id t) = Some input" "dq_envelope t = envelope_of_input input ?refs"
      "list_all2 (ref_carries w) (si_attachments input) ?refs" by (rule task_okE)
  obtain resolved interpolated rendered atts where m: "st_resolve S (env_body (dq_envelope t)) = Inr resolved"
      "st_interpolate S resolved (env_variables (dq_envelope t)) = Inr interpolated" "st_render S interpolated = Inr rendered"
      "list_all2 (read_from w) ?refs atts" "m = outbound_of (dq_envelope t) rendered atts" using assms(2) by (auto simp: message_for_def)
  have "list_all2 att_delivered (si_attachments input) atts"
    using list_all2_trans [OF _ t(3) m(4), of att_delivered] by (auto simp: ref_carries_def read_from_def att_delivered_def)
  moreover have env: "env_body (dq_envelope t) = si_body input" "env_variables (dq_envelope t) = si_variables input"
    "env_sender (dq_envelope t) = si_sender input" "env_subject (dq_envelope t) = si_subject input"
    "env_recipients (dq_envelope t) = si_recipients input"
    using arg_cong [OF t(2), of env_body] arg_cong [OF t(2), of env_variables] arg_cong [OF t(2), of env_sender]
      arg_cong [OF t(2), of env_subject] arg_cong [OF t(2), of env_recipients] by (simp_all add: envelope_of_input_def)
  ultimately have "submitted_message S input m"
    using m by (simp add: submitted_message_def outbound_of_def)
  with t(1) show ?thesis by blast
qed


text \<open>A dequeue.\<close>

lemma claim_in_pairs: "map (\<lambda>e. (qr_id e, qr_email e)) (claim_in now q qs) = map (\<lambda>e. (qr_id e, qr_email e)) qs"
  by (simp add: claim_in_def claimed_row_def)

lemma entry_holds:
  assumes "program_inv SS parse_url s" "q \<in> set (db_queue (w_db (pr_world s)))"
  shows "holds (pr_world s) (qr_email q) (row_token q)"
proof -
  let ?w = "pr_world s"
  have inv: "queue_inv (w_db ?w)" using program_invD(1) [OF assms(1)] by (simp add: sys_inv_def)
  have "distinct (map qr_email (db_queue (w_db ?w)))" using program_invD(3) [OF assms(1)] by (simp add: entry_pairs_def comp_def)
  then have "qr_email r = qr_email q \<longleftrightarrow> r = q" if "r \<in> set (db_queue (w_db ?w))" for r
    using that assms(2) by (auto simp: distinct_map inj_on_def)
  moreover have "row_token r = row_token q \<longleftrightarrow> r = q" if "r \<in> set (db_queue (w_db ?w))" for r
    using that assms(2) queue_inv_distinct [OF inv] by (auto simp: distinct_map inj_on_def)
  ultimately show ?thesis by (auto simp: holds_def entry_pairs_def row_token_def)
qed

lemma claimed_task:
  assumes inv: "program_inv SS parse_url s" and q: "q \<in> set (db_queue (w_db (pr_world s)))"
    and t: "dq_token t = row_token q" "dq_id t = qr_email q" "find_email (qr_email q) (w_db (pr_world s)) = Some r"
      "parse_envelope parse_url r = Inr (dq_envelope t)"
  shows "task_ok (pr_world s) (pr_accepted s) t"
proof -
  let ?w = "pr_world s" and ?i = "qr_email q"
  note I = program_invD [OF inv]
  have job: "?i \<in> jobs ?w" using q by (simp add: jobs_def)
  from I(5) [OF job] obtain input where j: "pr_accepted s ?i = Some input" "dq_envelope t = envelope_of_input input (refs_of ?w ?i)"
      "list_all2 (ref_matches (sys_view ?w)) (si_attachments input) (refs_of ?w ?i)" using t(3,4) by (auto simp: job_ok_def)
  have refs: "env_attachments (dq_envelope t) = refs_of ?w ?i" unfolding j(2) by (simp add: envelope_of_input_def)
  show ?thesis
  proof (rule task_okI [of "pr_accepted s" t input ?w "qr_id q"])
    show "list_all2 (ref_carries ?w) (si_attachments input) (env_attachments (dq_envelope t))"
      unfolding refs by (rule att_all2_mono [OF j(3)]) (rule matches_carries [OF _ I(1)])
    show "holds ?w (dq_id t) (dq_token t)" unfolding t(1,2) by (rule entry_holds [OF inv q])
    show "uuid_ok (qr_id q)" using q by (intro entry_uuid_ok [OF I(1), of _ ?i]) (auto simp: entry_pairs_def)
    show "qr_id q < fw_next (w_files ?w)" using q by (intro I(4) [of _ ?i]) (auto simp: entry_pairs_def)
  qed (use j(1,2) I(6) [OF job] refs t(1,2) in \<open>simp_all add: row_token_def\<close>)
qed

lemma dequeue_outcome:
  assumes inv: "program_inv SS parse_url s"
    and run: "sqlite_try_dequeue parse_url now (w_db (pr_world s)) = (x, d)"
  shows "evolves (pr_world s) ((pr_world s)\<lparr>w_db := d\<rparr>) \<and> jobs ((pr_world s)\<lparr>w_db := d\<rparr>) = jobs (pr_world s) \<and>
    (case x of Inr (Some t) \<Rightarrow> task_ok (pr_world s) (pr_accepted s) t | _ \<Rightarrow> True)"
proof -
  let ?w = "pr_world s"
  have q: "queue_inv (w_db ?w)" using program_invD(1) [OF inv] by (simp add: sys_inv_def)
  have same: ?thesis if "same_tables d (w_db ?w)" "\<nexists>t. x = Inr (Some t)"
    using evolves_tables [OF program_invD(1) [OF inv] that(1)] that by (auto simp: jobs_def same_tables_def split: sum.splits option.splits)
  from q run show ?thesis
  proof (cases rule: sqlite_poll)
    case (claimed q)
    have q': "q \<in> set (db_queue (w_db ?w))" using oldest_claimable_Some [OF claimed(1)] by blast
    have tables: "db_queue d = claim_in now q (db_queue (w_db ?w))" "db_emails d = db_emails (w_db ?w)" "db_events d = db_events (w_db ?w)"
      using claimed(2) by (simp_all add: same_tables_def)
    have qd: "queue_inv d" by (rule queue_inv_same [OF claimed(2) queue_inv_claim [OF \<open>queue_inv (w_db ?w)\<close> q']])
    have pairs: "entry_pairs (?w\<lparr>w_db := d\<rparr>) = entry_pairs ?w" by (simp add: entry_pairs_def tables(1) claim_in_pairs)
    then have "evolves ?w (?w\<lparr>w_db := d\<rparr>)"
      using tables qd by (intro evolves_queue [OF program_invD(1) [OF inv]]) (simp_all add: entry_pairs_def)
    moreover have "task_ok ?w (pr_accepted s) t" if "x = Inr (Some t)" for t
      using claimed(3) that claimed_task [OF inv q', of t] by auto
    ultimately show ?thesis using pairs by (auto simp: jobs_pairs split: sum.splits option.splits)
  qed (use same in auto)
qed

text \<open>A task.\<close>

lemma handled_outcome:
  assumes inv: "program_inv SS parse_url s" and t: "t \<in> set (pr_tasks s)"
    and run: "process_one (sys_worker S) (dq_id t) (dq_envelope t) (dq_attempt t) (dq_token t) (pr_world s, pr_sent s) = (w, sent)"
  shows "evolves (pr_world s) w \<and> jobs (pr_world s) \<subseteq> insert (dq_id t) (jobs w) \<and>
    (let res = delivery S (dq_id t) (dq_envelope t) (dq_attempt t) (pr_world s, pr_sent s) in
      (sent = pr_sent s \<and> \<not> is_ok res \<or>
       (\<exists>input m. pr_accepted s (dq_id t) = Some input \<and> submitted_message S input m \<and> sent = pr_sent s @ [m] \<and>
          res = map_err ProcSend (st_send S m))) \<and>
      (dq_id t \<in> jobs (pr_world s) \<longrightarrow> dq_id t \<notin> jobs w \<longrightarrow>
        (case res of Inr n \<Rightarrow> True | Inl e \<Rightarrow> is_terminal e (dq_attempt t))))"
proof -
  let ?w = "pr_world s"
  note ok = program_invD(7) [OF inv t]
  from ok have at: "isolated ?w (dq_id t) (env_attachments (dq_envelope t))" "holds ?w (dq_id t) (dq_token t)"
    and own: "\<forall>a\<in>set (env_attachments (dq_envelope t)). fs_own (ar_blob a)"
    by (auto simp: task_ok_def Let_def list_all2_conv_all_nth in_set_conv_nth ref_carries_def)
  note out = process_one_evolves [OF run program_invD(1) [OF inv] own at]
  have "\<exists>input. pr_accepted s (dq_id t) = Some input \<and> submitted_message S input m" if "message_for S ?w (dq_envelope t) m" for m
    by (rule task_message [OF ok that])
  with out show ?thesis unfolding Let_def by blast
qed


lemma step_inv:
  assumes "program_inv SS parse_url s" "program_step SS parse_url s s'"
  shows "program_inv SS parse_url s'"
  using assms(2)
proof cases
  case (submitted input fetch i r w)
  note I = program_invD [OF assms(1)]
  have "jobs_stored (pr_world s)" using I(5) jobs_stored by blast
  note out = submission_outcome [OF submitted(4) I(1) this submitted(2,3)]
  show ?thesis
  proof (cases "r = Inr i \<and> v_rows (sys_view (pr_world s)) i = None")
    case True
    then have "created parse_url (pr_world s) i input w" using out by simp
    from created_inv [OF assms(1) this] show ?thesis unfolding submitted(1) using True by simp
  next
    case False
    then have "evolves (pr_world s) w" using out by (simp only: if_False)
    from program_inv_evolves [OF assms(1) this subset_refl, of "pr_sent s"] have "program_inv SS parse_url (s\<lparr>pr_world := w\<rparr>)" by simp
    then show ?thesis unfolding submitted(1) using False by (simp only: if_False) simp
  qed
next
  case (dequeued x d)
  note out = dequeue_outcome [OF assms(1) dequeued(2)]
  let ?w = "(pr_world s)\<lparr>w_db := d\<rparr>"
  have "program_inv SS parse_url (s\<lparr>pr_world := ?w\<rparr>)"
    using program_inv_evolves [OF assms(1) conjunct1 [OF out] subset_refl, of "pr_sent s"] by simp
  moreover have "task_ok ?w (pr_accepted s) t" if "x = Inr (Some t)" for t
    using out that evolves_task_ok by auto
  ultimately show ?thesis
    unfolding dequeued(1) by (cases x) (auto simp: program_inv_def Let_def split: option.splits)
next
  case (handled S pre t post w sent)
  have t: "t \<in> set (pr_tasks s)" using handled(3) by simp
  note out = handled_outcome [OF assms(1) t handled(4)]
  show ?thesis
    unfolding handled(1)
  proof (rule program_inv_evolves [OF assms(1) conjunct1 [OF out]])
    show "set (pre @ post) \<subseteq> set (pr_tasks s)" using handled(3) by auto
    show "m \<in> set (pr_sent s) \<or> (\<exists>i input S. pr_accepted s i = Some input \<and> S \<in> SS \<and> submitted_message S input m)" if "m \<in> set sent" for m
      using that out handled(2) unfolding Let_def by fastforce
  qed
next
  case (swept grace cancels r w cancels')
  note I = program_invD [OF assms(1)]
  have "evolves (pr_world s) w" using sweep_evolves [OF I(1) _ swept(2)] I(5) by blast
  from program_inv_evolves [OF assms(1) this subset_refl, of "pr_sent s"] show ?thesis unfolding swept(1) by simp
next
  case crashed
  have "evolves (pr_world s) (pr_world s)" by (rule evolves_refl [OF program_invD(1) [OF assms(1)]])
  from program_inv_evolves [OF assms(1) this, of "[]" "pr_sent s"] show ?thesis unfolding crashed by simp
next
  case (weather db_fs file_fs now)
  note ev = faults_evolves [OF program_invD(1) [OF assms(1)], of db_fs file_fs now]
  from program_inv_evolves [OF assms(1) conjunct1 [OF ev] subset_refl, of "pr_sent s"] show ?thesis unfolding weather by simp
qed

lemma reachable_inv: "program_reachable SS parse_url s \<Longrightarrow> program_inv SS parse_url s"
  unfolding program_reachable_def by (induction rule: rtranclp_induct) (auto intro: start_inv step_inv)

end
