(* ===== verification/Delivery.thy ===== *)
theory Delivery
  imports Invariant
begin

text \<open>
  What the invariant gives for the whole program: queued emails are intact, only what was submitted reaches a sender, no email
  leaves the queue unless it was delivered or given up, and without faults a delivery completes and cleans up.
\<close>

section \<open>A delivery without faults\<close>

lemma get_calm:
  assumes "fs_faults (fw_fs f) = []" "fs_stored (fw_fs f) b = Some bs"
  shows "\<exists>f'. fsw_get b f = (Inr (cursor bs), f') \<and> fs_faults (fw_fs f') = []"
  using assms
  by (auto simp: fsw_get_def fs_get_def fs_stored_def fs_own_def io_calm open_file_def and_then_def map_err_st_def done_with_def
      cursor_def split: if_splits option.splits fs_entry.splits)

lemma resolve_calm:
  assumes "fault_free w" "sys_inv w" "\<forall>a\<in>set atts. \<exists>bs. blob_at w (ar_blob a) = Some bs"
  shows "\<exists>ras w'. resolve_attachments (\<lambda>b. on_world (on_files (fsw_get b))) atts acc (w, ms) = (Inr ras, w', ms) \<and> fault_free w'"
  using assms
proof (induction atts arbitrary: acc w)
  case (Cons a atts)
  obtain bs where bs: "blob_at w (ar_blob a) = Some bs" using Cons.prems(3) by auto
  obtain f where f: "fsw_get (ar_blob a) (w_files w) = (Inr (cursor bs), f)" "fs_faults (fw_fs f) = []"
    using get_calm [of "w_files w" "ar_blob a" bs] Cons.prems(1) bs by (auto simp: fault_free_def blob_at_def)
  let ?w = "w\<lparr>w_files := f\<rparr>"
  have g: "on_files (fsw_get (ar_blob a)) w = (Inr (cursor bs), ?w)" using f(1) by (simp add: on_files_def)
  note get = evolves_get [OF Cons.prems(2) stored_own [OF bs] g]
  have "fault_free ?w" using Cons.prems(1) f(2) by (simp add: fault_free_def)
  moreover have "\<forall>a\<in>set atts. \<exists>bs. blob_at ?w (ar_blob a) = Some bs" using Cons.prems(3) get(3) by simp
  ultimately obtain ras w' where
    "resolve_attachments (\<lambda>b. on_world (on_files (fsw_get b))) atts
       (acc @ [\<lparr>ra_filename = ar_filename a, ra_content_type = ar_content_type a, ra_bytes = bs\<rparr>]) (?w, ms) = (Inr ras, w', ms)" "fault_free w'"
    using Cons.IH evolves_inv [OF get(1)] by blast
  moreover have "on_world (on_files (fsw_get (ar_blob a))) (w, ms) = (Inr (cursor bs), ?w, ms)" using g by (simp add: on_world_run)
  ultimately show ?case by simp
qed simp

lemma ack_calm: "db_faults d = [] \<Longrightarrow> is_ok (fst (sqlite_ack tok d))"
  by (simp add: sqlite_ack_def and_then_def map_err_st_def done_with_def stmt_def delete_entry_def)

lemma ack_keeps_calm: "keeps_st (\<lambda>d. db_faults d = []) (sqlite_ack tok)"
  unfolding sqlite_ack_def by (intro calm_rules) (auto simp: delete_entry_def)

lemma delete_sent_calm:
  assumes "fault_free w" "sys_inv w" "\<forall>a\<in>set refs. fs_own (ar_blob a)" "delete_sent_blobs (sys_worker S) refs (w, ms) = (w', ms')"
  shows "(\<forall>a\<in>set refs. blob_at w' (ar_blob a) = None) \<and> (\<forall>b. blob_at w b = None \<longrightarrow> blob_at w' b = None)"
  using assms
proof (induction refs arbitrary: w)
  case (Cons a refs)
  obtain x w1 where d: "sp_delete_blob (sys_ports no_fetch) (ar_blob a) w = (x, w1)" by fastforce
  then obtain f where f: "fsw_delete (ar_blob a) (w_files w) = (x, f)" "w1 = w\<lparr>w_files := f\<rparr>"
    by (auto simp: sys_ports_def on_files_run)
  have own: "fs_own (ar_blob a)" and inv: "fsw_inv (w_files w)" using Cons.prems(2,3) by (simp_all add: sys_inv_def)
  have "is_ok x" using fsw_delete_calm [OF _ inv own] Cons.prems(1) f(1) by (simp add: fault_free_def)
  then have at: "blob_at w1 = (blob_at w)(ar_blob a := None)" and inv': "sys_inv w1"
    using fsw_delete_law [OF inv own f(1)] Cons.prems(2) f(2) by (simp_all add: blob_at_def sys_inv_def)
  have calm: "fault_free w1" using fault_free_ports(7) [OF Cons.prems(1), of no_fetch "ar_blob a"] d by simp
  have rest: "delete_sent_blobs (sys_worker S) refs (w1, ms) = (w', ms')"
    using Cons.prems(4) d by (simp add: sys_worker_def on_world_def)
  have "(\<forall>a\<in>set refs. blob_at w' (ar_blob a) = None) \<and> (\<forall>b. blob_at w1 b = None \<longrightarrow> blob_at w' b = None)"
    using Cons.IH [OF calm inv' _ rest] Cons.prems(3) by simp
  then show ?case using at by auto
qed simp


text \<open>The stages take a submission's body, and the transport takes any message.\<close>

definition accepts :: "stages \<Rightarrow> submit_email_input \<Rightarrow> bool" where
  "accepts S input \<longleftrightarrow>
     (\<exists>resolved interpolated rendered. st_resolve S (si_body input) = Inr resolved \<and>
        st_interpolate S resolved (si_variables input) = Inr interpolated \<and> st_render S interpolated = Inr rendered) \<and>
     (\<forall>m. is_ok (st_send S m))"

lemma process_calm:
  assumes "fault_free w" "sys_inv w" "\<forall>a\<in>set (env_attachments env). \<exists>bs. blob_at w (ar_blob a) = Some bs"
    and "accepts S input" "env_body env = si_body input" "env_variables env = si_variables input"
  shows "\<exists>n m w'. sys_process S env (w, ms) = (Inr n, w', ms @ [m]) \<and> fault_free w'"
proof -
  obtain resolved interpolated rendered where st: "st_resolve S (si_body input) = Inr resolved"
      "st_interpolate S resolved (si_variables input) = Inr interpolated" "st_render S interpolated = Inr rendered"
    using assms(4) by (auto simp: accepts_def)
  obtain ras w' where r: "resolve_attachments (\<lambda>b. on_world (on_files (fsw_get b))) (env_attachments env) [] (w, ms) = (Inr ras, w', ms)"
      "fault_free w'" using resolve_calm [OF assms(1-3), of "[]" ms] by blast
  obtain n where "st_send S (outbound_of env rendered ras) = Inr n" using assms(4) by (auto simp: accepts_def is_ok_iff)
  with st r assms(5,6) show ?thesis
    by (simp add: sys_process_def process_execute_def and_then_def map_err_st_def)
qed

lemma ack_world_calm:
  assumes "fault_free w"
  shows "\<exists>w'. wk_ack (sys_worker S) tok (w, ms) = (Inr (), w', ms) \<and> fault_free w' \<and> blob_at w' = blob_at w"
proof -
  obtain x d where d: "sqlite_ack tok (w_db w) = (x, d)" by fastforce
  have f: "db_faults (w_db w) = []" using assms by (simp add: fault_free_def)
  have "x = Inr ()" using ack_calm [OF f, of tok] d by (cases x) auto
  moreover have "db_faults d = []" using keeps_stD [OF ack_keeps_calm, of "w_db w" tok] f d by simp
  ultimately show ?thesis using d assms by (simp add: sys_worker_def on_world_run on_db_run fault_free_def blob_at_def)
qed

text \<open>A task of a queued email that meets no fault and no refusal runs to its end.\<close>

lemma delivery_calm:
  assumes inv: "program_inv SS parse_url s" and calm: "fault_free (pr_world s)" and t: "t \<in> set (pr_tasks s)"
    and job: "dq_id t \<in> jobs (pr_world s)" and acc: "pr_accepted s (dq_id t) = Some input" "accepts S input"
    and run: "process_one (sys_worker S) (dq_id t) (dq_envelope t) (dq_attempt t) (dq_token t) (pr_world s, pr_sent s) = (w, sent)"
  shows "(\<exists>m. submitted_message S input m \<and> sent = pr_sent s @ [m]) \<and> dq_id t \<notin> jobs w \<and>
    (\<forall>b\<in>blobs_of (refs_of (pr_world s) (dq_id t)). blob_at w b = None)"
proof -
  let ?w = "pr_world s" and ?ms = "pr_sent s" and ?env = "dq_envelope t" and ?i = "dq_id t"
  let ?refs = "env_attachments ?env" and ?cid = "env_correlation_id (dq_envelope t)" and ?P = "sys_worker S"
  note I = program_invD [OF inv]
  from I(7) [OF t] obtain u where T: "?env = envelope_of_input input ?refs" "list_all2 (ref_carries ?w) (si_attachments input) ?refs"
      "isolated ?w ?i ?refs" "holds ?w ?i (dq_token t)" "?refs = refs_of ?w ?i"
    using acc(1) job by (elim task_okE) auto
  have own: "\<forall>a\<in>set ?refs. fs_own (ar_blob a)"
    using T(2) by (auto simp: list_all2_conv_all_nth in_set_conv_nth ref_carries_def)
  have env: "env_body ?env = si_body input" "env_variables ?env = si_variables input"
    using arg_cong [OF T(1), of env_body] arg_cong [OF T(1), of env_variables] by (simp_all add: envelope_of_input_def)
  obtain x1 w1 where 1: "wk_publish ?P (Sending ?i (dq_attempt t) ?cid) (?w, ?ms) = (x1, w1, ?ms)" "evolves ?w w1"
      "blob_at w1 = blob_at ?w" "jobs w1 = jobs ?w"
    using publish_step [OF I(1), of "Sending ?i (dq_attempt t) ?cid" S ?ms] by (auto simp: terminal_type_def)
  have calm1: "fault_free w1"
    using fault_free_ports(5) [OF calm, of no_fetch "Sending ?i (dq_attempt t) ?cid"] 1(1)
    by (auto simp: sys_worker_def on_world_run dest: arg_cong [of _ _ snd])
  have "\<forall>a\<in>set ?refs. \<exists>bs. blob_at w1 (ar_blob a) = Some bs"
    unfolding T(5) 1(3) using job_blobs [OF I(5) [OF job]] by blast
  from process_calm [OF calm1 evolves_inv [OF 1(2)] this acc(2) env, of ?ms]
  obtain n m w2 where 2: "sys_process S ?env (w1, ?ms) = (Inr n, w2, ?ms @ [m])" "fault_free w2" by blast
  note pr = process_evolves [OF 2(1) evolves_inv [OF 1(2)] own]
  have w2: "evolves ?w w2" using evolves_trans [OF 1(2)] pr by blast
  obtain w3 where 3: "wk_ack ?P (dq_token t) (w2, ?ms @ [m]) = (Inr (), w3, ?ms @ [m])" "fault_free w3"
    using ack_world_calm [OF 2(2)] by blast
  let ?rest = "\<lambda>st. snd (wk_publish ?P (Sent ?i n ?cid)
      (delete_sent_blobs ?P ?refs (snd (wk_set_attachments ?P ?i [] st))))"
  have run': "?rest (w3, ?ms @ [m]) = (w, sent)"
    using run 1(1) 2(1) 3(1) by (simp add: process_one_def Let_def sys_worker_def)
  note suc = success_evolves [where S = S and token = "dq_token t" and w = w2 and ms = "?ms @ [m]" and i = ?i and refs = ?refs and n = n and cid = ?cid
      and w' = w and ms' = sent]
  have gone: "?i \<notin> jobs w \<and> sent = ?ms @ [m]"
    using suc [OF _ evolves_inv [OF w2] own evolves_isolated [OF w2 T(3)] evolves_holds [OF w2 T(4)]] run' 3(1) by (simp add: Let_def)
  obtain x4 w4 where 4: "sp_set_attachments (sys_ports no_fetch) ?i [] w3 = (x4, w4)" by fastforce
  have ev3: "evolves w2 w3" "?i \<notin> jobs w3"
    using ack_step [OF evolves_inv [OF w2] evolves_holds [OF w2 T(4)], of S "?ms @ [m]"] 3(1) by auto
  have inv4: "sys_inv w4" by (rule evolves_inv [OF evolves_set [OF evolves_inv [OF ev3(1)] 4 ev3(2)]])
  have calm4: "fault_free w4" using fault_free_ports(2) [OF 3(2), of no_fetch ?i "[]"] 4 by simp
  obtain w5 ms5 where 5: "delete_sent_blobs ?P ?refs (w4, ?ms @ [m]) = (w5, ms5)" by fastforce
  have "blob_at w = blob_at w5"
  proof -
    have "snd (wk_set_attachments ?P ?i [] (w3, ?ms @ [m])) = (w4, ?ms @ [m])"
      using 4 by (simp add: sys_worker_def on_world_def)
    with run' 5 have "snd (wk_publish ?P (Sent ?i n ?cid) (w5, ms5)) = (w, sent)" by simp
    moreover obtain x6 w6 where 6: "sp_publish (sys_ports no_fetch) (Sent ?i n ?cid) w5 = (x6, w6)" by fastforce
    ultimately have "w = w6" by (simp add: sys_worker_def on_world_def)
    then show ?thesis using publish_blobs [OF 6] by simp
  qed
  then have "blob_at w (ar_blob a) = None" if "a \<in> set ?refs" for a
    using delete_sent_calm [OF calm4 inv4 own 5] that by simp
  moreover have "submitted_message S input m"
  proof -
    have "message_for S w1 ?env m" using pr by auto
    then have "message_for S ?w ?env m" using message_blobs [OF 1(3), of S] by simp
    with task_message [OF I(7) [OF t]] acc(1) show ?thesis by fastforce
  qed
  ultimately show ?thesis using gone unfolding T(5) blobs_of_def by auto
qed


section \<open>A concrete run\<close>

text \<open>Submit, dequeue, deliver.\<close>

definition sample_stages :: stages where
  "sample_stages =
     \<lparr>st_resolve = (\<lambda>_. Inr (ResolvedMjml ''m'')), st_interpolate = (\<lambda>_ _. Inr (InterpolatedMjml ''m'')),
      st_render = (\<lambda>_. Inr (RenderedBody \<lparr>plain_text = Some ''m'', plain_html = None\<rparr>)),
      st_send = (\<lambda>_. Inr (SenderName ''smtp''))\<rparr>"

definition unclaimed :: "world \<Rightarrow> bool" where
  "unclaimed w \<longleftrightarrow> (\<forall>q\<in>set (db_queue (w_db w)). qr_attempts q = 0 \<and> qr_claimed q = None)"

lemma unclaimed_submit:
  assumes "sys_inv w" "body_ok (si_body input)" "unclaimed w"
  shows "unclaimed (snd (submit_execute (sys_ports fetch) i input w))"
proof (rule stack.submit_keeps [OF assms(1,2)])
  show "unclaimed (snd (sp_save (sys_ports fetch) i (envelope_of_input input []) w))"
    using assms(3) repository_keeps_queue(1) by (simp add: unclaimed_def sys_ports_def on_db_def case_prod_beta)
  show "unclaimed (snd (sp_set_attachments (sys_ports fetch) i refs w))" if "sys_inv w" "unclaimed w" for refs w
    using that repository_keeps_queue(2) [of "w_db w"]
    by (simp add: unclaimed_def sys_ports_def on_db_def case_prod_beta sys_inv_def queue_inv_def)
  show "unclaimed (snd (sp_delete_email (sys_ports fetch) i w))" if "sys_inv w" "unclaimed w" for w
    using that repository_keeps_queue(3) [of "w_db w"]
    by (simp add: unclaimed_def sys_ports_def on_db_def case_prod_beta sys_inv_def queue_inv_def)
  show "unclaimed (snd (sp_publish (sys_ports fetch) (Queued i (si_correlation_id input)) w))" if "unclaimed w" for w
    using that repository_keeps_queue(4) by (simp add: unclaimed_def sys_ports_def with_id_def on_db_def case_prod_beta Let_def)
  show "unclaimed (snd (sp_enqueue (sys_ports fetch) i env w))" if "sys_inv w" "unclaimed w" for env w
  proof (cases "uuid_ok (fw_next (w_files w))")
    case True
    let ?now = "w_now (w\<lparr>w_files := (w_files w)\<lparr>fw_next := fw_next (w_files w) + 1\<rparr>\<rparr>)"
    obtain x d where d: "sqlite_enqueue ?now (fw_next (w_files w)) [] i env (w_db w) = (x, d)" by fastforce
    have "queue_inv (w_db w)" using that(1) by (simp add: sys_inv_def)
    note law = sqlite_enqueue_law [OF this True d]
    then show ?thesis
      using that(2) d True by (auto simp: unclaimed_def sys_ports_def with_id_def on_db_def Let_def queue_row_of_def)
  qed (use that in \<open>simp add: unclaimed_def sys_ports_def with_id_def Let_def\<close>)
qed (simp_all add: unclaimed_def sys_ports_def on_files_def case_prod_beta)

lemma dequeue_calm:
  assumes "db_faults d = []" "db_queue d = [q]" "qr_attempts q = 0" "qr_claimed q = None"
    and "find_email (qr_email q) d = Some r" "parse_envelope parse_url r = Inr env"
  shows "\<exists>t d'. sqlite_try_dequeue parse_url now d = (Inr (Some t), d') \<and> dq_id t = qr_email q \<and> db_faults d' = [] \<and>
    map qr_email (db_queue d') = [qr_email q] \<and> db_emails d' = db_emails d"
proof -
  let ?d = "d\<lparr>db_queue := [claimed_row now q]\<rparr>"
  have 1: "stmt ''claiming next queue entry'' (claim_next now) d = (Inr (Some (claimed_row now q)), ?d)"
    by (rule stmt_ok [OF assms(1)]) (use assms(2,4) in \<open>simp add: claim_next_def oldest_claimable_def claimable_def claim_in_def\<close>)
  have find: "find_email (qr_email q) ?d = Some r" using assms(5) by (simp add: find_email_def)
  then have 2: "stmt ''fetching email for dequeue'' (select_email (qr_email q)) ?d = (Inr (Some r), ?d)"
    by (intro stmt_ok) (simp_all add: select_email_def assms(1))
  have "er_id r = qr_email q" using find_email_Some [OF assms(5)] by simp
  with 1 2 assms(1,3,6) show ?thesis
    by (simp add: sqlite_try_dequeue_def and_then_def map_err_st_def done_with_def claimed_row_def u32_max_def parse_row_def)
qed

lemma sample_run:
  obtains s1 s2 s3 t where "program_reachable {sample_stages} (\<lambda>u. Inl ''no url'') s1"
    "program_step {sample_stages} (\<lambda>u. Inl ''no url'') s1 s2" "program_step {sample_stages} (\<lambda>u. Inl ''no url'') s2 s3"
    "fault_free (pr_world s2)" "t \<in> set (pr_tasks s2)" "dq_id t = EmailId 7" "jobs (pr_world s1) = {EmailId 7}" "jobs (pr_world s2) = {EmailId 7}"
    "pr_accepted s2 (EmailId 7) = Some sample_input" "pr_sent s2 = []" "refs_of (pr_world s2) (EmailId 7) = refs_of (pr_world s1) (EmailId 7)"
    "refs_of (pr_world s1) (EmailId 7) \<noteq> []"
    "process_one (sys_worker sample_stages) (dq_id t) (dq_envelope t) (dq_attempt t) (dq_token t) (pr_world s2, pr_sent s2)
      = (pr_world s3, pr_sent s3)"
proof -
  let ?SS = "{sample_stages}" and ?p = "\<lambda>u. Inl ''no url'' :: anyhow + url" and ?i = "EmailId 7"
  obtain w where w: "submit_execute (sys_ports no_fetch) ?i sample_input empty_world = (Inr ?i, w)" using sample_submit by blast
  let ?s1 = "\<lparr>pr_world = w, pr_sent = [], pr_tasks = [], pr_accepted = [?i \<mapsto> sample_input]\<rparr>"
  have body: "body_ok (si_body sample_input)" "url_stable ?p (si_body sample_input)" by (simp_all add: sample_input_def plain_ok_def)
  have none: "v_rows (sys_view empty_world) ?i = None" by (simp add: sys_view_def empty_world_def empty_db_def find_email_def)
  have empty: "entry_pairs empty_world = []" by (simp add: entry_pairs_def empty_world_def empty_db_def)
  then have "jobs_stored empty_world" by (simp add: jobs_stored_def jobs_pairs)
  from submission_outcome [OF w empty_world_inv(1) this body] none have c: "created ?p empty_world ?i sample_input w" by simp
  have step1: "program_step ?SS ?p program_start ?s1"
    using program_step.submitted [OF body, of no_fetch ?i program_start "Inr ?i" w ?SS] w none by (simp add: program_start_def)
  then have reach1: "program_reachable ?SS ?p ?s1" by (auto simp: program_reachable_def)
  obtain u where "entry_pairs w = [(u, ?i)]" using c empty by (auto simp: created_def)
  then obtain q where q: "db_queue (w_db w) = [q]" "qr_email q = ?i" by (auto simp: entry_pairs_def)
  have jobs1: "jobs w = {?i}" by (simp add: jobs_def q)
  obtain r where r: "find_email ?i (w_db w) = Some r" "parse_envelope ?p r = Inr (envelope_of_input sample_input (refs_of w ?i))"
    using c by (auto simp: created_def)
  have "list_all2 (ref_matches (sys_view w)) (si_attachments sample_input) (refs_of w ?i)" using c by (simp add: created_def)
  then have refs: "refs_of w ?i \<noteq> []" by (auto simp: sample_input_def)
  have "unclaimed empty_world" by (simp add: unclaimed_def empty_world_def empty_db_def)
  from unclaimed_submit [OF empty_world_inv(1) body(1) this, of no_fetch ?i] have "unclaimed w" unfolding w by simp
  then have q0: "qr_attempts q = 0" "qr_claimed q = None" using q(1) by (simp_all add: unclaimed_def)
  have calm: "fault_free w" using calm.submit_Ok [of empty_world sample_input no_fetch ?i ?i w] empty_world_inv body(1) w by blast
  then have dbf: "db_faults (w_db w) = []" by (simp add: fault_free_def)
  obtain t d where d: "sqlite_try_dequeue ?p (w_now w) (w_db w) = (Inr (Some t), d)" "dq_id t = ?i" "db_faults d = []"
      "map qr_email (db_queue d) = [?i]" "db_emails d = db_emails (w_db w)"
    using dequeue_calm [OF dbf q(1) q0, of r ?p _ "w_now w"] r q(2) by auto
  let ?w2 = "w\<lparr>w_db := d\<rparr>"
  let ?s2 = "\<lparr>pr_world = ?w2, pr_sent = [], pr_tasks = [t], pr_accepted = [?i \<mapsto> sample_input]\<rparr>"
  have step2: "program_step ?SS ?p ?s1 ?s2"
    using program_step.dequeued [of ?p ?s1 "Inr (Some t)" d ?SS] d(1) by simp
  have jobs2: "jobs ?w2 = {?i}" using d(4) by (simp add: jobs_def flip: set_map)
  have calm2: "fault_free ?w2" using calm d(3) by (simp add: fault_free_def)
  have refs2: "refs_of ?w2 ?i = refs_of w ?i" using d(5) by (simp add: refs_of_def find_email_def)
  obtain w3 sent where run: "process_one (sys_worker sample_stages) (dq_id t) (dq_envelope t) (dq_attempt t) (dq_token t) (?w2, []) = (w3, sent)"
    by fastforce
  let ?s3 = "\<lparr>pr_world = w3, pr_sent = sent, pr_tasks = [], pr_accepted = [?i \<mapsto> sample_input]\<rparr>"
  have step3: "program_step ?SS ?p ?s2 ?s3"
    using program_step.handled [of sample_stages ?SS ?s2 "[]" t "[]" w3 sent] run by simp
  show thesis
  proof (rule that [OF reach1 step2 step3])
    show "process_one (sys_worker sample_stages) (dq_id t) (dq_envelope t) (dq_attempt t) (dq_token t) (pr_world ?s2, pr_sent ?s2) = (pr_world ?s3, pr_sent ?s3)"
      using run by (simp only: program.simps)
    show "refs_of (pr_world ?s2) ?i = refs_of (pr_world ?s1) ?i" "refs_of (pr_world ?s1) ?i \<noteq> []"
      using refs refs2 by (simp_all only: program.simps) simp_all
  qed (use calm2 d(2) jobs1 jobs2 in simp_all)
qed

section \<open>Leaving the queue\<close>

lemma submission_keeps_jobs:
  assumes "submit_execute (sys_ports fetch) i input w = (r, w')" "sys_inv w" "body_ok (si_body input)"
  shows "jobs w \<subseteq> jobs w'"
proof -
  have "set (v_jobs (sys_view w)) \<subseteq> set (v_jobs (sys_view w'))"
    using stack.submit_Ok [OF assms(2,3), of fetch i _ w'] stack.submit_Err [OF assms(2,3), of fetch i _ w'] assms(1)
    by (cases r) (fastforce simp: view_after_submit_def)+
  then show ?thesis by (simp add: jobs_pairs flip: pairs_jobs)
qed

lemma leaving_step:
  assumes inv: "program_inv SS parse_url s" and step: "program_step SS parse_url s s'"
    and job: "i \<in> jobs (pr_world s)" "i \<notin> jobs (pr_world s')"
  shows "\<exists>S\<in>SS. \<exists>t\<in>set (pr_tasks s). dq_id t = i \<and>
     (case delivery S i (dq_envelope t) (dq_attempt t) (pr_world s, pr_sent s) of
        Inr n \<Rightarrow> \<exists>input m. pr_accepted s i = Some input \<and> submitted_message S input m \<and> pr_sent s' = pr_sent s @ [m] \<and> st_send S m = Inr n
      | Inl e \<Rightarrow> is_terminal e (dq_attempt t))"
  using step
proof cases
  case (submitted input fetch k r w)
  note I = program_invD [OF inv]
  from submission_keeps_jobs [OF submitted(4) I(1) submitted(2)] job submitted(1) show ?thesis by auto
next
  case (dequeued x d)
  then show ?thesis using dequeue_outcome [OF inv dequeued(2)] job by simp
next
  case (handled S pre t post w sent)
  have t: "t \<in> set (pr_tasks s)" using handled(3) by simp
  note out = handled_outcome [OF inv t handled(4)]
  have id: "dq_id t = i" using out job handled(1) by auto
  have ok: "Inr n = map_err ProcSend x \<longleftrightarrow> x = Inr n" for x :: "send_error + sender_name" and n by (cases x) auto
  let ?res = "delivery S i (dq_envelope t) (dq_attempt t) (pr_world s, pr_sent s)"
  have "case ?res of Inr n \<Rightarrow> \<exists>input m. pr_accepted s i = Some input \<and> submitted_message S input m \<and> pr_sent s' = pr_sent s @ [m] \<and> st_send S m = Inr n
      | Inl e \<Rightarrow> is_terminal e (dq_attempt t)"
    using out job handled(1) unfolding Let_def id by (cases ?res) (auto simp: ok split: sum.splits)
  with handled(2) t id show ?thesis by blast
next
  case (swept grace cancels r w cancels')
  note I = program_invD [OF inv]
  have "\<forall>k\<in>jobs (pr_world s). job_ok parse_url (pr_world s) (pr_accepted s) k" using I(5) by blast
  from sweep_evolves [OF I(1) this swept(2)] job swept(1) show ?thesis by simp
next
  case crashed
  with job show ?thesis by simp
next
  case (weather db_fs file_fs now)
  then show ?thesis using faults_evolves [OF program_invD(1) [OF inv]] job by simp
qed

section \<open>The program\<close>

text \<open>C3: In every state the program can reach, through any interleaving of submissions, dequeues, deliveries, sweeps, crashes and
  faults, an email in the queue is intact: it was accepted, its row reads back as the envelope submitted, each of its
  attachments is still stored with the name, type and bytes submitted, and it has no final event.\<close>

theorem queued_emails_intact:
  assumes "program_reachable SS parse_url s" "k \<in> jobs (pr_world s)"
  shows "\<exists>input r. pr_accepted s k = Some input \<and> find_email k (w_db (pr_world s)) = Some r \<and>
     parse_envelope parse_url r = Inr (envelope_of_input input (row_refs r)) \<and>
     list_all2 (ref_matches (sys_view (pr_world s))) (si_attachments input) (row_refs r) \<and>
     (\<forall>v\<in>set (db_events (w_db (pr_world s))). vr_email v = k \<longrightarrow> \<not> terminal_type (vr_type v))"
  using program_invD(5) [OF reachable_inv [OF assms(1)] assms(2)] by (auto simp: job_ok_def refs_of_def)

text \<open>C1: Whatever reaches a sender was submitted: each message carries the sender, recipients and subject of an accepted
  submission, a body made from its body by the stages of a task, and all its attachments, in order, with their names,
  types and bytes.  No fault, crash, retry or sweep makes the program send a truncated or mixed-up message.\<close>

theorem sent_messages_submitted:
  assumes "program_reachable SS parse_url s" "m \<in> set (pr_sent s)"
  shows "\<exists>i input S. pr_accepted s i = Some input \<and> S \<in> SS \<and> submitted_message S input m"
  by (rule program_invD(8) [OF reachable_inv [OF assms(1)] assms(2)])

text \<open>C2: No accepted email is lost: an email leaves the queue only by a step in which a worker finished a task of it, and either
  the sender accepted a message made from that submission, or the failure was final (a permanent refusal, or the last
  attempt).\<close>

theorem no_email_lost:
  assumes "program_reachable SS parse_url s" "program_step SS parse_url s s'"
    and "i \<in> jobs (pr_world s)" "i \<notin> jobs (pr_world s')"
  shows "\<exists>S\<in>SS. \<exists>t\<in>set (pr_tasks s). dq_id t = i \<and>
     (case delivery S i (dq_envelope t) (dq_attempt t) (pr_world s, pr_sent s) of
        Inr n \<Rightarrow> \<exists>input m. pr_accepted s i = Some input \<and> submitted_message S input m \<and> pr_sent s' = pr_sent s @ [m] \<and> st_send S m = Inr n
      | Inl e \<Rightarrow> is_terminal e (dq_attempt t))"
  using assms by (intro leaving_step reachable_inv)

text \<open>C4: A task completes: when the database and the file system do not fail, the stages take the body and the transport takes
  the message, handling a task of a queued email sends exactly one message, made from the submission, removes the email from
  the queue, and deletes its attachments from the store.\<close>

theorem delivery_completes:
  assumes "program_reachable SS parse_url s" "fault_free (pr_world s)" "t \<in> set (pr_tasks s)" "dq_id t \<in> jobs (pr_world s)"
    and "pr_accepted s (dq_id t) = Some input" "accepts S input"
    and "process_one (sys_worker S) (dq_id t) (dq_envelope t) (dq_attempt t) (dq_token t) (pr_world s, pr_sent s) = (w, sent)"
  shows "(\<exists>m. submitted_message S input m \<and> sent = pr_sent s @ [m]) \<and> dq_id t \<notin> jobs w \<and>
    (\<forall>b\<in>blobs_of (refs_of (pr_world s) (dq_id t)). blob_at w b = None)"
  by (rule delivery_calm [OF reachable_inv [OF assms(1)] assms(2-7)])

lemma sample_accepts: "accepts sample_stages sample_input"
  by (simp add: accepts_def sample_stages_def)

lemma reachable_step: "program_reachable SS parse_url s \<Longrightarrow> program_step SS parse_url s s' \<Longrightarrow> program_reachable SS parse_url s'"
  by (simp add: program_reachable_def)

theorem queued_emails_intact_witness:
  "\<exists>s. program_reachable {sample_stages} (\<lambda>u. Inl ''no url'') s \<and> EmailId 7 \<in> jobs (pr_world s) \<and>
     (\<exists>r. find_email (EmailId 7) (w_db (pr_world s)) = Some r \<and> row_refs r \<noteq> [])"
proof -
  obtain s1 where s: "program_reachable {sample_stages} (\<lambda>u. Inl ''no url'') s1" "jobs (pr_world s1) = {EmailId 7}"
      "refs_of (pr_world s1) (EmailId 7) \<noteq> []" by (rule sample_run)
  then have "EmailId 7 \<in> jobs (pr_world s1)" by simp
  with queued_emails_intact [OF s(1) this] s(1,3) show ?thesis by (intro exI [of _ s1]) (auto simp: refs_of_def)
qed

theorem sent_messages_submitted_witness:
  "\<exists>s m input. program_reachable {sample_stages} (\<lambda>u. Inl ''no url'') s \<and> m \<in> set (pr_sent s) \<and> submitted_message sample_stages input m"
proof -
  obtain s1 s2 s3 t where s: "program_reachable {sample_stages} (\<lambda>u. Inl ''no url'') s1"
      "program_step {sample_stages} (\<lambda>u. Inl ''no url'') s1 s2" "program_step {sample_stages} (\<lambda>u. Inl ''no url'') s2 s3"
      "fault_free (pr_world s2)" "t \<in> set (pr_tasks s2)" "dq_id t = EmailId 7" "jobs (pr_world s2) = {EmailId 7}"
      "pr_accepted s2 (EmailId 7) = Some sample_input"
      "process_one (sys_worker sample_stages) (dq_id t) (dq_envelope t) (dq_attempt t) (dq_token t) (pr_world s2, pr_sent s2)
        = (pr_world s3, pr_sent s3)" by (rule sample_run)
  note r2 = reachable_step [OF s(1,2)]
  have "\<exists>m. pr_sent s3 = pr_sent s2 @ [m]"
    using delivery_calm [OF reachable_inv [OF r2] s(4,5) _ _ sample_accepts s(9)] s(6,7,8) by auto
  then obtain m where "pr_sent s3 = pr_sent s2 @ [m]" by blast
  then have m: "m \<in> set (pr_sent s3)" by simp
  from sent_messages_submitted [OF reachable_step [OF r2 s(3)] m] m reachable_step [OF r2 s(3)] show ?thesis by blast
qed

theorem no_email_lost_witness:
  "\<exists>s s'. program_reachable {sample_stages} (\<lambda>u. Inl ''no url'') s \<and> program_step {sample_stages} (\<lambda>u. Inl ''no url'') s s' \<and>
     (\<exists>t\<in>set (pr_tasks s). dq_id t = EmailId 7) \<and> EmailId 7 \<notin> jobs (pr_world s')"
proof -
  obtain s1 s2 s3 t where s: "program_reachable {sample_stages} (\<lambda>u. Inl ''no url'') s1"
      "program_step {sample_stages} (\<lambda>u. Inl ''no url'') s1 s2" "program_step {sample_stages} (\<lambda>u. Inl ''no url'') s2 s3"
      "fault_free (pr_world s2)" "t \<in> set (pr_tasks s2)" "dq_id t = EmailId 7" "jobs (pr_world s2) = {EmailId 7}"
      "pr_accepted s2 (EmailId 7) = Some sample_input"
      "process_one (sys_worker sample_stages) (dq_id t) (dq_envelope t) (dq_attempt t) (dq_token t) (pr_world s2, pr_sent s2)
        = (pr_world s3, pr_sent s3)" by (rule sample_run)
  note r2 = reachable_step [OF s(1,2)]
  have "EmailId 7 \<notin> jobs (pr_world s3)"
    using delivery_calm [OF reachable_inv [OF r2] s(4,5) _ _ sample_accepts s(9)] s(6,7,8) by auto
  with no_email_lost [OF r2 s(3), of "EmailId 7"] s(3,7) r2 show ?thesis by blast
qed

theorem delivery_completes_witness:
  "\<exists>s t w sent. program_reachable {sample_stages} (\<lambda>u. Inl ''no url'') s \<and> t \<in> set (pr_tasks s) \<and> process_one (sys_worker sample_stages) (dq_id t) (dq_envelope t) (dq_attempt t) (dq_token t)
     (pr_world s, pr_sent s) = (w, sent) \<and> length sent = 1 \<and> jobs (pr_world s) = {EmailId 7} \<and> EmailId 7 \<notin> jobs w"
proof -
  obtain s1 s2 s3 t where s: "program_reachable {sample_stages} (\<lambda>u. Inl ''no url'') s1"
      "program_step {sample_stages} (\<lambda>u. Inl ''no url'') s1 s2" "program_step {sample_stages} (\<lambda>u. Inl ''no url'') s2 s3"
      "fault_free (pr_world s2)" "t \<in> set (pr_tasks s2)" "dq_id t = EmailId 7" "jobs (pr_world s2) = {EmailId 7}"
      "pr_accepted s2 (EmailId 7) = Some sample_input" "pr_sent s2 = []"
      "process_one (sys_worker sample_stages) (dq_id t) (dq_envelope t) (dq_attempt t) (dq_token t) (pr_world s2, pr_sent s2)
        = (pr_world s3, pr_sent s3)" by (rule sample_run)
  have "length (pr_sent s3) = 1 \<and> EmailId 7 \<notin> jobs (pr_world s3)"
    using delivery_completes [OF reachable_step [OF s(1,2)] s(4,5) _ _ sample_accepts s(10)] s(6-9) by auto
  with s(5,7,10) reachable_step [OF s(1,2)] show ?thesis by blast
qed

end
