(* ===== verification/Spec2Isabelle.thy ===== *)
theory Spec2Isabelle
  imports Prelude Entities Ports RoutedSender SubmitEmail ProcessEmail Worker UseCases SqlDto SqlStore SqlQueue PgStore
    MemoryQueue FsStore System LimitedReader HttpApi HttpSystem Remote RedisStore S3Store Smtp Publishers NatsQueue InboundNats JetStream Templates Telemetry Wiring AppLife Program Invariant Delivery
begin

text \<open>
  Catapulte: an email gateway in Rust.

  A client submits an email over HTTP or NATS; the program stores it with its attachments, queues it and answers.  Workers take
  emails off the queue, fetch and fill in their template, render it, read the attachments and hand one message to one of several
  SMTP senders, with retries; what happens to an email is recorded as events.  A collector removes attachments nobody refers to.

  \<^bold>\<open>Parts and theories.\<close>
  The domain (\<open>src/domain\<close>) declares entities, ports (traits) and use cases over the ports; adapters (\<open>src/adapter\<close>)
  implement the ports or drive the use cases; \<open>src/binary\<close> chooses and connects them; \<open>src/telemetry\<close> sets up the export of
  traces and metrics.  The theories follow this, in the order of their imports:

  \<^item> \<open>Prelude\<close>: results as sums, strings and integers of the Rust standard library, environment variables, and the lemmas all
    theories share (\<open>keeps_st\<close>: a call keeps a property of the state).
  \<^item> \<open>Entities\<close> (\<open>domain/src/entity\<close>, \<open>macros.rs\<close>), \<open>Ports\<close> (\<open>domain/src/port\<close>): ids, envelopes, bodies, events, attachments;
    port errors, parameters and results, readers with a possible failure.
  \<^item> \<open>RoutedSender\<close> (\<open>service/routed_email_sender.rs\<close>): routes by sender domain, priority and quota; equals its
    specification as a pass over candidates.
  \<^item> \<open>SubmitEmail\<close> (\<open>use_case/submit_email.rs\<close>): reserve the row, fetch and store attachments, record them, enqueue, publish,
    and undo.  The locale \<open>submit_laws\<close> states what the ports promise over an abstract view of rows, blobs, jobs and events;
    \<open>submit_reliable\<close> extends it for ports that do not fail.
  \<^item> \<open>ProcessEmail\<close> (\<open>process_queued_email.rs\<close>, \<open>check_readiness.rs\<close>), \<open>UseCases\<close> (\<open>list_*.rs\<close>, the collector of
    \<open>binary/src/gc.rs\<close>), \<open>Worker\<close> (\<open>inbound-worker/src/worker.rs\<close>): one delivery; listings; the handling of a dequeued
    email, the backoff and the run loop as a step relation.
  \<^item> \<open>SqlDto\<close>, \<open>SqlStore\<close>, \<open>SqlQueue\<close> (\<open>outbound-sqlite\<close>), \<open>PgStore\<close> (\<open>outbound-postgres\<close>): JSON columns, tables,
    statements that can fail and be rolled back, claims with a timeout; the locales \<open>claim_queue\<close> and \<open>sender_usage\<close> have their
    interpretations here.  \<open>PgStore\<close> shares the tables of the SQLite model and has what differs: duplicate ids, NUL characters,
    patterns, the dequeue as a transaction that skips locked rows, tokens, and the usage query, which counts nothing.
  \<^item> \<open>MemoryQueue\<close>, \<open>FsStore\<close>, \<open>RedisStore\<close>, \<open>S3Store\<close> (\<open>outbound-queue-memory\<close>, \<open>outbound-attachment-*\<close>), \<open>NatsQueue\<close>
    (\<open>outbound-nats\<close>): the other backends, with temporary files, lost requests and replies, timestamps, payloads and headers.
  \<^item> \<open>Remote\<close> (\<open>outbound-attachment-fetcher\<close>, \<open>outbound-resolver\<close>), \<open>Smtp\<close> (\<open>outbound-smtp\<close>), \<open>Templates\<close>
    (\<open>outbound-interpolator\<close>, \<open>outbound-mjml\<close>), \<open>Publishers\<close> (\<open>outbound-webhook\<close>, NATS events, \<open>binary/src/publisher.rs\<close>): what
    leaves the program, and which hosts, headers and messages it may meet.
  \<^item> \<open>LimitedReader\<close>, \<open>HttpApi\<close> (\<open>inbound-http\<close>), \<open>InboundNats\<close> (\<open>inbound-nats\<close>), \<open>JetStream\<close> (the set-up of streams and
    consumers of both NATS adapters): what enters: limits, validation, authentication, batches, settlement of messages.
  \<^item> \<open>System\<close>: the default configuration (SQLite and files) as one world; the locales of \<open>SubmitEmail\<close> are interpreted on it.
    \<open>HttpSystem\<close> puts the HTTP API on top (\<open>binary/src/state.rs\<close>).
  \<^item> \<open>Wiring\<close>, \<open>AppLife\<close>, \<open>Telemetry\<close> (\<open>binary/src\<close>, \<open>src/telemetry\<close>): backends and their dispatch, configuration, building; the
    life of the application as a step relation with a clock, health probe, metrics sampler; telemetry.
  \<^item> \<open>Program\<close>, \<open>Invariant\<close>, \<open>Delivery\<close>: the running program.  A state is the world of \<open>System\<close>, the messages handed to senders,
    the tasks in flight, and a record of what was accepted.  A step is a submission, a poll of the queue, a task, a sweep of
    the collector, a crash that loses the tasks, or a change of the faults and the clock, in any order.

  \<^bold>\<open>How code becomes definitions.\<close>
  A struct is a record, an enum a datatype, \<open>Result\<close> a sum with \<open>Err\<close> on the left, a trait a record of functions on a state.
  A function with effects takes the state and returns its result and the new state; \<open>and_then\<close> is the \<open>?\<close> operator.
  Strings are lists of ASCII characters, UUIDs natural numbers below \<open>2^128\<close>, times integers in milliseconds; fixed-width
  arithmetic is written with its bound where the code checks or saturates.  Failing statements and system calls come from a list of
  booleans in the state (\<open>db_faults\<close>, \<open>fs_faults\<close>), so that a theorem about a state holds for every pattern of failures.
  Loops are recursive functions on what they run over.  Loops without an end (worker, collector, sampler, servers, waiting
  dequeues) run over a list of what they meet (polls, fetches, wake-ups), of any length, or are step relations; nothing else needs a bound.

  \<^bold>\<open>What is shown.\<close>
  For every component: its operations on every branch, the invariant of its state, and that it keeps the promises its clients
  rely on.  Across components:

  \<^item> a submission succeeds as a whole or leaves no job, and without faults no trace (\<open>System\<close>), also as seen in the HTTP answer;
  \<^item> a claimed email is handed out again only after its timeout or the delay of a nack, and a token settles one entry (\<open>SqlQueue\<close>);
  \<^item> the collector removes exactly the old unused attachments (\<open>System\<close>);
  \<^item> in every reachable state of the program queued emails are intact with all their attachments, only submitted messages
    reach a sender, no email leaves the queue undelivered unless its failure is final, and a delivery that meets no fault
    completes and cleans up (\<open>Delivery\<close>).

  The last group rests on one relation, \<open>evolves\<close>: entries may leave the queue and blobs may go or come under new keys, but emails
  that stay keep rows and blobs.  Every call of the worker, every sweep and every failed submission evolves the world; a
  created email is the only other change, and its blobs have keys that were never given out before.

  \<^bold>\<open>Not modelled.\<close>
  Third-party crates are parameters with their documented behaviour where a proof needs it: HTTP, SMTP, Redis, S3 and NATS clients,
  minijinja, mrml, lettre, base64 and JSON text, OpenTelemetry.  Sockets, TLS, connection pools and schema migrations are
  outcomes of parameters; the SQL text is modelled by what its statements do to the tables.  Log output and tracing spans are left out.
  A call of the HTTP client of \<open>Remote\<close> may be several requests, since it follows redirects; what a proof uses of that is stated there.
  Tests, the load test script and the deployment files are left out.  In \<open>Program\<close> a submission, a task and a
  sweep are single steps; in the code the awaits of concurrent ones interleave.  That a sweep meets a submission half done is
  covered by the grace period: a sweep spares every blob younger than it (\<open>System\<close>).  The steps of \<open>Program\<close> allow any grace period;
  the configuration allows a grace period of zero too, with which a sweep in the middle of a submission could remove its blobs: that race
  is outside the theorems of \<open>Delivery\<close>, and so is a crash in the middle of an operation.

  Further simplifications, each of one place:

  \<^item> JSON numbers are integers (\<open>Entities\<close>), and letters are compared and changed in case as ASCII (\<open>fetch_domain\<close>, environment names,
    \<open>ILIKE\<close>);
  \<^item> \<open>now\<close> plus the processing timeout is an unbounded integer (\<open>sqlite_try_dequeue\<close>), where the code would overflow for a clock
    within five minutes of the largest 64-bit value;
  \<^item> a failed statement or commit has had no effect (\<open>stmt\<close>): a commit whose reply is lost is not modelled for the SQL databases, while
    lost replies are for Redis;
  \<^item> an opened file is read without errors (\<open>fs_get\<close>), and the failures of the single entries of a listing are one failing call
    (\<open>fs_list_keys_older_than\<close>);
  \<^item> an S3 timestamp that is not ASCII, on which slicing at a byte inside a character would panic, is not represented
    (\<open>parse_iso8601_to_epoch\<close>), and the scores of the Redis index are exact, which doubles are up to \<open>2^53\<close> seconds (\<open>redis_range\<close>);
  \<^item> \<open>limited_to_end\<close> is the reading loop of the library, there to state what the limited reader gives its caller.
\<close>

end
